(* ===== verification/Oak_Prelude.thy ===== *)
theory Oak_Prelude
  imports Main "HOL-Library.Word" "HOL-Library.Char_ord" "HOL-Library.List_Lexorder"
begin

section \<open>Shared types, results and byte encodings\<close>

text \<open>
  What the components share: byte strings, Rust's \<open>Result\<close> with the panics of the source
  as a third outcome, the error values the crates build with \<open>anyhow\<close>, the little- and
  big-endian encodings of machine integers, and the slice operations of the standard
  library that the code relies on. The collections \<open>result_simps\<close>, \<open>byte_simps\<close> and
  \<open>slice_simps\<close> carry the component proofs.
\<close>

named_theorems result_simps "unfolding of the result monad"
named_theorems byte_simps "encoding and decoding of machine integers"
named_theorems slice_simps "slices, chunks and iterators of the Rust standard library"

type_synonym byte = "8 word"
type_synonym bytes = "byte list"
type_synonym u16 = "16 word"
type_synonym u32 = "32 word"
type_synonym u64 = "64 word"
type_synonym u128 = "128 word"


subsection \<open>Results\<close>

text \<open>
  \<open>Result\<close> of the source, with \<open>Panic\<close> for \<open>panic!\<close>, \<open>unwrap\<close>, \<open>expect\<close>,
  \<open>assert!\<close>, \<open>unimplemented!\<close> and out-of-range slices.
\<close>

datatype ('a, 'e) result = Ok 'a | Err 'e | Panic

fun is_ok :: "('a, 'e) result \<Rightarrow> bool" where
  "is_ok (Ok _) = True"
| "is_ok (Err _) = False"
| "is_ok Panic = False"

text \<open>The \<open>?\<close> operator, \<open>map_err\<close>, \<open>Option::ok_or\<close>.\<close>

fun bind_result :: "('a, 'e) result \<Rightarrow> ('a \<Rightarrow> ('b, 'e) result) \<Rightarrow> ('b, 'e) result" where
  "bind_result (Ok x) f = f x"
| "bind_result (Err e) f = Err e"
| "bind_result Panic f = Panic"

fun map_err :: "('e \<Rightarrow> 'f) \<Rightarrow> ('a, 'e) result \<Rightarrow> ('a, 'f) result" where
  "map_err f (Ok x) = Ok x"
| "map_err f (Err e) = Err (f e)"
| "map_err f Panic = Panic"

fun map_ok :: "('a \<Rightarrow> 'b) \<Rightarrow> ('a, 'e) result \<Rightarrow> ('b, 'e) result" where
  "map_ok f (Ok x) = Ok (f x)"
| "map_ok f (Err e) = Err e"
| "map_ok f Panic = Panic"

fun ok_or :: "'e \<Rightarrow> 'a option \<Rightarrow> ('a, 'e) result" where
  "ok_or e None = Err e"
| "ok_or e (Some x) = Ok x"

text \<open>\<open>Option::expect\<close> and \<open>Option::unwrap\<close>.\<close>

fun expect :: "'a option \<Rightarrow> ('a, 'e) result" where
  "expect None = Panic"
| "expect (Some x) = Ok x"

lemma bind_result_Ok_iff [result_simps]:
  "bind_result m f = Ok y \<longleftrightarrow> (\<exists>x. m = Ok x \<and> f x = Ok y)"
  by (cases m) auto

lemma bind_result_Panic_iff [result_simps]:
  "bind_result m f = Panic \<longleftrightarrow> m = Panic \<or> (\<exists>x. m = Ok x \<and> f x = Panic)"
  by (cases m) auto

lemma map_err_Ok_iff [simp, result_simps]: "map_err f m = Ok y \<longleftrightarrow> m = Ok y"
  by (cases m) auto

lemma map_err_Panic_iff [simp, result_simps]: "map_err f m = Panic \<longleftrightarrow> m = Panic"
  by (cases m) auto

lemma map_ok_Ok_iff [result_simps]: "map_ok f m = Ok y \<longleftrightarrow> (\<exists>x. m = Ok x \<and> y = f x)"
  by (cases m) auto

lemma map_ok_Panic_iff [simp, result_simps]: "map_ok f m = Panic \<longleftrightarrow> m = Panic"
  by (cases m) auto

lemma ok_or_Ok_iff [simp, result_simps]: "ok_or e m = Ok y \<longleftrightarrow> m = Some y"
  by (cases m) auto

lemma ok_or_not_Panic [simp, result_simps]: "ok_or e m \<noteq> Panic"
  by (cases m) auto

lemma expect_Ok_iff [simp, result_simps]: "expect m = Ok y \<longleftrightarrow> m = Some y"
  by (cases m) auto

lemma expect_Panic_iff [simp, result_simps]: "expect m = Panic \<longleftrightarrow> m = None"
  by (cases m) auto

text \<open>
  The \<open>?\<close> operator inside a method that takes \<open>&mut self\<close>: what the method did to the
  state before the error stays.
\<close>

definition bind_st ::
  "'s \<times> ('a, 'e) result \<Rightarrow> ('s \<Rightarrow> 'a \<Rightarrow> 's \<times> ('b, 'e) result) \<Rightarrow> 's \<times> ('b, 'e) result" where
  "bind_st m f = (case m of (s, Ok x) \<Rightarrow> f s x | (s, Err e) \<Rightarrow> (s, Err e) | (s, Panic) \<Rightarrow> (s, Panic))"

lemma bind_st_simps [simp]:
  "bind_st (s, Ok x) f = f s x"
  "bind_st (s, Err e) f = (s, Err e)"
  "bind_st (s, Panic) f = (s, Panic)"
  by (simp_all add: bind_st_def)

lemma bind_st_Ok_iff [result_simps]:
  "bind_st m f = (s', Ok y) \<longleftrightarrow> (\<exists>s x. m = (s, Ok x) \<and> f s x = (s', Ok y))"
  by (auto simp: bind_st_def split: prod.splits result.splits)

text \<open>The \<open>?\<close> operator where the call may not return, which is \<open>None\<close>.\<close>

definition bind_out ::
  "('a, 'e) result option \<Rightarrow> ('a \<Rightarrow> ('b, 'e) result option) \<Rightarrow> ('b, 'e) result option" where
  "bind_out m f = (case m of None \<Rightarrow> None | Some (Ok x) \<Rightarrow> f x | Some (Err e) \<Rightarrow> Some (Err e) | Some Panic \<Rightarrow> Some Panic)"

lemma bind_out_simps [simp]:
  "bind_out (Some (Ok x)) f = f x" "bind_out None f = None" "bind_out (Some Panic) f = Some Panic"
  "bind_out (Some (Err e)) f = Some (Err e)"
  by (simp_all add: bind_out_def)

lemma bind_out_Ok_iff [result_simps]:
  "bind_out m f = Some (Ok y) \<longleftrightarrow> (\<exists>x. m = Some (Ok x) \<and> f x = Some (Ok y))"
  by (auto simp: bind_out_def split: option.splits result.splits)

text \<open>The ASCII bytes of a string literal.\<close>

definition str_bytes :: "string \<Rightarrow> bytes" where
  "str_bytes s = map of_char s"

lemma length_str_bytes [simp]: "length (str_bytes s) = length s"
  by (simp add: str_bytes_def)

lemma is_ok_iff: "is_ok m \<longleftrightarrow> (\<exists>x. m = Ok x)"
  by (cases m) auto

text \<open>
  \<open>iter().map(f).collect::<Result<BTreeMap<K, V>, E>>()\<close> on keyed entries: the entries are
  evaluated in iteration order and the first failure is the result.
\<close>

fun collect_results :: "('k \<times> ('v, 'e) result) list \<Rightarrow> (('k \<times> 'v) list, 'e) result" where
  "collect_results [] = Ok []"
| "collect_results ((k, r) # rs) =
     bind_result r (\<lambda>v. bind_result (collect_results rs) (\<lambda>vs. Ok ((k, v) # vs)))"

lemma collect_results_keys: "collect_results rs = Ok vs \<Longrightarrow> map fst vs = map fst rs"
  by (induction rs arbitrary: vs) (auto simp: result_simps)

lemma collect_results_Ok:
  "collect_results rs = Ok vs \<longleftrightarrow>
     map fst rs = map fst vs \<and> map snd rs = map (\<lambda>(_, v). Ok v) vs"
proof (induction rs arbitrary: vs)
  case Nil
  then show ?case by auto
next
  case (Cons kr rs)
  obtain k r where kr: "kr = (k, r)" by fastforce
  show ?case
  proof (cases vs)
    case Nil
    then show ?thesis by (auto simp: kr result_simps)
  next
    case (Cons kv vs')
    with Cons.IH [of vs'] show ?thesis
      by (cases kv) (auto simp: kr result_simps)
  qed
qed

lemma collect_results_map_Ok [simp]:
  "collect_results (map (\<lambda>(k, x). (k, Ok (f k x))) kvs) = Ok (map (\<lambda>(k, x). (k, f k x)) kvs)"
  by (induction kvs) auto

lemma collect_results_Panic:
  "collect_results rs = Panic \<Longrightarrow> Panic \<in> snd ` set rs"
  by (induction rs) (force simp: result_simps)+


subsection \<open>Errors\<close>

text \<open>
  \<open>anyhow::Error\<close>: a message, possibly with a formatted argument, under layers of
  \<open>context\<close>. Formatted arguments are kept as values (\<open>MsgWith\<close>), not as their rendering.
\<close>

datatype 'a anyhow = Msg string | MsgWith string 'a | Ctx string "'a anyhow"

definition bail :: "string \<Rightarrow> ('b, 'a anyhow) result" where
  "bail s = Err (Msg s)"

lemma bail_simps [simp, result_simps]: "bail s \<noteq> Ok x" "bail s \<noteq> Panic"
  by (simp_all add: bail_def)

definition context_err :: "string \<Rightarrow> ('b, 'a anyhow) result \<Rightarrow> ('b, 'a anyhow) result" where
  "context_err s = map_err (Ctx s)"

lemma context_err_simps [simp, result_simps]:
  "context_err s (Ok x) = Ok x"
  "context_err s m = Ok y \<longleftrightarrow> m = Ok y"
  "context_err s m = Panic \<longleftrightarrow> m = Panic"
  by (simp_all add: context_err_def)


subsection \<open>Machine integers as bytes\<close>

text \<open>\<open>to_le_bytes\<close>/\<open>from_le_bytes\<close> on the value of an integer of \<open>k\<close> bytes.\<close>

fun le_bytes :: "nat \<Rightarrow> nat \<Rightarrow> bytes" where
  "le_bytes 0 n = []"
| "le_bytes (Suc k) n = of_nat (n mod 256) # le_bytes k (n div 256)"

fun le_value :: "bytes \<Rightarrow> nat" where
  "le_value [] = 0"
| "le_value (b # bs) = unat b + 256 * le_value bs"

definition to_le_bytes :: "'a::len word \<Rightarrow> bytes" where
  "to_le_bytes w = le_bytes (LENGTH('a) div 8) (unat w)"

definition from_le_bytes :: "bytes \<Rightarrow> 'a::len word" where
  "from_le_bytes bs = of_nat (le_value bs)"

definition to_be_bytes :: "'a::len word \<Rightarrow> bytes" where
  "to_be_bytes w = rev (to_le_bytes w)"

definition from_be_bytes :: "bytes \<Rightarrow> 'a::len word" where
  "from_be_bytes bs = from_le_bytes (rev bs)"

lemma length_le_bytes [simp, byte_simps]: "length (le_bytes k n) = k"
  by (induction k n rule: le_bytes.induct) auto

lemma unat_of_nat_byte [simp]: "unat (of_nat (n mod 256) :: byte) = n mod 256"
  by (simp add: unat_of_nat)

lemma unat_byte_less [simp]: "unat (b :: byte) < 256"
  using unsigned_less [of b] by simp

lemma le_value_le_bytes [byte_simps]: "le_value (le_bytes k n) = n mod 256 ^ k"
  by (induction k n rule: le_bytes.induct) (auto simp: mod_mult2_eq)

lemma le_value_bound [byte_simps]: "le_value bs < 256 ^ length bs"
proof (induction bs)
  case (Cons b bs)
  have "unat b < 256" by simp
  moreover have "le_value bs + 1 \<le> 256 ^ length bs" using Cons by simp
  ultimately show ?case by (simp only: le_value.simps length_Cons power_Suc)
qed simp

lemma le_bytes_le_value [byte_simps]: "le_bytes (length bs) (le_value bs) = bs"
proof (induction bs)
  case (Cons b bs)
  have "unat b < 256" by simp
  then have "(unat b + 256 * le_value bs) mod 256 = unat b"
    and "(unat b + 256 * le_value bs) div 256 = le_value bs" by simp_all
  with Cons show ?case by simp
qed simp

lemma le_bytes_eq_iff:
  assumes "m < 256 ^ k" "n < 256 ^ k"
  shows "le_bytes k m = le_bytes k n \<longleftrightarrow> m = n"
proof
  assume "le_bytes k m = le_bytes k n"
  then have "le_value (le_bytes k m) = le_value (le_bytes k n)" by simp
  with assms show "m = n" by (simp add: le_value_le_bytes)
qed simp

lemma from_to_le_bytes:
  assumes "8 dvd LENGTH('a::len)"
  shows "from_le_bytes (to_le_bytes (w :: 'a word)) = w"
proof -
  have "(256::nat) ^ (LENGTH('a) div 8) = 2 ^ (8 * (LENGTH('a) div 8))"
    by (simp add: power_mult)
  also have "\<dots> = 2 ^ LENGTH('a)" using assms by simp
  finally have "(256::nat) ^ (LENGTH('a) div 8) = 2 ^ LENGTH('a)" .
  then show ?thesis
    by (simp add: from_le_bytes_def to_le_bytes_def le_value_le_bytes)
qed

lemma from_to_le_bytes_u16 [simp, byte_simps]: "from_le_bytes (to_le_bytes (w :: u16)) = w"
  and from_to_le_bytes_u32 [simp, byte_simps]: "from_le_bytes (to_le_bytes (v :: u32)) = v"
  by (simp_all add: from_to_le_bytes)

lemma from_to_be_bytes_u32 [simp, byte_simps]: "from_be_bytes (to_be_bytes (w :: u32)) = w"
  by (simp add: from_be_bytes_def to_be_bytes_def)

lemma length_to_le_bytes [simp, byte_simps]:
  "length (to_le_bytes (w :: 'a::len word)) = LENGTH('a) div 8"
  by (simp add: to_le_bytes_def)

lemma length_to_be_bytes [simp, byte_simps]:
  "length (to_be_bytes (w :: 'a::len word)) = LENGTH('a) div 8"
  by (simp add: to_be_bytes_def)


text \<open>Conversions between the widths.\<close>

lemma unat_ucast: "unat (ucast (x :: 'a::len word) :: 'b::len word) = unat x mod 2 ^ LENGTH('b)"
  by (simp add: unsigned_ucast_eq unsigned_take_bit_eq take_bit_eq_mod)

lemma unat_ucast_up: "LENGTH('a) \<le> LENGTH('b) \<Longrightarrow> unat (ucast (w :: 'a::len word) :: 'b::len word) = unat w"
proof -
  assume "LENGTH('a) \<le> LENGTH('b)"
  then have "(2 :: nat) ^ LENGTH('a) \<le> 2 ^ LENGTH('b)" by (intro power_increasing) simp_all
  moreover have "unat w < 2 ^ LENGTH('a)" by (rule unsigned_less)
  ultimately show ?thesis unfolding unat_ucast by (intro mod_less) linarith
qed

lemma unat_drop_bit: "unat (drop_bit n (x :: 'a::len word)) = unat x div 2 ^ n"
  by (subst unsigned_drop_bit_eq) (simp add: drop_bit_eq_div take_bit_nat_eq_self)


subsection \<open>Slices\<close>

text \<open>\<open>slice::chunks(n)\<close>; the source never calls it with \<open>n = 0\<close>, where it panics.\<close>

function chunks :: "nat \<Rightarrow> 'a list \<Rightarrow> 'a list list" where
  "chunks n xs = (if xs = [] \<or> n = 0 then [] else take n xs # chunks n (drop n xs))"
  by pat_completeness auto
termination
  by (relation "measure (\<lambda>(n, xs). length xs)") auto

declare chunks.simps [simp del]

lemma chunks_Nil [simp, slice_simps]: "chunks n [] = []"
  by (simp add: chunks.simps)

lemma chunks_step [slice_simps]:
  "xs \<noteq> [] \<Longrightarrow> 0 < n \<Longrightarrow> chunks n xs = take n xs # chunks n (drop n xs)"
  by (subst chunks.simps) simp

lemma concat_chunks [simp, slice_simps]: "0 < n \<Longrightarrow> concat (chunks n xs) = xs"
  by (induction n xs rule: chunks.induct) (subst chunks.simps, auto)

lemma chunks_length_le: "c \<in> set (chunks n xs) \<Longrightarrow> length c \<le> n"
  by (induction n xs rule: chunks.induct) (subst (asm) chunks.simps, auto split: if_splits)

lemma chunks_nonempty: "c \<in> set (chunks n xs) \<Longrightarrow> c \<noteq> []"
  by (induction n xs rule: chunks.induct) (subst (asm) chunks.simps, auto split: if_splits)

lemma chunks_eq_Nil_iff [simp]: "0 < n \<Longrightarrow> chunks n xs = [] \<longleftrightarrow> xs = []"
  by (subst chunks.simps) simp

lemma chunks_short:
  assumes "xs \<noteq> []" "length xs \<le> n"
  shows "chunks n xs = [xs]"
proof -
  have "n \<noteq> 0" using assms by (cases xs) auto
  with assms show ?thesis by (simp add: chunks.simps [of n xs])
qed

text \<open>A range of a slice, where the indexing of the source panics and \<open>get\<close> returns nothing when it does not fit.\<close>

definition slice_range :: "nat \<Rightarrow> nat \<Rightarrow> 'a list \<Rightarrow> 'a list option" where
  "slice_range a b xs = (if a \<le> b \<and> b \<le> length xs then Some (take (b - a) (drop a xs)) else None)"

text \<open>\<open>Vec::resize\<close>: cuts or pads a vector to a length.\<close>

definition vec_resize :: "nat \<Rightarrow> 'a \<Rightarrow> 'a list \<Rightarrow> 'a list" where
  "vec_resize n x xs = take n xs @ replicate (n - length xs) x"

lemma replicate_numeral_step: "replicate (numeral k) x = x # replicate (pred_numeral k) x"
  by (simp add: numeral_eq_Suc)

lemma length_vec_resize [simp, slice_simps]: "length (vec_resize n x xs) = n"
  by (simp add: vec_resize_def)

lemma vec_resize_longer [slice_simps]:
  "length xs \<le> n \<Longrightarrow> vec_resize n x xs = xs @ replicate (n - length xs) x"
  by (simp add: vec_resize_def)


subsection \<open>Ordered channels\<close>

text \<open>
  The contract of a sender and a receiver that process one stream in order: what the
  sender produces in a state, the receiver in the paired state turns back into the input,
  and the two end in paired states. The Noise crypter, the encryptors of
  \<^verbatim>\<open>oak_session\<close> and the session's own write and read keep it.
\<close>

fun run_all :: "('s \<Rightarrow> 'a \<Rightarrow> 's \<times> ('b, 'e) result) \<Rightarrow> 's \<Rightarrow> 'a list \<Rightarrow> 's \<times> ('b list, 'e) result" where
  "run_all f s [] = (s, Ok [])"
| "run_all f s (x # xs) =
     (case f s x of
        (s', Ok y) \<Rightarrow>
          (case run_all f s' xs of
             (s'', Ok ys) \<Rightarrow> (s'', Ok (y # ys))
           | (s'', Err e) \<Rightarrow> (s'', Err e)
           | (s'', Panic) \<Rightarrow> (s'', Panic))
      | (s', Err e) \<Rightarrow> (s', Err e)
      | (s', Panic) \<Rightarrow> (s', Panic))"

lemma run_all_Cons_Ok:
  "run_all f s (x # xs) = (s'', Ok zs) \<longleftrightarrow>
     (\<exists>s' y ys. f s x = (s', Ok y) \<and> run_all f s' xs = (s'', Ok ys) \<and> zs = y # ys)"
  by (auto split: prod.splits result.splits)

lemma run_all_snoc:
  "run_all f s xs = (s', Ok ys) \<Longrightarrow> f s' x = (s'', Ok y) \<Longrightarrow> run_all f s (xs @ [x]) = (s'', Ok (ys @ [y]))"
  by (induction f s xs arbitrary: ys rule: run_all.induct) (auto split: prod.splits result.splits)

lemma run_all_length: "run_all f s xs = (s', Ok ys) \<Longrightarrow> length ys = length xs"
  by (induction xs arbitrary: s ys) (auto simp: run_all_Cons_Ok simp del: run_all.simps(2))

locale ordered_channel =
  fixes send :: "'s \<Rightarrow> 'p \<Rightarrow> 's \<times> ('c, 'e) result"
    and recv :: "'r \<Rightarrow> 'c \<Rightarrow> 'r \<times> ('q, 'f) result"
    and paired :: "'s \<Rightarrow> 'r \<Rightarrow> bool"
    and delivered :: "'p \<Rightarrow> 'q"
  assumes deliver: "paired s r \<Longrightarrow> send s p = (s', Ok c) \<Longrightarrow>
    \<exists>r'. recv r c = (r', Ok (delivered p)) \<and> paired s' r'"
begin

lemma deliver_all:
  assumes "paired s r" "run_all send s ps = (s', Ok cs)"
  shows "\<exists>r'. run_all recv r cs = (r', Ok (map delivered ps)) \<and> paired s' r'"
  using assms
proof (induction ps arbitrary: s r cs)
  case Nil
  then show ?case by simp
next
  case (Cons p ps)
  from Cons.prems(2) obtain s1 c cs' where
    step: "send s p = (s1, Ok c)" and rest: "run_all send s1 ps = (s', Ok cs')"
    and cs: "cs = c # cs'"
    by (auto simp: run_all_Cons_Ok simp del: run_all.simps(2))
  from deliver [OF Cons.prems(1) step] obtain r1 where
    r1: "recv r c = (r1, Ok (delivered p))" and p1: "paired s1 r1" by blast
  from Cons.IH [OF p1 rest] obtain r2 where
    "run_all recv r1 cs' = (r2, Ok (map delivered ps))" "paired s' r2" by blast
  with r1 cs show ?case by simp
qed

end

end
