(* ===== verification/Ordered_Map.thy ===== *)
theory Ordered_Map
  imports Oak_Prelude
begin

section \<open>Ordered maps\<close>

text \<open>
  \<^verbatim>\<open>BTreeMap<String, V>\<close> of the Rust standard library: a list of entries with strictly
  increasing keys (\<open>string\<close> with the lexicographic order of bytes). The locale
  \<open>ordered_map\<close> is the interface the session components rely on; the entries of such a map
  are determined by its lookups. \<open>merge_join\<close> is the documented result of itertools'
  \<^verbatim>\<open>merge_join_by\<close> on two sorted inputs, against which the session code is specified.
\<close>

subsection \<open>The representation\<close>

typedef 'v btree_map = "{xs :: (string \<times> 'v) list. sorted_wrt (<) (map fst xs)}"
  morphisms entries BTreeMap
  by (rule exI [of _ "[]"]) simp

setup_lifting type_definition_btree_map

fun alist_insert :: "string \<Rightarrow> 'v \<Rightarrow> (string \<times> 'v) list \<Rightarrow> (string \<times> 'v) list" where
  "alist_insert k v [] = [(k, v)]"
| "alist_insert k v ((k', v') # xs) =
     (if k < k' then (k, v) # (k', v') # xs
      else if k = k' then (k, v) # xs
      else (k', v') # alist_insert k v xs)"

lemma set_alist_insert: "fst ` set (alist_insert k v xs) = insert k (fst ` set xs)"
  by (induction k v xs rule: alist_insert.induct) auto

lemma sorted_alist_insert:
  "sorted_wrt (<) (map fst xs) \<Longrightarrow> sorted_wrt (<) (map fst (alist_insert k v xs))"
proof (induction k v xs rule: alist_insert.induct)
  case (2 k v k' v' xs)
  then show ?case
    using set_alist_insert [of k v xs] by (auto simp: not_less)
qed simp

lemma map_of_alist_insert:
  "sorted_wrt (<) (map fst xs) \<Longrightarrow> map_of (alist_insert k v xs) = (map_of xs)(k \<mapsto> v)"
  by (induction k v xs rule: alist_insert.induct) (auto simp: fun_eq_iff)

lift_definition btm_empty :: "'v btree_map" is "[]" by simp

lift_definition btm_insert :: "string \<Rightarrow> 'v \<Rightarrow> 'v btree_map \<Rightarrow> 'v btree_map" is alist_insert
  by (rule sorted_alist_insert)

definition btm_get :: "'v btree_map \<Rightarrow> string \<Rightarrow> 'v option" where
  "btm_get m = map_of (entries m)"

definition btm_is_empty :: "'v btree_map \<Rightarrow> bool" where
  "btm_is_empty m \<longleftrightarrow> entries m = []"

text \<open>Equality of maps is that of their entries.\<close>

instantiation btree_map :: (equal) equal
begin

definition equal_btree_map :: "'a btree_map \<Rightarrow> 'a btree_map \<Rightarrow> bool" where
  "equal_btree_map m m' \<longleftrightarrow> entries m = entries m'"

instance
  by standard (simp add: equal_btree_map_def entries_inject)

end

text \<open>\<open>collect()\<close> into a map: of two entries with one key the later wins.\<close>

definition btm_collect :: "(string \<times> 'v) list \<Rightarrow> 'v btree_map" where
  "btm_collect xs = fold (\<lambda>(k, v) m. btm_insert k v m) xs btm_empty"

text \<open>\<open>iter().map(|(k, v)| (k.clone(), f(k, v))).collect()\<close>.\<close>

definition btm_map :: "(string \<Rightarrow> 'v \<Rightarrow> 'w) \<Rightarrow> 'v btree_map \<Rightarrow> 'w btree_map" where
  "btm_map f m = btm_collect (map (\<lambda>(k, v). (k, f k v)) (entries m))"

text \<open>\<open>iter().filter_map(|(k, v)| f(k, v).map(|w| (k.clone(), w))).collect()\<close>.\<close>

definition btm_filter_map :: "(string \<Rightarrow> 'v \<Rightarrow> 'w option) \<Rightarrow> 'v btree_map \<Rightarrow> 'w btree_map" where
  "btm_filter_map f m =
     btm_collect (List.map_filter (\<lambda>(k, v). map_option (Pair k) (f k v)) (entries m))"

text \<open>\<open>iter().map(|(k, v)| Ok((k.clone(), f(k, v)?))).collect::<Result<BTreeMap<_, _>, _>>()\<close>.\<close>

definition btm_try_map :: "(string \<Rightarrow> 'v \<Rightarrow> ('w, 'e) result) \<Rightarrow> 'v btree_map \<Rightarrow> ('w btree_map, 'e) result" where
  "btm_try_map f m = map_ok btm_collect (collect_results (map (\<lambda>(k, v). (k, f k v)) (entries m)))"

text \<open>\<open>iter().filter_map(|(k, v)| f(k, v).map(|r| Ok((k.clone(), r?)))).collect::<Result<BTreeMap<_, _>, _>>()\<close>.\<close>

definition btm_try_filter_map ::
  "(string \<Rightarrow> 'v \<Rightarrow> ('w, 'e) result option) \<Rightarrow> 'v btree_map \<Rightarrow> ('w btree_map, 'e) result" where
  "btm_try_filter_map f m = map_ok btm_collect (collect_results
     (List.map_filter (\<lambda>(k, v). map_option (Pair k) (f k v)) (entries m)))"


subsection \<open>Merging\<close>

datatype ('a, 'b) either_or_both = Left 'a | Right 'b | Both 'a 'b

fun merge_join ::
  "(string \<times> 'a) list \<Rightarrow> (string \<times> 'b) list \<Rightarrow> (string \<times> 'a, string \<times> 'b) either_or_both list" where
  "merge_join [] ys = map Right ys"
| "merge_join (x # xs) [] = map Left (x # xs)"
| "merge_join (x # xs) (y # ys) =
     (if fst x < fst y then Left x # merge_join xs (y # ys)
      else if fst x = fst y then Both x y # merge_join xs ys
      else Right y # merge_join (x # xs) ys)"

fun join_key :: "(string \<times> 'a, string \<times> 'b) either_or_both \<Rightarrow> string" where
  "join_key (Left x) = fst x"
| "join_key (Right y) = fst y"
| "join_key (Both x y) = fst x"


subsection \<open>The interface\<close>

lemma sorted_map_of_inject:
  fixes xs ys :: "(string \<times> 'v) list"
  assumes "sorted_wrt (<) (map fst xs)" "sorted_wrt (<) (map fst ys)" "map_of xs = map_of ys"
  shows "xs = ys"
proof -
  have "fst ` set xs = fst ` set ys" using assms(3) by (metis dom_map_of_conv_image_fst)
  with assms(1,2) have keys: "map fst xs = map fst ys" by (intro strict_sorted_equal) auto
  have "zs = map (\<lambda>k. (k, the (map_of zs k))) (map fst zs)" if "distinct (map fst zs)"
    for zs :: "(string \<times> 'v) list"
  proof -
    have "map_of zs (fst x) = Some (snd x)" if "x \<in> set zs" for x
      using that \<open>distinct (map fst zs)\<close> by (simp add: map_of_is_SomeI)
    then show ?thesis by (simp add: comp_def map_idI)
  qed
  then show ?thesis using assms keys unfolding strict_sorted_iff by metis
qed

locale ordered_map =
  fixes empty :: 'm
    and insert :: "string \<Rightarrow> 'v \<Rightarrow> 'm \<Rightarrow> 'm"
    and get :: "'m \<Rightarrow> string \<Rightarrow> 'v option"
    and iter :: "'m \<Rightarrow> (string \<times> 'v) list"
  assumes get_empty: "get empty k = None"
    and get_insert: "get (insert k v m) k' = (if k' = k then Some v else get m k')"
    and get_iter: "get m k = map_of (iter m) k"
    and iter_sorted: "sorted_wrt (<) (map fst (iter m))"
    and iter_inject: "iter m = iter m' \<Longrightarrow> m = m'"
begin

lemma iter_distinct: "distinct (map fst (iter m))"
  using iter_sorted [of m] by (simp add: strict_sorted_iff)

lemma eq_iff_get: "m = m' \<longleftrightarrow> (\<forall>k. get m k = get m' k)"
proof
  assume "\<forall>k. get m k = get m' k"
  then have "map_of (iter m) = map_of (iter m')" by (simp add: get_iter fun_eq_iff)
  then show "m = m'" by (intro iter_inject sorted_map_of_inject iter_sorted)
qed simp

lemma insert_idem: "get m k = Some v \<Longrightarrow> insert k v m = m"
  by (simp add: eq_iff_get get_insert)

lemma insert_commute: "k \<noteq> k' \<Longrightarrow> insert k v (insert k' v' m) = insert k' v' (insert k v m)"
  by (simp add: eq_iff_get get_insert)

lemma get_iter_Some_iff: "get m k = Some v \<longleftrightarrow> (k, v) \<in> set (iter m)"
  using iter_distinct [of m] by (simp add: get_iter)

lemma get_collect:
  "get (fold (\<lambda>(k, v) m. insert k v m) xs m) k =
     (case map_of (rev xs) k of Some v \<Rightarrow> Some v | None \<Rightarrow> get m k)"
  by (induction xs arbitrary: m) (auto simp: get_insert map_add_def split: option.splits)

lemma iter_collect:
  assumes "sorted_wrt (<) (map fst xs)"
  shows "iter (fold (\<lambda>(k, v) m. insert k v m) xs empty) = xs"
proof (rule sorted_map_of_inject [OF iter_sorted assms])
  have "map_of (rev xs) = map_of xs"
    using assms by (intro map_of_inject_set [THEN iffD2]) (auto simp: strict_sorted_iff rev_map [symmetric])
  then show "map_of (iter (fold (\<lambda>(k, v) m. insert k v m) xs empty)) = map_of xs"
    by (auto simp: fun_eq_iff get_iter [symmetric] get_collect get_empty split: option.splits)
qed

end

interpretation btm: ordered_map btm_empty btm_insert btm_get entries
proof
  fix m m' :: "'v btree_map" and k k' :: string and v :: 'v
  show "btm_get btm_empty k = (None :: 'v option)" by (simp add: btm_get_def btm_empty.rep_eq)
  show "sorted_wrt (<) (map fst (entries m))" using entries [of m] by simp
  then show "btm_get (btm_insert k v m) k' = (if k' = k then Some v else btm_get m k')"
    by (simp add: btm_get_def btm_insert.rep_eq map_of_alist_insert)
  show "entries m = entries m' \<Longrightarrow> m = m'" by (simp add: entries_inject)
qed (simp add: btm_get_def)


subsection \<open>Building maps from maps\<close>

lemma entries_collect [simp]: "sorted_wrt (<) (map fst xs) \<Longrightarrow> entries (btm_collect xs) = xs"
  unfolding btm_collect_def by (rule btm.iter_collect)

lemma entries_map [simp]: "entries (btm_map f m) = map (\<lambda>(k, v). (k, f k v)) (entries m)"
  using btm.iter_sorted [of m] by (simp add: btm_map_def case_prod_unfold comp_def)

lemma map_of_map_entries: "map_of (map (\<lambda>(k, v). (k, f k v)) xs) k = map_option (f k) (map_of xs k)"
  by (induction xs) auto

lemma get_map [simp]: "btm_get (btm_map f m) k = map_option (f k) (btm_get m k)"
  by (simp add: btm_get_def map_of_map_entries)

lemma set_map_filter_keys:
  "fst ` set (List.map_filter (\<lambda>(k, v). map_option (Pair k) (f k v)) xs) \<subseteq> fst ` set xs"
  by (auto simp: List.map_filter_def image_iff split: option.splits) force

lemma sorted_map_filter:
  "sorted_wrt (<) (map fst xs) \<Longrightarrow>
     sorted_wrt (<) (map fst (List.map_filter (\<lambda>(k, v). map_option (Pair k) (f k v)) xs))"
proof (induction xs)
  case (Cons x xs)
  with set_map_filter_keys [of f xs] show ?case
    by (cases x) (force simp: map_filter_simps split: option.splits)
qed (simp add: map_filter_simps)

lemma entries_filter_map [simp]:
  "entries (btm_filter_map f m) = List.map_filter (\<lambda>(k, v). map_option (Pair k) (f k v)) (entries m)"
  unfolding btm_filter_map_def by (intro entries_collect sorted_map_filter btm.iter_sorted)

lemma get_filter_map [simp]: "btm_get (btm_filter_map f m) k = Option.bind (btm_get m k) (f k)"
proof -
  have "map_of (List.map_filter (\<lambda>(k, v). map_option (Pair k) (f k v)) xs) k = Option.bind (map_of xs k) (f k)"
    if "distinct (map fst xs)" for xs
    using that
  proof (induction xs)
    case (Cons x xs)
    obtain a b where x: "x = (a, b)" by fastforce
    with Cons have "a \<noteq> k \<or> map_of xs k = None" by (auto simp: map_of_eq_None_iff)
    with Cons x show ?case by (auto simp: map_filter_simps split: option.splits)
  qed (simp add: map_filter_simps)
  with btm.iter_distinct [of m] show ?thesis by (simp add: btm_get_def)
qed

lemma btm_try_map_Ok:
  assumes "btm_try_map f m = Ok m'"
  shows "map (\<lambda>(k, v). (k, f k v)) (entries m) = map (\<lambda>(k, w). (k, Ok w)) (entries m')"
proof -
  from assms obtain ws where ws: "collect_results (map (\<lambda>(k, v). (k, f k v)) (entries m)) = Ok ws" "m' = btm_collect ws"
    by (auto simp: btm_try_map_def result_simps)
  from collect_results_keys [OF ws(1)] have "map fst ws = map fst (entries m)" by (simp add: case_prod_unfold comp_def)
  with btm.iter_sorted [of m] ws(2) have "entries m' = ws" by (metis entries_collect)
  with ws(1) show ?thesis
    by (intro pair_list_eqI) (auto simp: collect_results_Ok case_prod_unfold comp_def)
qed

lemma btm_try_map_get:
  assumes "btm_try_map f m = Ok m'"
  shows "map_option (f k) (btm_get m k) = map_option Ok (btm_get m' k)"
  using arg_cong [OF btm_try_map_Ok [OF assms], of "\<lambda>xs. map_of xs k"]
  by (simp add: btm_get_def map_of_map_entries)

lemma btm_try_map_keys: "btm_try_map f m = Ok m' \<Longrightarrow> map fst (entries m') = map fst (entries m)"
  by (drule btm_try_map_Ok, drule arg_cong [of _ _ "map fst"]) (simp add: case_prod_unfold comp_def)

lemma btm_try_map_total:
  assumes "\<And>k v. btm_get m k = Some v \<Longrightarrow> f k v = Ok (g k v)"
  shows "btm_try_map f m = Ok (btm_map g m)"
proof -
  have "map (\<lambda>(k, v). (k, f k v)) (entries m) = map (\<lambda>(k, v). (k, Ok (g k v))) (entries m)"
    using assms by (auto simp: btm.get_iter_Some_iff)
  then show ?thesis by (simp only: btm_try_map_def btm_map_def collect_results_map_Ok map_ok.simps)
qed

lemma btm_try_map_exists:
  assumes "\<And>k v. btm_get m k = Some v \<Longrightarrow> \<exists>w. f k v = Ok w"
  shows "\<exists>m'. btm_try_map f m = Ok m'"
proof -
  define g where "g = (\<lambda>k v. SOME w. f k v = Ok w)"
  have "f k v = Ok (g k v)" if "btm_get m k = Some v" for k v
    unfolding g_def using assms [OF that] by (rule someI_ex)
  then have "btm_try_map f m = Ok (btm_map g m)" by (rule btm_try_map_total)
  then show ?thesis ..
qed

lemma btm_try_map_Panic:
  assumes "btm_try_map f m = Panic"
  shows "\<exists>k v. btm_get m k = Some v \<and> f k v = Panic"
  using assms by (force simp: btm_try_map_def btm.get_iter_Some_iff dest!: collect_results_Panic)

lemma btm_try_filter_map_eq: "btm_try_filter_map f m = btm_try_map (\<lambda>_ r. r) (btm_filter_map f m)"
  by (simp add: btm_try_filter_map_def btm_try_map_def case_prod_unfold)

lemma btm_try_filter_map_get:
  assumes "btm_try_filter_map f m = Ok m'"
  shows "map_option Ok (btm_get m' k) = Option.bind (btm_get m k) (f k)"
  using btm_try_map_get [OF assms [unfolded btm_try_filter_map_eq], of k] by (simp add: option.map_ident)

lemma btm_try_filter_map_exists:
  assumes "\<And>k v r. btm_get m k = Some v \<Longrightarrow> f k v = Some r \<Longrightarrow> \<exists>w. r = Ok w"
  shows "\<exists>m'. btm_try_filter_map f m = Ok m'"
  unfolding btm_try_filter_map_eq using assms
  by (intro btm_try_map_exists) (auto simp: bind_eq_Some_conv)

lemma btm_try_filter_map_Panic:
  assumes "btm_try_filter_map f m = Panic"
  shows "\<exists>k v. btm_get m k = Some v \<and> f k v = Some Panic"
  using btm_try_map_Panic [OF assms [unfolded btm_try_filter_map_eq]] by (auto simp: bind_eq_Some_conv)

lemma btm_is_empty_iff: "btm_is_empty m \<longleftrightarrow> (\<forall>k. btm_get m k = None)"
  by (cases "entries m") (auto simp: btm_is_empty_def btm_get_def)

lemma btm_is_empty_eq: "btm_is_empty m \<longleftrightarrow> m = btm_empty"
  by (simp add: btm_is_empty_def btm_empty.rep_eq entries_inject [symmetric])

lemma entries_single [simp]: "entries (btm_insert k v btm_empty) = [(k, v)]"
  by (simp add: btm_insert.rep_eq btm_empty.rep_eq)

lemma collect_single [simp]: "btm_collect [(k, v)] = btm_insert k v btm_empty"
  by (simp add: btm_collect_def)

lemma try_map_single [simp]: "btm_try_map f (btm_insert k v btm_empty) = map_ok (\<lambda>w. btm_insert k w btm_empty) (f k v)"
  by (cases "f k v") (simp_all add: btm_try_map_def)

lemma map_single [simp]: "btm_map f (btm_insert k v btm_empty) = btm_insert k (f k v) btm_empty"
  by (simp add: btm_map_def)


subsection \<open>The merge of two maps\<close>

lemma merge_join_keys: "join_key ` set (merge_join xs ys) = fst ` set xs \<union> fst ` set ys"
  by (induction xs ys rule: merge_join.induct) (auto simp: image_image)

lemma merge_join_sorted:
  assumes "sorted_wrt (<) (map fst xs)" "sorted_wrt (<) (map fst ys)"
  shows "sorted_wrt (<) (map join_key (merge_join xs ys))"
  using assms
proof (induction xs ys rule: merge_join.induct)
  case (1 ys)
  then show ?case by (simp add: comp_def)
next
  case (2 x xs)
  then show ?case by (simp add: comp_def)
next
  case (3 x xs y ys)
  have keys: "j \<in> set (merge_join as bs) \<Longrightarrow> join_key j \<in> fst ` set as \<union> fst ` set bs" for j as bs
    using merge_join_keys [of as bs] by blast
  show ?case
    using 3 by (auto dest!: keys simp: not_less) (fastforce intro: less_trans)+
qed

text \<open>One entry per key of either map, with what each map has at that key.\<close>

lemma merge_join_get:
  assumes "sorted_wrt (<) (map fst xs)" "sorted_wrt (<) (map fst ys)"
  shows "map_of (map (\<lambda>j. (join_key j, g j)) (merge_join xs ys)) k =
    (case (map_of xs k, map_of ys k) of
       (None, None) \<Rightarrow> None
     | (Some a, None) \<Rightarrow> Some (g (Left (k, a)))
     | (None, Some b) \<Rightarrow> Some (g (Right (k, b)))
     | (Some a, Some b) \<Rightarrow> Some (g (Both (k, a) (k, b))))"
  using assms
proof (induction xs ys rule: merge_join.induct)
  case (1 ys)
  show ?case by (induction ys) auto
next
  case (2 x xs)
  have "map_of (map (\<lambda>j. (join_key j, g j)) (map Left zs)) k = map_option (\<lambda>a. g (Left (k, a))) (map_of zs k)"
    for zs :: "(string \<times> 'a) list" by (induction zs) auto
  from this [of "x # xs"] show ?case by (simp split: option.splits)
next
  case (3 x xs y ys)
  have "map_of xs k' = None" if "k' \<le> fst x" for k'
    using that 3(4) by (auto simp: map_of_eq_None_iff)
  moreover have "map_of ys k' = None" if "k' \<le> fst y" for k'
    using that 3(5) by (auto simp: map_of_eq_None_iff)
  ultimately show ?case
    using 3
    by (cases x; cases y) (auto split: option.splits)
qed

end
