(* ===== verification/Noise_Crypter.thy ===== *)
theory Noise_Crypter
  imports Oak_Prelude
begin

unbundle bit_operations_syntax

section \<open>Traffic encryption of the Noise channel\<close>

text \<open>
  Models \<^verbatim>\<open>oak_crypto/src/noise_handshake\<close>: the nonce counter, the padded AES-GCM
  encryption, the ordered crypter (consecutive nonces) and the unordered crypter (a replay
  window). The primitives of the \<^verbatim>\<open>aes_gcm\<close>, \<^verbatim>\<open>sha2\<close>, \<^verbatim>\<open>hkdf\<close> and \<^verbatim>\<open>p256\<close> crates are
  the fields of a record that every definition takes as its first argument; what the code
  relies on is stated as predicates on that record. A method that takes \<open>&mut self\<close>
  returns the new state with its result, on its error paths too.
\<close>

type_synonym usize = "64 word"

datatype noise_error =
    DataTooLarge nat
  | DecryptFailed
  | DecryptionPadding
  | EcdhFailed
  | EmptyPlaintext
  | InvalidHandshake
  | InvalidNonce
  | InvalidPrivateKey
  | InvalidPublicKey
  | MissingPeerPublicKey
  | ReplayedNonce
  | Unknown string

record crypto =
  sha256_digest :: "bytes \<Rightarrow> bytes"
    \<comment> \<open>\<open>Sha256::digest\<close>; \<open>update\<close> calls feed the concatenation\<close>
  hkdf_expand :: "bytes \<Rightarrow> bytes \<Rightarrow> bytes \<Rightarrow> nat \<Rightarrow> bytes option"
    \<comment> \<open>salt, key material, info, output length\<close>
  gcm_encrypt :: "bytes \<Rightarrow> bytes \<Rightarrow> bytes \<Rightarrow> bytes \<Rightarrow> bytes option"
    \<comment> \<open>key, nonce, associated data, plaintext\<close>
  gcm_decrypt :: "bytes \<Rightarrow> bytes \<Rightarrow> bytes \<Rightarrow> bytes \<Rightarrow> bytes option"
    \<comment> \<open>key, nonce, associated data, ciphertext\<close>
  scalar_in_range :: "bytes \<Rightarrow> bool"
    \<comment> \<open>\<open>Scalar::from_repr\<close> succeeds\<close>
  mul_by_generator :: "bytes \<Rightarrow> bytes"
    \<comment> \<open>the uncompressed encoding of the scalar times the generator\<close>
  mul_point_x :: "bytes \<Rightarrow> bytes \<Rightarrow> bytes option"
    \<comment> \<open>scalar, encoded point: the x coordinate of the product, when the point decodes\<close>

text \<open>AES-GCM opens what it sealed under the same key, nonce and associated data.\<close>

definition aead_correct :: "'x crypto_scheme \<Rightarrow> bool" where
  "aead_correct C \<longleftrightarrow>
     (\<forall>k n a p c. gcm_encrypt C k n a p = Some c \<longrightarrow> gcm_decrypt C k n a c = Some p)"

text \<open>AES-GCM seals every message below its length limit of about 64 GiB.\<close>

definition aead_total :: "'x crypto_scheme \<Rightarrow> bool" where
  "aead_total C \<longleftrightarrow> (\<forall>k n a p. length p \<le> 2 ^ 36 - 32 \<longrightarrow> gcm_encrypt C k n a p \<noteq> None)"


subsection \<open>The crypto wrapper\<close>

definition NONCE_LEN :: nat where "NONCE_LEN = 12"
definition SYMMETRIC_KEY_LEN :: nat where "SYMMETRIC_KEY_LEN = 32"
definition SHA256_OUTPUT_LEN :: nat where "SHA256_OUTPUT_LEN = 32"
definition P256_X962_LEN :: nat where "P256_X962_LEN = 65"
definition P256_SCALAR_LEN :: nat where "P256_SCALAR_LEN = 32"

definition aes_256_gcm_seal_in_place ::
  "'x crypto_scheme \<Rightarrow> bytes \<Rightarrow> bytes \<Rightarrow> bytes \<Rightarrow> bytes \<Rightarrow> (bytes, noise_error) result" where
  "aes_256_gcm_seal_in_place C key iv aad plaintext =
     expect (gcm_encrypt C key iv aad plaintext)"

definition aes_256_gcm_open_in_place ::
  "'x crypto_scheme \<Rightarrow> bytes \<Rightarrow> bytes \<Rightarrow> bytes \<Rightarrow> bytes \<Rightarrow> (bytes, unit) result" where
  "aes_256_gcm_open_in_place C key iv aad ciphertext =
     ok_or () (gcm_decrypt C key iv aad ciphertext)"


subsection \<open>Nonces\<close>

definition MAX_SEQUENCE :: u32 where "MAX_SEQUENCE = push_bit 24 1"

datatype nonce = Nonce (nonce: u32)

definition next_nonce :: "nonce \<Rightarrow> nonce \<times> (bytes, noise_error) result" where
  "next_nonce n =
     (if nonce n > MAX_SEQUENCE then (n, Err DecryptFailed)
      else (Nonce (nonce n + 1),
            Ok (replicate (NONCE_LEN - 4) 0 @ to_be_bytes (nonce n))))"

definition get_nonce_value :: "bytes \<Rightarrow> (u32, noise_error) result" where
  "get_nonce_value bs =
     (if take (NONCE_LEN - 4) bs \<noteq> replicate (NONCE_LEN - 4) 0 then Err InvalidNonce
      else Ok (from_be_bytes (drop (NONCE_LEN - 4) bs)))"


subsection \<open>Padded encryption\<close>

definition PADDING_GRANULARITY :: usize where "PADDING_GRANULARITY = 32"

definition padded_length :: "nat \<Rightarrow> nat" where
  "padded_length n =
     unat ((of_nat (n + 1) + PADDING_GRANULARITY - 1) AND NOT (PADDING_GRANULARITY - 1))"

definition pad_plaintext :: "bytes \<Rightarrow> bytes" where
  "pad_plaintext plaintext =
     (let padded_size = padded_length (length plaintext);
          num_zeros = padded_size - length plaintext - 1
      in (vec_resize padded_size 0 plaintext)[padded_size - 1 := of_nat num_zeros])"

definition aes_gcm_256_encrypt ::
  "'x crypto_scheme \<Rightarrow> bytes \<Rightarrow> bytes \<Rightarrow> bytes \<Rightarrow> (bytes, noise_error) result" where
  "aes_gcm_256_encrypt C key iv plaintext =
     (if length plaintext > 2 ^ 28 then Err (DataTooLarge (length plaintext))
      else aes_256_gcm_seal_in_place C key iv [] (pad_plaintext plaintext))"

definition aes_gcm_256_decrypt ::
  "'x crypto_scheme \<Rightarrow> bytes \<Rightarrow> bytes \<Rightarrow> bytes \<Rightarrow> (bytes, noise_error) result" where
  "aes_gcm_256_decrypt C key iv ciphertext =
     bind_result (map_err (\<lambda>_. DecryptFailed) (aes_256_gcm_open_in_place C key iv [] ciphertext))
       (\<lambda>plaintext.
          if plaintext = [] \<or> unat (last plaintext) \<ge> length plaintext
          then Err DecryptionPadding
          else let unpadded_length = length plaintext - unat (last plaintext)
               in Ok (take (unpadded_length - 1) plaintext))"


subsection \<open>The ordered crypter\<close>

record ordered_crypter =
  read_key :: bytes
  write_key :: bytes
  read_nonce :: nonce
  write_nonce :: nonce

definition ordered_new :: "bytes \<Rightarrow> bytes \<Rightarrow> ordered_crypter" where
  "ordered_new rk wk =
     \<lparr>read_key = rk, write_key = wk, read_nonce = Nonce 0, write_nonce = Nonce 0\<rparr>"

definition ordered_encrypt ::
  "'x crypto_scheme \<Rightarrow> ordered_crypter \<Rightarrow> bytes \<Rightarrow> ordered_crypter \<times> (bytes, noise_error) result" where
  "ordered_encrypt C c plaintext =
     (case next_nonce (write_nonce c) of
        (n', r) \<Rightarrow> (c\<lparr>write_nonce := n'\<rparr>,
          bind_result r (\<lambda>iv. aes_gcm_256_encrypt C (write_key c) iv plaintext)))"

definition ordered_decrypt ::
  "'x crypto_scheme \<Rightarrow> ordered_crypter \<Rightarrow> bytes \<Rightarrow> ordered_crypter \<times> (bytes, noise_error) result" where
  "ordered_decrypt C c ciphertext =
     (case next_nonce (read_nonce c) of
        (n', r) \<Rightarrow> (c\<lparr>read_nonce := n'\<rparr>,
          bind_result r (\<lambda>iv. aes_gcm_256_decrypt C (read_key c) iv ciphertext)))"


subsection \<open>The unordered crypter\<close>

record unordered_crypter =
  u_read_key :: bytes
  u_write_key :: bytes
  u_write_nonce :: nonce
  furthest_read_nonce :: u32
  window_size :: u32
  buffered_read_nonces :: "u32 set"

definition unordered_new :: "bytes \<Rightarrow> bytes \<Rightarrow> u32 \<Rightarrow> unordered_crypter" where
  "unordered_new rk wk w =
     \<lparr>u_read_key = rk, u_write_key = wk, u_write_nonce = Nonce 1,
      furthest_read_nonce = 0, window_size = w, buffered_read_nonces = {}\<rparr>"

definition get_lowest_acceptable_read_nonce :: "unordered_crypter \<Rightarrow> u32" where
  "get_lowest_acceptable_read_nonce c =
     (if furthest_read_nonce c > window_size c
      then furthest_read_nonce c - window_size c + 1 else 1)"

definition unordered_encrypt ::
  "'x crypto_scheme \<Rightarrow> unordered_crypter \<Rightarrow> bytes \<Rightarrow>
     unordered_crypter \<times> (bytes \<times> bytes, noise_error) result" where
  "unordered_encrypt C c plaintext =
     (case next_nonce (u_write_nonce c) of
        (n', r) \<Rightarrow> (c\<lparr>u_write_nonce := n'\<rparr>,
          bind_result r (\<lambda>iv.
            map_ok (\<lambda>ct. (ct, iv)) (aes_gcm_256_encrypt C (u_write_key c) iv plaintext))))"

definition unordered_decrypt ::
  "'x crypto_scheme \<Rightarrow> unordered_crypter \<Rightarrow> bytes \<Rightarrow> bytes \<Rightarrow>
     unordered_crypter \<times> (bytes, noise_error) result" where
  "unordered_decrypt C c iv ciphertext =
     (case get_nonce_value iv of
        Err e \<Rightarrow> (c, Err e)
      | Panic \<Rightarrow> (c, Panic)
      | Ok nonce_value \<Rightarrow>
          let lowest = get_lowest_acceptable_read_nonce c in
          if nonce_value < lowest then (c, Err InvalidNonce)
          else if nonce_value \<ge> lowest \<and> nonce_value \<le> furthest_read_nonce c then
            (if nonce_value \<in> buffered_read_nonces c then (c, Err ReplayedNonce)
             else (c\<lparr>buffered_read_nonces := insert nonce_value (buffered_read_nonces c)\<rparr>,
                   aes_gcm_256_decrypt C (u_read_key c) iv ciphertext))
          else
            (let c' = c\<lparr>furthest_read_nonce := nonce_value\<rparr>;
                 new_lowest = get_lowest_acceptable_read_nonce c'
             in (c'\<lparr>buffered_read_nonces :=
                       insert nonce_value (Set.filter (\<lambda>n. n \<ge> new_lowest) (buffered_read_nonces c'))\<rparr>,
                 aes_gcm_256_decrypt C (u_read_key c) iv ciphertext)))"

definition unordered_from_ordered :: "ordered_crypter \<Rightarrow> u32 \<Rightarrow> unordered_crypter" where
  "unordered_from_ordered c w = unordered_new (read_key c) (write_key c) w"


subsection \<open>Specification vocabulary\<close>

text \<open>A sender and a receiver of one direction of the channel.\<close>

definition ordered_paired :: "'x crypto_scheme \<Rightarrow> ordered_crypter \<Rightarrow> ordered_crypter \<Rightarrow> bool" where
  "ordered_paired C s r \<longleftrightarrow>
     aead_correct C \<and> write_key s = read_key r \<and> write_nonce s = read_nonce r"

text \<open>A nonce value the crypter will not accept again.\<close>

definition nonce_spent :: "unordered_crypter \<Rightarrow> u32 \<Rightarrow> bool" where
  "nonce_spent c v \<longleftrightarrow>
     v < get_lowest_acceptable_read_nonce c \<or>
     v \<le> furthest_read_nonce c \<and> v \<in> buffered_read_nonces c"

text \<open>The outcomes of delivering a list of packets (nonce, ciphertext) to one crypter.\<close>

fun unordered_run ::
  "'x crypto_scheme \<Rightarrow> unordered_crypter \<Rightarrow> (bytes \<times> bytes) list \<Rightarrow> (bytes, noise_error) result list" where
  "unordered_run C c [] = []"
| "unordered_run C c ((iv, ct) # ms) =
     (case unordered_decrypt C c iv ct of (c', r) \<Rightarrow> r # unordered_run C c' ms)"


definition unordered_state ::
  "'x crypto_scheme \<Rightarrow> unordered_crypter \<Rightarrow> (bytes \<times> bytes) list \<Rightarrow> unordered_crypter" where
  "unordered_state C c ms = fold (\<lambda>(iv, ct) c. fst (unordered_decrypt C c iv ct)) ms c"

text \<open>The buffered nonces lie between the lowest acceptable and the furthest one.\<close>

definition window_inv :: "unordered_crypter \<Rightarrow> bool" where
  "window_inv c \<longleftrightarrow> 0 < window_size c \<and>
     (\<forall>n \<in> buffered_read_nonces c. get_lowest_acceptable_read_nonce c \<le> n \<and> n \<le> furthest_read_nonce c)"

text \<open>What a receiver knows after the messages with the indices in \<open>D\<close> have arrived.\<close>

definition received :: "bytes \<Rightarrow> u32 \<Rightarrow> nat set \<Rightarrow> unordered_crypter \<Rightarrow> bool" where
  "received k w D c \<longleftrightarrow>
     window_size c = w \<and> u_read_key c = k \<and>
     (\<forall>b \<in> buffered_read_nonces c. \<exists>d \<in> D. unat b = Suc d) \<and>
     (furthest_read_nonce c = 0 \<or> (\<exists>d \<in> D. unat (furthest_read_nonce c) = Suc d))"

text \<open>
  An instance of the primitives for examples: the cipher prepends its nonce, the group is
  multiplication of numbers modulo \<open>2 ^ 256\<close>, the hash and the key derivation cut their
  input to the output length.
\<close>

definition example_crypto :: crypto where
  "example_crypto =
     \<lparr>sha256_digest = (\<lambda>m. vec_resize 32 0 (rev m)),
      hkdf_expand = (\<lambda>salt ikm info n. Some (vec_resize n 0 (rev ikm @ salt @ info))),
      gcm_encrypt = (\<lambda>k n a p. Some (n @ p)),
      gcm_decrypt = (\<lambda>k n a c. if take (length n) c = n then Some (drop (length n) c) else None),
      scalar_in_range = (\<lambda>s. length s = 32),
      mul_by_generator = (\<lambda>s. 4 # le_bytes 64 (le_value s)),
      mul_point_x = (\<lambda>s P. if take 1 P = [4] then Some (le_bytes 32 (le_value s * le_value (drop 1 P))) else None)\<rparr>"

subsection \<open>Padding\<close>

lemma word_and_not_mask_eq: "(x :: 'a::len word) AND NOT (mask k) = x - take_bit k x"
proof -
  have "x - (x AND mask k) = x AND NOT (x AND mask k)"
    by (rule disjunctive_diff) (simp add: bit_simps)
  also have "\<dots> = x AND NOT (mask k)"
    by (rule bit_word_eqI) (auto simp: bit_simps)
  finally show ?thesis by (simp add: take_bit_eq_mask)
qed

lemma unat_and_not_mask: "unat ((x :: 'a::len word) AND NOT (mask k)) = unat x - unat x mod 2 ^ k"
proof -
  have u: "unat (take_bit k x) = unat x mod 2 ^ k"
    by (subst unsigned_take_bit_eq) (rule take_bit_eq_mod)
  then have "take_bit k x \<le> x"
    by (simp add: word_le_nat_alt)
  with u show ?thesis
    by (simp add: word_and_not_mask_eq unat_sub)
qed

lemma padded_length_eq:
  assumes "n \<le> 2 ^ 28"
  shows "padded_length n = (n + 32) div 32 * 32"
proof -
  have m: "PADDING_GRANULARITY - 1 = mask 5"
    by (simp add: PADDING_GRANULARITY_def mask_eq_exp_minus_1)
  have eq: "(of_nat (n + 1) + PADDING_GRANULARITY - 1 :: usize) = of_nat (n + 32)"
    by (simp add: PADDING_GRANULARITY_def)
  have u: "unat (of_nat (n + 32) :: usize) = n + 32"
    using assms by (subst unat_of_nat) simp
  have "padded_length n = (n + 32) - (n + 32) mod 32"
    by (simp only: padded_length_def m eq unat_and_not_mask u) simp
  then show ?thesis by (simp only: minus_mod_eq_div_mult)
qed

lemma padded_length_bounds:
  assumes "n \<le> 2 ^ 28"
  shows "n < padded_length n" "padded_length n - n - 1 < 32" "32 dvd padded_length n"
    "padded_length n \<le> n + 32"
  using assms by (simp_all add: padded_length_eq)

lemma pad_plaintext_eq:
  assumes "length p \<le> 2 ^ 28"
  shows "pad_plaintext p =
    p @ replicate (padded_length (length p) - length p - 1) 0
      @ [of_nat (padded_length (length p) - length p - 1)]"
proof -
  define k where "k = padded_length (length p) - length p - 1"
  have len: "padded_length (length p) = length p + k + 1"
    using padded_length_bounds(1) [OF assms] by (simp add: k_def)
  have "vec_resize (length p + k + 1) 0 p = p @ replicate k 0 @ [0]"
    by (simp add: vec_resize_longer replicate_append_same)
  then show ?thesis
    by (simp add: pad_plaintext_def Let_def len list_update_append)
qed

lemma aes_gcm_256_round_trip:
  assumes "aead_correct C" and enc: "aes_gcm_256_encrypt C k iv p = Ok c"
  shows "aes_gcm_256_decrypt C k iv c = Ok p"
proof -
  from enc have len: "length p \<le> 2 ^ 28"
    by (auto simp: aes_gcm_256_encrypt_def split: if_splits)
  define z where "z = padded_length (length p) - length p - 1"
  have z: "z < 32" using padded_length_bounds(2) [OF len] by (simp add: z_def)
  then have uz: "unat (of_nat z :: byte) = z" by (subst unat_of_nat) simp
  have "gcm_encrypt C k iv [] (p @ replicate z 0 @ [of_nat z]) = Some c"
    using enc len by (simp add: aes_gcm_256_encrypt_def aes_256_gcm_seal_in_place_def
        pad_plaintext_eq z_def)
  with assms(1) have "gcm_decrypt C k iv [] c = Some (p @ replicate z 0 @ [of_nat z])"
    by (auto simp: aead_correct_def)
  with uz show ?thesis
    by (simp add: aes_gcm_256_decrypt_def aes_256_gcm_open_in_place_def)
qed

lemma aes_gcm_256_encrypt_total:
  assumes "aead_total C" "length p \<le> 2 ^ 28"
  shows "\<exists>c. aes_gcm_256_encrypt C k iv p = Ok c"
proof -
  have "length (pad_plaintext p) \<le> 2 ^ 28 + 32"
    using padded_length_bounds(4) [OF assms(2)] assms(2) by (simp add: pad_plaintext_def Let_def)
  then have "gcm_encrypt C k iv [] (pad_plaintext p) \<noteq> None"
    using assms(1) by (simp add: aead_total_def)
  with assms(2) show ?thesis
    by (auto simp: aes_gcm_256_encrypt_def aes_256_gcm_seal_in_place_def)
qed

lemma unat_MAX_SEQUENCE: "unat MAX_SEQUENCE = 2 ^ 24"
  by (simp add: MAX_SEQUENCE_def)

lemma next_nonce_Ok_iff:
  "next_nonce n = (n', Ok iv) \<longleftrightarrow>
     nonce n \<le> MAX_SEQUENCE \<and> n' = Nonce (nonce n + 1) \<and>
     iv = replicate (NONCE_LEN - 4) 0 @ to_be_bytes (nonce n)"
  by (auto simp: next_nonce_def not_le)

lemma get_nonce_value_next:
  "get_nonce_value (replicate (NONCE_LEN - 4) 0 @ to_be_bytes v) = Ok v"
  by (simp add: get_nonce_value_def)

lemma unat_nonce_Suc:
  assumes "v \<le> MAX_SEQUENCE"
  shows "unat (v + 1) = Suc (unat v)"
proof -
  have "unat v \<le> 2 ^ 24" using assms by (simp add: word_le_nat_alt unat_MAX_SEQUENCE)
  then show ?thesis by (simp add: unat_word_ariths)
qed


subsection \<open>Ordered streams\<close>

lemma ordered_encrypt_Ok_iff:
  "ordered_encrypt C c p = (c', Ok ct) \<longleftrightarrow>
     nonce (write_nonce c) \<le> MAX_SEQUENCE \<and>
     c' = c\<lparr>write_nonce := Nonce (nonce (write_nonce c) + 1)\<rparr> \<and>
     aes_gcm_256_encrypt C (write_key c)
       (replicate (NONCE_LEN - 4) 0 @ to_be_bytes (nonce (write_nonce c))) p = Ok ct"
  by (auto simp: ordered_encrypt_def next_nonce_def not_le)

interpretation ordered_stream:
  ordered_channel "ordered_encrypt C" "ordered_decrypt C" "ordered_paired C" "\<lambda>p. p" for C
proof
  fix s r p s' ct
  assume p: "ordered_paired C s r" and e: "ordered_encrypt C s p = (s', Ok ct)"
  let ?iv = "replicate (NONCE_LEN - 4) 0 @ to_be_bytes (nonce (write_nonce s))"
  from p e have "aes_gcm_256_decrypt C (read_key r) ?iv ct = Ok p"
    by (auto simp: ordered_paired_def ordered_encrypt_Ok_iff intro: aes_gcm_256_round_trip)
  with p e show "\<exists>r'. ordered_decrypt C r ct = (r', Ok p) \<and> ordered_paired C s' r'"
    by (auto simp: ordered_paired_def ordered_encrypt_Ok_iff ordered_decrypt_def next_nonce_def)
qed

lemma ordered_run_total:
  assumes "aead_total C" "\<forall>p \<in> set ps. length p \<le> 2 ^ 28"
    and "unat (nonce (write_nonce c)) + length ps \<le> 2 ^ 24 + 1"
  shows "\<exists>c' cts. run_all (ordered_encrypt C) c ps = (c', Ok cts)"
  using assms(2,3)
proof (induction ps arbitrary: c)
  case Nil
  then show ?case by simp
next
  case (Cons p ps)
  have le: "nonce (write_nonce c) \<le> MAX_SEQUENCE"
    using Cons.prems by (simp add: word_le_nat_alt unat_MAX_SEQUENCE)
  have "length p \<le> 2 ^ 28" using Cons.prems by simp
  from aes_gcm_256_encrypt_total [OF assms(1) this]
  obtain ct where "ordered_encrypt C c p = (c\<lparr>write_nonce := Nonce (nonce (write_nonce c) + 1)\<rparr>, Ok ct)"
    using le unfolding ordered_encrypt_Ok_iff by blast
  moreover have "\<exists>c' cts. run_all (ordered_encrypt C)
      (c\<lparr>write_nonce := Nonce (nonce (write_nonce c) + 1)\<rparr>) ps = (c', Ok cts)"
    using Cons.prems unat_nonce_Suc [OF le] by (intro Cons.IH) auto
  ultimately show ?case by (auto simp: run_all_Cons_Ok simp del: run_all.simps(2))
qed

text \<open>The ivs of a run: the i-th message is sealed under the counter's i-th value.\<close>

lemma ordered_run_ivs:
  assumes "run_all (ordered_encrypt C) c ps = (c', Ok cts)"
  shows "\<exists>ivs. list_all2 (\<lambda>(iv, p) ct. aes_gcm_256_encrypt C (write_key c) iv p = Ok ct) (zip ivs ps) cts
    \<and> map get_nonce_value ivs = map (\<lambda>i. Ok (of_nat (unat (nonce (write_nonce c)) + i))) [0 ..< length ps]
    \<and> length ivs = length ps
    \<and> (ps \<noteq> [] \<longrightarrow> unat (nonce (write_nonce c)) + length ps \<le> 2 ^ 24 + 1)"
  using assms
proof (induction ps arbitrary: c cts)
  case Nil
  then show ?case by simp
next
  case (Cons p ps)
  then obtain c1 ct cts' where
    st: "ordered_encrypt C c p = (c1, Ok ct)" and
    rest: "run_all (ordered_encrypt C) c1 ps = (c', Ok cts')" and cts: "cts = ct # cts'"
    by (auto simp: run_all_Cons_Ok simp del: run_all.simps(2))
  let ?n = "nonce (write_nonce c)"
  let ?iv = "replicate (NONCE_LEN - 4) 0 @ to_be_bytes ?n"
  from st have le: "?n \<le> MAX_SEQUENCE" and n1: "write_nonce c1 = Nonce (?n + 1)"
    and k1: "write_key c1 = write_key c" and e: "aes_gcm_256_encrypt C (write_key c) ?iv p = Ok ct"
    by (auto simp: ordered_encrypt_Ok_iff)
  have u: "unat (nonce (write_nonce c1)) = Suc (unat ?n)"
    using unat_nonce_Suc [OF le] n1 by simp
  have b: "unat ?n \<le> 2 ^ 24"
    using le by (simp add: word_le_nat_alt unat_MAX_SEQUENCE)
  from Cons.IH [OF rest] obtain ivs where ih:
    "list_all2 (\<lambda>(iv, p) ct. aes_gcm_256_encrypt C (write_key c) iv p = Ok ct) (zip ivs ps) cts'"
    "map get_nonce_value ivs = map (\<lambda>i. Ok (of_nat (Suc (unat ?n) + i))) [0 ..< length ps]"
    "length ivs = length ps" "ps \<noteq> [] \<longrightarrow> Suc (unat ?n) + length ps \<le> 2 ^ 24 + 1"
    unfolding u k1 by blast
  have upt: "[0 ..< length (p # ps)] = 0 # map Suc [0 ..< length ps]"
    by (simp add: map_Suc_upt upt_conv_Cons del: upt_Suc)
  have "map get_nonce_value (?iv # ivs) = map (\<lambda>i. Ok (of_nat (unat ?n + i))) [0 ..< length (p # ps)]"
    unfolding upt using ih(2) by (simp add: get_nonce_value_next)
  moreover have "unat ?n + length (p # ps) \<le> 2 ^ 24 + 1"
    using ih(4) b by (cases "ps = []") auto
  ultimately show ?case
    using ih(1,3) e cts by (intro exI [of _ "?iv # ivs"]) simp
qed

lemma distinct_nonce_values:
  assumes "map get_nonce_value ivs = map (\<lambda>i. Ok (of_nat (m + i))) [0 ..< k]" "m + k \<le> 2 ^ 24 + 1"
  shows "distinct ivs"
proof -
  have inj: "inj_on (\<lambda>i. of_nat (m + i) :: u32) (set [0 ..< k])"
  proof (rule inj_onI)
    fix i j assume "i \<in> set [0 ..< k]" "j \<in> set [0 ..< k]"
      and eq: "(of_nat (m + i) :: u32) = of_nat (m + j)"
    then have "unat (of_nat (m + i) :: u32) = m + i" "unat (of_nat (m + j) :: u32) = m + j"
      using assms(2) by (subst unat_of_nat, simp)+
    with eq show "i = j" by (metis add_left_cancel)
  qed
  have "distinct (map get_nonce_value ivs)"
    unfolding assms(1) using inj by (auto simp: distinct_map inj_on_def)
  then show ?thesis by (simp add: distinct_map)
qed


subsection \<open>The replay window\<close>

lemma unat_lowest:
  assumes "0 < window_size c"
  shows "unat (get_lowest_acceptable_read_nonce c) =
    (if unat (furthest_read_nonce c) > unat (window_size c)
     then unat (furthest_read_nonce c) - unat (window_size c) + 1 else 1)"
proof (cases "furthest_read_nonce c > window_size c")
  case True
  let ?d = "furthest_read_nonce c - window_size c"
  have d: "unat ?d = unat (furthest_read_nonce c) - unat (window_size c)"
    using True by (simp add: unat_sub)
  moreover have "unat (window_size c) > 0" using assms by (simp add: word_less_nat_alt)
  moreover have "unat (furthest_read_nonce c) < 2 ^ 32"
    using unsigned_less [of "furthest_read_nonce c"] by simp
  ultimately have "unat ?d + 1 < 2 ^ 32" using True by (simp add: word_less_nat_alt)
  then have "unat (?d + 1) = unat ?d + 1" by (simp add: unat_word_ariths)
  with True d show ?thesis
    by (simp add: get_lowest_acceptable_read_nonce_def word_less_nat_alt)
next
  case False
  then show ?thesis by (simp add: get_lowest_acceptable_read_nonce_def word_less_nat_alt)
qed

lemma lowest_mono:
  assumes "0 < window_size c" "window_size c' = window_size c"
    and "furthest_read_nonce c \<le> furthest_read_nonce c'"
  shows "get_lowest_acceptable_read_nonce c \<le> get_lowest_acceptable_read_nonce c'"
  using assms by (auto simp: word_le_nat_alt unat_lowest)

lemma lowest_buffered [simp]:
  "get_lowest_acceptable_read_nonce (c\<lparr>buffered_read_nonces := B\<rparr>) = get_lowest_acceptable_read_nonce c"
  by (simp add: get_lowest_acceptable_read_nonce_def)

lemma unordered_decrypt_spent:
  assumes "get_nonce_value iv = Ok v" "nonce_spent c v"
  shows "\<exists>e. unordered_decrypt C c iv ct = (c, Err e) \<and> e \<in> {InvalidNonce, ReplayedNonce}"
  using assms by (auto simp: unordered_decrypt_def nonce_spent_def Let_def not_less)

lemma unordered_decrypt_fresh:
  assumes "get_nonce_value iv = Ok v" "\<not> nonce_spent c v"
  shows "\<exists>c'. unordered_decrypt C c iv ct = (c', aes_gcm_256_decrypt C (u_read_key c) iv ct)
    \<and> nonce_spent c' v
    \<and> furthest_read_nonce c' = max (furthest_read_nonce c) v
    \<and> buffered_read_nonces c' =
        {n \<in> insert v (buffered_read_nonces c). n = v \<or> v \<le> furthest_read_nonce c \<or>
           n \<ge> get_lowest_acceptable_read_nonce c'}"
  using assms
  by (auto simp: unordered_decrypt_def nonce_spent_def Let_def not_less max_def)

lemma unordered_decrypt_frame:
  "unordered_decrypt C c iv ct = (c', r) \<Longrightarrow>
     window_size c' = window_size c \<and> u_read_key c' = u_read_key c \<and>
     furthest_read_nonce c \<le> furthest_read_nonce c'"
  by (auto simp: unordered_decrypt_def Let_def split: result.splits if_splits)

lemma nonce_spent_mono:
  assumes "unordered_decrypt C c iv ct = (c', r)" "0 < window_size c" "nonce_spent c v"
  shows "nonce_spent c' v"
proof -
  have lo: "get_lowest_acceptable_read_nonce c \<le> get_lowest_acceptable_read_nonce c'"
    using unordered_decrypt_frame [OF assms(1)] assms(2) by (intro lowest_mono) auto
  show ?thesis
  proof (cases "c' = c")
    case True
    with assms(3) show ?thesis by simp
  next
    case False
    with assms(1) obtain nv where nv: "get_nonce_value iv = Ok nv" "\<not> nonce_spent c nv"
      by (auto simp: unordered_decrypt_def nonce_spent_def Let_def split: result.splits if_splits)
    from unordered_decrypt_fresh [OF nv, of C ct] assms(1)
    have f: "furthest_read_nonce c' = max (furthest_read_nonce c) nv"
      and b: "buffered_read_nonces c' =
        {n \<in> insert nv (buffered_read_nonces c). n = nv \<or> nv \<le> furthest_read_nonce c \<or>
           n \<ge> get_lowest_acceptable_read_nonce c'}" by auto
    from assms(3) lo show ?thesis
      unfolding nonce_spent_def f b by (fastforce simp: max_def)
  qed
qed

lemma length_unordered_run [simp]: "length (unordered_run C c ms) = length ms"
  by (induction C c ms rule: unordered_run.induct) (auto split: prod.splits)

lemma unordered_run_spent:
  assumes "nonce_spent c v" "0 < window_size c" "j < length ms"
    and "get_nonce_value (fst (ms ! j)) = Ok v"
  shows "\<exists>e. unordered_run C c ms ! j = Err e"
  using assms
proof (induction C c ms arbitrary: j rule: unordered_run.induct)
  case (2 C c iv ct ms)
  obtain c' r where d: "unordered_decrypt C c iv ct = (c', r)" by fastforce
  show ?case
  proof (cases j)
    case 0
    with 2(5) unordered_decrypt_spent [OF _ 2(2), of iv C ct] show ?thesis by auto
  next
    case (Suc j')
    have "nonce_spent c' v" using nonce_spent_mono [OF d 2(3) 2(2)] .
    moreover have "0 < window_size c'" using unordered_decrypt_frame [OF d] 2(3) by simp
    ultimately have "\<exists>e. unordered_run C c' ms ! j' = Err e"
      using 2(1) [OF d [symmetric]] 2(4,5) Suc d by auto
    then show ?thesis using Suc d by simp
  qed
qed simp

lemma unordered_no_replay:
  assumes "0 < window_size c" "i < j" "j < length ms"
    and "unordered_run C c ms ! i = Ok p" "unordered_run C c ms ! j = Ok q"
  shows "get_nonce_value (fst (ms ! i)) \<noteq> get_nonce_value (fst (ms ! j))"
  using assms
proof (induction C c ms arbitrary: i j rule: unordered_run.induct)
  case (2 C c iv ct ms)
  obtain c' r where d: "unordered_decrypt C c iv ct = (c', r)" by fastforce
  have w: "0 < window_size c'" using unordered_decrypt_frame [OF d] 2(2) by simp
  obtain j' where j: "j = Suc j'" using 2(3) by (cases j) auto
  show ?case
  proof (cases i)
    case 0
    with 2(5) d have "r = Ok p" by simp
    with d obtain v where v: "get_nonce_value iv = Ok v" "\<not> nonce_spent c v"
      by (auto simp: unordered_decrypt_def nonce_spent_def Let_def split: result.splits if_splits)
    with unordered_decrypt_fresh [OF v, of C ct] d have "nonce_spent c' v" by auto
    from unordered_run_spent [OF this w, of j' ms C] 2(4,6) j d v(1) show ?thesis
      by (auto simp: 0)
  next
    case (Suc i')
    with 2(1) [OF d [symmetric] w, of i' j'] 2(3-6) d j show ?thesis by simp
  qed
qed simp


subsection \<open>The window's memory\<close>

lemma window_inv_new: "0 < w \<Longrightarrow> window_inv (unordered_new rk wk w)"
  by (simp add: window_inv_def unordered_new_def)

lemma window_inv_decrypt:
  assumes "window_inv c" and d: "unordered_decrypt C c iv ct = (c', r)"
  shows "window_inv c'"
proof (cases "c' = c")
  case True
  with assms show ?thesis by simp
next
  case False
  with d obtain v where v: "get_nonce_value iv = Ok v" "\<not> nonce_spent c v"
    by (auto simp: unordered_decrypt_def nonce_spent_def Let_def split: result.splits if_splits)
  have w: "0 < window_size c" "0 < window_size c'" "window_size c' = window_size c"
    using assms unordered_decrypt_frame [OF d] by (auto simp: window_inv_def)
  from unordered_decrypt_fresh [OF v, of C ct] d
  have f: "furthest_read_nonce c' = max (furthest_read_nonce c) v"
    and b: "buffered_read_nonces c' =
      {n \<in> insert v (buffered_read_nonces c). n = v \<or> v \<le> furthest_read_nonce c \<or>
         n \<ge> get_lowest_acceptable_read_nonce c'}" by auto
  have lv: "get_lowest_acceptable_read_nonce c \<le> v"
    using v(2) by (simp add: nonce_spent_def not_less)
  have "get_lowest_acceptable_read_nonce c' \<le> v"
  proof (cases "v \<le> furthest_read_nonce c")
    case True
    then have "get_lowest_acceptable_read_nonce c' = get_lowest_acceptable_read_nonce c"
      using f w by (simp add: get_lowest_acceptable_read_nonce_def max_def)
    with lv show ?thesis by simp
  next
    case False
    then have "furthest_read_nonce c' = v" using f by (auto simp: max_def)
    moreover have "unat v \<noteq> 0" using False by (auto simp: word_le_nat_alt)
    moreover have "unat (window_size c') \<noteq> 0" using w(2) by (simp add: word_less_nat_alt)
    ultimately show ?thesis using unat_lowest [OF w(2)] by (auto simp: word_le_nat_alt)
  qed
  moreover have "get_lowest_acceptable_read_nonce c' = get_lowest_acceptable_read_nonce c"
    if "v \<le> furthest_read_nonce c"
    using that f w by (simp add: get_lowest_acceptable_read_nonce_def max_def)
  ultimately show ?thesis
    using assms(1) w(2) f unfolding window_inv_def b by (auto simp: max_def split: if_splits)
qed

lemma window_inv_card:
  assumes "window_inv c"
  shows "card (buffered_read_nonces c) \<le> unat (window_size c)"
proof -
  let ?lo = "get_lowest_acceptable_read_nonce c" and ?hi = "furthest_read_nonce c"
  have w: "0 < window_size c" using assms by (simp add: window_inv_def)
  have sub: "unat ` buffered_read_nonces c \<subseteq> {unat ?lo .. unat ?hi}"
    using assms by (auto simp: window_inv_def word_le_nat_alt)
  have "card (buffered_read_nonces c) = card (unat ` buffered_read_nonces c)"
    by (rule card_image [symmetric]) (simp add: inj_on_def word_unat_eq_iff)
  also have "\<dots> \<le> card {unat ?lo .. unat ?hi}"
    by (rule card_mono [OF _ sub]) simp
  also have "\<dots> \<le> unat (window_size c)"
    using unat_lowest [OF w] by (auto split: if_splits)
  finally show ?thesis .
qed

subsection \<open>Delivery in any order\<close>

lemma unordered_encrypt_Ok_iff:
  "unordered_encrypt C c p = (c', Ok m) \<longleftrightarrow>
     nonce (u_write_nonce c) \<le> MAX_SEQUENCE \<and>
     c' = c\<lparr>u_write_nonce := Nonce (nonce (u_write_nonce c) + 1)\<rparr> \<and>
     (\<exists>ct. m = (ct, replicate (NONCE_LEN - 4) 0 @ to_be_bytes (nonce (u_write_nonce c))) \<and>
       aes_gcm_256_encrypt C (u_write_key c)
         (replicate (NONCE_LEN - 4) 0 @ to_be_bytes (nonce (u_write_nonce c))) p = Ok ct)"
  by (auto simp: unordered_encrypt_def next_nonce_def not_le map_ok_Ok_iff)

lemma unordered_sent:
  assumes "run_all (unordered_encrypt C) s ps = (s', Ok ms)" "i < length ps"
  shows "unat (nonce (u_write_nonce s)) + i \<le> 2 ^ 24
    \<and> get_nonce_value (snd (ms ! i)) = Ok (of_nat (unat (nonce (u_write_nonce s)) + i))
    \<and> aes_gcm_256_encrypt C (u_write_key s) (snd (ms ! i)) (ps ! i) = Ok (fst (ms ! i))"
  using assms
proof (induction ps arbitrary: s ms i)
  case Nil
  then show ?case by simp
next
  case (Cons p ps)
  then obtain s1 m ms' where
    st: "unordered_encrypt C s p = (s1, Ok m)" and
    rest: "run_all (unordered_encrypt C) s1 ps = (s', Ok ms')" and ms: "ms = m # ms'"
    by (auto simp: run_all_Cons_Ok simp del: run_all.simps(2))
  let ?n = "nonce (u_write_nonce s)"
  from st have le: "?n \<le> MAX_SEQUENCE" and n1: "u_write_nonce s1 = Nonce (?n + 1)"
    and k1: "u_write_key s1 = u_write_key s"
    and m: "get_nonce_value (snd m) = Ok ?n" "aes_gcm_256_encrypt C (u_write_key s) (snd m) p = Ok (fst m)"
    by (auto simp: unordered_encrypt_Ok_iff get_nonce_value_next)
  have u: "unat (nonce (u_write_nonce s1)) = Suc (unat ?n)"
    using unat_nonce_Suc [OF le] n1 by simp
  show ?case
  proof (cases i)
    case 0
    with le m ms show ?thesis by (simp add: word_le_nat_alt unat_MAX_SEQUENCE)
  next
    case (Suc i')
    with Cons.IH [OF rest, of i'] Cons.prems(2) show ?thesis
      unfolding u k1 by (simp add: ms)
  qed
qed

lemma received_not_spent:
  assumes "received k w D c" "0 < w" "i \<notin> D" "\<forall>d \<in> D. d < i + unat w" "unat v = Suc i"
  shows "\<not> nonce_spent c v"
proof -
  have ws: "window_size c = w" using assms(1) by (simp add: received_def)
  then have lo: "unat (get_lowest_acceptable_read_nonce c) =
    (if unat (furthest_read_nonce c) > unat w
     then unat (furthest_read_nonce c) - unat w + 1 else 1)"
    using unat_lowest [of c] assms(2) by simp
  have "unat (furthest_read_nonce c) = 0 \<or> (\<exists>d \<in> D. unat (furthest_read_nonce c) = Suc d)"
    using assms(1) by (auto simp: received_def)
  with assms(4) have "unat (furthest_read_nonce c) < Suc i + unat w" by auto
  with lo assms(5) have "\<not> v < get_lowest_acceptable_read_nonce c"
    by (auto simp: word_less_nat_alt)
  moreover have "v \<notin> buffered_read_nonces c"
    using assms(1,3,5) by (auto simp: received_def)
  ultimately show ?thesis by (simp add: nonce_spent_def)
qed

lemma received_step:
  assumes "received k w D c" "0 < w" "i \<notin> D" "\<forall>d \<in> D. d < i + unat w"
    and "get_nonce_value iv = Ok v" "unat v = Suc i"
  shows "\<exists>c'. unordered_decrypt C c iv ct = (c', aes_gcm_256_decrypt C k iv ct)
    \<and> received k w (insert i D) c'"
proof -
  have ns: "\<not> nonce_spent c v" by (rule received_not_spent [OF assms(1-4,6)])
  from unordered_decrypt_fresh [OF assms(5) ns, of C ct] assms(1) obtain c' where
    d: "unordered_decrypt C c iv ct = (c', aes_gcm_256_decrypt C k iv ct)"
    and f: "furthest_read_nonce c' = max (furthest_read_nonce c) v"
    and b: "buffered_read_nonces c' \<subseteq> insert v (buffered_read_nonces c)"
    by (auto simp: received_def)
  have "received k w (insert i D) c'"
    using unordered_decrypt_frame [OF d] assms(1,6) f b
    by (auto simp: received_def max_def split: if_splits)
  with d show ?thesis by blast
qed

lemma unordered_delivery_from:
  assumes "aead_correct C" "received k w D r" "0 < w" "u_write_key s = k"
    and sent: "run_all (unordered_encrypt C) s ps = (s', Ok ms)" "u_write_nonce s = Nonce 1"
    and "distinct order" "set order \<subseteq> {..< length ps}" "set order \<inter> D = {}"
    and "sorted_wrt (\<lambda>a b. a < b + unat w) order"
    and "\<forall>d \<in> D. \<forall>i \<in> set order. d < i + unat w"
  shows "unordered_run C r (map (\<lambda>i. (snd (ms ! i), fst (ms ! i))) order) = map (\<lambda>i. Ok (ps ! i)) order"
  using assms(2,7-11)
proof (induction order arbitrary: r D)
  case Nil
  then show ?case by simp
next
  case (Cons i order)
  have i: "i < length ps" "i \<notin> D" "\<forall>d \<in> D. d < i + unat w" using Cons.prems by auto
  from unordered_sent [OF sent(1) i(1)] sent(2) assms(4) have
    b: "Suc i \<le> 2 ^ 24" and v: "get_nonce_value (snd (ms ! i)) = Ok (of_nat (Suc i))"
    and e: "aes_gcm_256_encrypt C k (snd (ms ! i)) (ps ! i) = Ok (fst (ms ! i))" by simp_all
  have u: "unat (of_nat (Suc i) :: u32) = Suc i" using b by (subst unat_of_nat) simp
  from received_step [OF Cons.prems(1) assms(3) i(2,3) v u] obtain r' where
    d: "unordered_decrypt C r (snd (ms ! i)) (fst (ms ! i)) =
      (r', aes_gcm_256_decrypt C k (snd (ms ! i)) (fst (ms ! i)))"
    and r': "received k w (insert i D) r'" by blast
  have "aes_gcm_256_decrypt C k (snd (ms ! i)) (fst (ms ! i)) = Ok (ps ! i)"
    by (rule aes_gcm_256_round_trip [OF assms(1) e])
  moreover have "unordered_run C r' (map (\<lambda>i. (snd (ms ! i), fst (ms ! i))) order)
      = map (\<lambda>i. Ok (ps ! i)) order"
    using Cons.prems by (intro Cons.IH [OF r']) auto
  ultimately show ?case using d by simp
qed


lemma window_inv_state: "window_inv c \<Longrightarrow> window_inv (unordered_state C c ms)"
proof (induction ms arbitrary: c)
  case (Cons m ms)
  obtain iv ct c' r where "m = (iv, ct)" "unordered_decrypt C c iv ct = (c', r)" by (metis surj_pair)
  with Cons show ?case by (simp add: unordered_state_def window_inv_decrypt)
qed (simp add: unordered_state_def)

lemma unordered_state_frame: "window_size (unordered_state C c ms) = window_size c"
proof (induction ms arbitrary: c)
  case (Cons m ms)
  obtain iv ct c' r where "m = (iv, ct)" "unordered_decrypt C c iv ct = (c', r)" by (metis surj_pair)
  with Cons [of c'] unordered_decrypt_frame [of C c iv ct c' r] show ?case
    by (simp add: unordered_state_def)
qed (simp add: unordered_state_def)

lemma example_aead: "aead_correct example_crypto" "aead_total example_crypto"
  by (auto simp: aead_correct_def aead_total_def example_crypto_def)

lemmas example_crypto_simps =
  example_crypto_def ordered_new_def unordered_new_def NONCE_LEN_def MAX_SEQUENCE_def


lemma unordered_run_total:
  assumes "aead_total C" "\<forall>p \<in> set ps. length p \<le> 2 ^ 28"
    and "unat (nonce (u_write_nonce c)) + length ps \<le> 2 ^ 24 + 1"
  shows "\<exists>c' ms. run_all (unordered_encrypt C) c ps = (c', Ok ms)"
  using assms(2,3)
proof (induction ps arbitrary: c)
  case Nil
  then show ?case by simp
next
  case (Cons p ps)
  then have le: "nonce (u_write_nonce c) \<le> MAX_SEQUENCE" by (simp add: word_le_nat_alt unat_MAX_SEQUENCE)
  let ?c = "c\<lparr>u_write_nonce := Nonce (nonce (u_write_nonce c) + 1)\<rparr>"
  obtain ct where "aes_gcm_256_encrypt C (u_write_key c)
      (replicate (NONCE_LEN - 4) 0 @ to_be_bytes (nonce (u_write_nonce c))) p = Ok ct"
    using aes_gcm_256_encrypt_total [OF assms(1)] Cons.prems(1) by (metis list.set_intros(1))
  with le obtain m where "unordered_encrypt C c p = (?c, Ok m)" by (simp add: unordered_encrypt_Ok_iff)
  moreover obtain c' ms where "run_all (unordered_encrypt C) ?c ps = (c', Ok ms)"
    using Cons.IH [of ?c] Cons.prems unat_nonce_Suc [OF le] by auto
  ultimately show ?case by (auto simp: run_all_Cons_Ok)
qed

lemmas example_eval = replicate_numeral_step example_crypto_def unordered_new_def unordered_decrypt_def get_nonce_value_def
  get_lowest_acceptable_read_nonce_def aes_gcm_256_decrypt_def aes_256_gcm_open_in_place_def
  from_be_bytes_def from_le_bytes_def NONCE_LEN_def

subsection \<open>What the crypters guarantee\<close>

text \<open>
  C18. The ordered crypter delivers a stream: up to \<open>2 ^ 24 + 1\<close> messages of at most 256 MiB
  each are all encrypted, and the peer, whose keys are the same two keys the other way
  round, decrypts the ciphertexts in order back to exactly those messages.
\<close>

theorem ordered_crypter_stream:
  assumes "aead_correct C" "aead_total C"
    and "\<forall>p \<in> set ps. length p \<le> 2 ^ 28" "length ps \<le> 2 ^ 24 + 1"
  shows "\<exists>s' cts r'. run_all (ordered_encrypt C) (ordered_new k1 k2) ps = (s', Ok cts)
    \<and> run_all (ordered_decrypt C) (ordered_new k2 k1) cts = (r', Ok ps)"
proof -
  obtain s' cts where e: "run_all (ordered_encrypt C) (ordered_new k1 k2) ps = (s', Ok cts)"
    using ordered_run_total [OF assms(2,3), of "ordered_new k1 k2"] assms(4)
    by (auto simp: ordered_new_def)
  have "ordered_paired C (ordered_new k1 k2) (ordered_new k2 k1)"
    using assms(1) by (simp add: ordered_paired_def ordered_new_def)
  from ordered_stream.deliver_all [OF this e] e show ?thesis by auto
qed

theorem ordered_crypter_stream_witness:
  "\<exists>s' cts r'. run_all (ordered_encrypt example_crypto) (ordered_new [1] [2]) [[10, 20], [], [30]] = (s', Ok cts)
    \<and> run_all (ordered_decrypt example_crypto) (ordered_new [2] [1]) cts = (r', Ok [[10, 20], [], [30]])"
  by (rule ordered_crypter_stream) (simp_all add: example_aead)

text \<open>
  C19. One key never seals two messages under the same nonce: in any run of successful
  encryptions the i-th ciphertext is the sealing of the i-th message under a nonce of its
  own, the nonces are pairwise distinct, and there are at most \<open>2 ^ 24 + 1\<close> of them.
\<close>

theorem ordered_crypter_nonces_unique:
  assumes "run_all (ordered_encrypt C) c ps = (c', Ok cts)"
  shows "\<exists>ivs. distinct ivs \<and> length ivs = length ps \<and> length ps \<le> 2 ^ 24 + 1 \<and>
    list_all2 (\<lambda>(iv, p) ct. aes_gcm_256_encrypt C (write_key c) iv p = Ok ct) (zip ivs ps) cts"
proof (cases "ps = []")
  case True
  with assms show ?thesis by simp
next
  case False
  from ordered_run_ivs [OF assms] False obtain ivs where
    sealed: "list_all2 (\<lambda>(iv, p) ct. aes_gcm_256_encrypt C (write_key c) iv p = Ok ct) (zip ivs ps) cts"
    and vals: "map get_nonce_value ivs = map (\<lambda>i. Ok (of_nat (unat (nonce (write_nonce c)) + i))) [0 ..< length ps]"
    and len: "length ivs = length ps" and bound: "unat (nonce (write_nonce c)) + length ps \<le> 2 ^ 24 + 1"
    by blast
  from sealed len bound distinct_nonce_values [OF vals bound] show ?thesis
    by (intro exI [of _ ivs]) auto
qed

theorem ordered_crypter_nonces_unique_witness:
  "\<exists>c' cts ivs. run_all (ordered_encrypt example_crypto) (ordered_new [1] [2]) [[10], [20]] = (c', Ok cts) \<and>
    distinct ivs \<and> length ivs = 2 \<and>
    list_all2 (\<lambda>(iv, p) ct. aes_gcm_256_encrypt example_crypto [2] iv p = Ok ct) (zip ivs [[10], [20]]) cts"
proof -
  obtain c' cts where e: "run_all (ordered_encrypt example_crypto) (ordered_new [1] [2]) [[10], [20]] = (c', Ok cts)"
    using ordered_run_total [OF example_aead(2), of "[[10], [20]]" "ordered_new [1] [2]"]
    by (auto simp: ordered_new_def)
  from ordered_crypter_nonces_unique [OF this] e show ?thesis
    by (fastforce simp: ordered_new_def)
qed

text \<open>
  With a window of zero the lowest acceptable nonce is one above the furthest one, which wraps around
  to zero after the largest nonce, also when its packet is forged: nonces that were dropped from the
  buffer are accepted a second time.
\<close>

lemma zero_window_accepts_replay:
  assumes "get_nonce_value iv = Ok 3" "get_nonce_value iv2 = Ok 5" "get_nonce_value iv3 = Ok 0xFFFFFFFF"
    and "aes_gcm_256_decrypt C rk iv ct = Ok p"
  shows "unordered_run C (unordered_new rk wk 0) [(iv, ct), (iv2, ct2), (iv3, forged), (iv, ct)] =
    [Ok p, aes_gcm_256_decrypt C rk iv2 ct2, aes_gcm_256_decrypt C rk iv3 forged, Ok p]"
  using assms by (simp add: unordered_decrypt_def unordered_new_def get_lowest_acceptable_read_nonce_def Let_def)

text \<open>
  C16. The unordered crypter with a window of at least one rejects replays: whatever packets
  arrive, no two packets with the same nonce value are both decrypted. With a window of zero, which
  the code allows, that is not so (\<open>zero_window_accepts_replay\<close>).
\<close>

theorem unordered_crypter_no_replay:
  assumes "0 < w" "i < j" "j < length ms"
    and "unordered_run C (unordered_new rk wk w) ms ! i = Ok p"
    and "unordered_run C (unordered_new rk wk w) ms ! j = Ok q"
  shows "get_nonce_value (fst (ms ! i)) \<noteq> get_nonce_value (fst (ms ! j))"
  by (rule unordered_no_replay [OF _ assms(2-5)]) (use assms(1) in \<open>simp add: unordered_new_def\<close>)

theorem unordered_crypter_no_replay_witness:
  "unordered_run example_crypto (unordered_new [1] [2] 4)
     [([0, 0, 0, 0, 0, 0, 0, 0, 0, 0, 0, 1], [0, 0, 0, 0, 0, 0, 0, 0, 0, 0, 0, 1] @ [9, 0]), ([0, 0, 0, 0, 0, 0, 0, 0, 0, 0, 0, 2], [0, 0, 0, 0, 0, 0, 0, 0, 0, 0, 0, 2] @ [8, 0])] = [Ok [9], Ok [8]] \<and>
    get_nonce_value [0, 0, 0, 0, 0, 0, 0, 0, 0, 0, 0, 1] \<noteq> get_nonce_value [0, 0, 0, 0, 0, 0, 0, 0, 0, 0, 0, 2]"
proof -
  let ?ms = "[([0, 0, 0, 0, 0, 0, 0, 0, 0, 0, 0, 1], [0, 0, 0, 0, 0, 0, 0, 0, 0, 0, 0, 1] @ [9, 0]), ([0, 0, 0, 0, 0, 0, 0, 0, 0, 0, 0, 2], [0, 0, 0, 0, 0, 0, 0, 0, 0, 0, 0, 2] @ [8, 0])] :: (bytes \<times> bytes) list"
  have "unordered_run example_crypto (unordered_new [1] [2] 4) ?ms = [Ok [9], Ok [8]]"
    by (simp add: example_eval)
  with unordered_crypter_no_replay [of 4 0 1 ?ms example_crypto "[1]" "[2]" "[9]" "[8]"] show ?thesis by simp
qed

text \<open>
  C17. The unordered crypter delivers in any order: messages of a fresh sender that arrive
  at most once each, none more than the window behind one that came before it, are all
  decrypted to what was sent, in the order of arrival.
\<close>

theorem unordered_crypter_any_order:
  assumes "aead_correct C" "0 < w"
    and "run_all (unordered_encrypt C) (unordered_new k1 k2 w') ps = (s', Ok ms)"
    and "distinct order" "set order \<subseteq> {..< length ps}"
    and "sorted_wrt (\<lambda>a b. a < b + unat w) order"
  shows "unordered_run C (unordered_new k2 k1 w) (map (\<lambda>i. (snd (ms ! i), fst (ms ! i))) order)
    = map (\<lambda>i. Ok (ps ! i)) order"
  by (rule unordered_delivery_from [where D = "{}" and k = k2])
    (use assms in \<open>auto simp: received_def unordered_new_def\<close>)

theorem unordered_crypter_any_order_witness:
  "\<exists>s' ms. run_all (unordered_encrypt example_crypto) (unordered_new [1] [2] 2) [[10], [20], [30]] = (s', Ok ms) \<and>
    unordered_run example_crypto (unordered_new [2] [1] 2) (map (\<lambda>i. (snd (ms ! i), fst (ms ! i))) [1, 0, 2])
    = [Ok [20], Ok [10], Ok [30]]"
proof -
  obtain s' ms where e: "run_all (unordered_encrypt example_crypto) (unordered_new [1] [2] 2) [[10], [20], [30]] = (s', Ok ms)"
    using unordered_run_total [OF example_aead(2), of "[[10], [20], [30]]" "unordered_new [1] [2] 2"]
    by (auto simp: unordered_new_def)
  moreover have "unordered_run example_crypto (unordered_new [2] [1] 2)
      (map (\<lambda>i. (snd (ms ! i), fst (ms ! i))) [1, 0, 2]) = map (\<lambda>i. Ok ([[10], [20], [30]] ! i)) [1, 0, 2]"
    by (rule unordered_crypter_any_order [OF example_aead(1) _ e]) auto
  ultimately show ?thesis by auto
qed

text \<open>
  The replay window needs bounded memory: after any sequence of packets the crypter
  remembers at most as many nonces as its window size.
\<close>

theorem unordered_crypter_window_bounded:
  assumes "0 < w"
  shows "card (buffered_read_nonces (unordered_state C (unordered_new rk wk w) ms)) \<le> unat w"
  using window_inv_card [OF window_inv_state [OF window_inv_new [OF assms]], of C rk wk ms]
  by (simp add: unordered_state_frame unordered_new_def)

theorem unordered_crypter_window_bounded_witness:
  "card (buffered_read_nonces (unordered_state example_crypto (unordered_new [1] [2] 4) [([0], [1])])) \<le> 4"
  using unordered_crypter_window_bounded [of 4 example_crypto "[1]" "[2]" "[([0], [1])]"] by simp

text \<open>
  C31. The window moves before a packet is authenticated: a forged packet that does not
  decrypt, with a nonce value far ahead, makes a fresh crypter reject the honest packets
  whose nonces are now behind the window.
\<close>

theorem unordered_crypter_forgery_moves_window:
  assumes "0 < w" "unat w \<le> unat v" "get_nonce_value iv = Ok v"
    and "aes_gcm_256_decrypt C rk iv forged = Err e"
    and "get_nonce_value iv' = Ok u" "unat u \<le> unat v - unat w"
  shows "unordered_run C (unordered_new rk wk w) [(iv, forged), (iv', ct)] = [Err e, Err InvalidNonce]"
proof -
  let ?c = "unordered_new rk wk w"
  have v0: "v \<noteq> 0" using assms(1,2) by (auto simp: word_less_nat_alt)
  then have ns: "\<not> nonce_spent ?c v"
    by (auto simp: nonce_spent_def unordered_new_def get_lowest_acceptable_read_nonce_def
        word_less_nat_alt unat_eq_0)
  from unordered_decrypt_fresh [OF assms(3) ns, of C forged] obtain c' where
    d: "unordered_decrypt C ?c iv forged = (c', Err e)" and f: "furthest_read_nonce c' = v"
    using assms(4) by (auto simp: unordered_new_def)
  have w': "window_size c' = w" using unordered_decrypt_frame [OF d] by (simp add: unordered_new_def)
  have "u < get_lowest_acceptable_read_nonce c'"
    using unat_lowest [of c'] assms(1,2,6) w' f by (auto simp: word_less_nat_alt)
  then have "unordered_decrypt C c' iv' ct = (c', Err InvalidNonce)"
    using assms(5) by (simp add: unordered_decrypt_def)
  with d show ?thesis by simp
qed

theorem unordered_crypter_forgery_moves_window_witness:
  "unordered_run example_crypto (unordered_new [1] [2] 4)
    [([0, 0, 0, 0, 0, 0, 0, 0, 0, 0, 0, 9], [66]), ([0, 0, 0, 0, 0, 0, 0, 0, 0, 0, 0, 1], [0, 0, 0, 0, 0, 0, 0, 0, 0, 0, 0, 1] @ [9, 0])] = [Err DecryptFailed, Err InvalidNonce]"
  by (rule unordered_crypter_forgery_moves_window [where v = 9 and u = 1]) (simp_all add: example_eval)

text \<open>
  Padding: what AES-GCM seals is a multiple of 32 bytes, longer than the message by at
  most 32 bytes, and decryption of the sealed bytes returns the message.
\<close>

theorem padded_encryption_round_trip:
  assumes "aead_correct C" "aes_gcm_256_encrypt C k iv p = Ok ct"
  shows "aes_gcm_256_decrypt C k iv ct = Ok p \<and> 32 dvd length (pad_plaintext p)
    \<and> length p < length (pad_plaintext p) \<and> length (pad_plaintext p) \<le> length p + 32"
proof -
  have "length p \<le> 2 ^ 28"
    using assms(2) by (auto simp: aes_gcm_256_encrypt_def split: if_splits)
  with aes_gcm_256_round_trip [OF assms] padded_length_bounds [of "length p"] show ?thesis
    by (auto simp: pad_plaintext_def Let_def)
qed

theorem padded_encryption_round_trip_witness:
  "\<exists>ct. aes_gcm_256_encrypt example_crypto [7] [8] [1, 2, 3] = Ok ct
    \<and> aes_gcm_256_decrypt example_crypto [7] [8] ct = Ok [1, 2, 3]"
proof -
  obtain ct where e: "aes_gcm_256_encrypt example_crypto [7] [8] [1, 2, 3] = Ok ct"
    using aes_gcm_256_encrypt_total [OF example_aead(2), of "[1, 2, 3]"] by auto
  from padded_encryption_round_trip [OF example_aead(1) e] e show ?thesis by blast
qed

end
