(* ===== verification/Noise_Handshake.thy ===== *)
theory Noise_Handshake
  imports Noise_Crypter
begin

unbundle bit_operations_syntax

section \<open>The Noise handshake\<close>

text \<open>
  Models \<^verbatim>\<open>oak_crypto/src/noise_handshake/{noise,client,mod,crypto_wrapper}.rs\<close> and
  \<^verbatim>\<open>identity_key.rs\<close>: the symmetric state, the initiator and the responders of the NN, NK and
  KK patterns. A scalar is its 32-byte representation; the random bytes of an ephemeral key
  are an argument of the function that generates the key. The theorems show that honest
  peers finish every pattern with the same handshake hash and with crossed traffic keys.
\<close>

text \<open>The values that error messages of the crates format.\<close>

datatype fmt_arg = FmtNoise noise_error | FmtStr string | FmtNat nat | FmtBytes bytes

type_synonym error = "fmt_arg anyhow"


subsection \<open>The crypto wrapper\<close>

definition MANDATORY_SESSION_BINDING_INFO :: bytes where
  "MANDATORY_SESSION_BINDING_INFO = str_bytes ''11947944922982068094''"

definition sha256 :: "'x crypto_scheme \<Rightarrow> bytes \<Rightarrow> bytes" where
  "sha256 C input = sha256_digest C input"

definition sha256_two_part :: "'x crypto_scheme \<Rightarrow> bytes \<Rightarrow> bytes \<Rightarrow> bytes" where
  "sha256_two_part C input1 input2 = sha256_digest C (input1 @ input2)"

definition session_binding_token_hash :: "'x crypto_scheme \<Rightarrow> bytes \<Rightarrow> bytes \<Rightarrow> bytes" where
  "session_binding_token_hash C hash info =
     (let info_hash = sha256_digest C info
      in sha256_digest C (hash @ info_hash @ MANDATORY_SESSION_BINDING_INFO))"

definition hkdf_sha256 :: "'x crypto_scheme \<Rightarrow> bytes \<Rightarrow> bytes \<Rightarrow> bytes \<Rightarrow> nat \<Rightarrow> (bytes, unit) result" where
  "hkdf_sha256 C ikm salt info len = ok_or () (hkdf_expand C salt ikm info len)"

datatype p256_scalar = P256Scalar (scalar_bytes: bytes)

definition scalar_from_bytes :: "'x crypto_scheme \<Rightarrow> bytes \<Rightarrow> (p256_scalar, 'e) result" where
  "scalar_from_bytes C bs = (if scalar_in_range C bs then Ok (P256Scalar bs) else Panic)"

text \<open>The generated scalar, from the bytes \<open>rand_bytes\<close> delivers.\<close>

definition scalar_generate :: "'x crypto_scheme \<Rightarrow> bytes \<Rightarrow> (p256_scalar, 'e) result" where
  "scalar_generate C rand = scalar_from_bytes C rand"

definition scalar_try_from :: "'x crypto_scheme \<Rightarrow> bytes \<Rightarrow> (p256_scalar, unit) result" where
  "scalar_try_from C bs =
     (if length bs \<noteq> P256_SCALAR_LEN then Err ()
      else if \<not> scalar_in_range C bs then Err ()
      else if list_all (\<lambda>b. b = 0) bs then Err ()
      else Ok (P256Scalar bs))"

definition compute_public_key :: "'x crypto_scheme \<Rightarrow> p256_scalar \<Rightarrow> (bytes, 'e) result" where
  "compute_public_key C s =
     (let p = mul_by_generator C (scalar_bytes s)
      in if length p = P256_X962_LEN then Ok p else Panic)"

definition p256_scalar_mult :: "'x crypto_scheme \<Rightarrow> p256_scalar \<Rightarrow> bytes \<Rightarrow> (bytes, unit) result" where
  "p256_scalar_mult C s point = ok_or () (mul_point_x C (scalar_bytes s) point)"


subsection \<open>Identity keys\<close>

text \<open>The trait object \<open>dyn IdentityKeyHandle\<close>.\<close>

record identity_key_handle =
  get_public_key :: "(bytes, error) result"
  derive_dh_secret :: "bytes \<Rightarrow> (bytes, error) result"

datatype identity_key = IdentityKey (private_key: p256_scalar)

definition identity_key_generate :: "'x crypto_scheme \<Rightarrow> bytes \<Rightarrow> (identity_key, 'e) result" where
  "identity_key_generate C rand = map_ok IdentityKey (scalar_generate C rand)"

definition identity_key_from_bytes :: "'x crypto_scheme \<Rightarrow> bytes \<Rightarrow> (identity_key, 'e) result" where
  "identity_key_from_bytes C bs = map_ok IdentityKey (scalar_from_bytes C bs)"

definition key_get_public_key :: "'x crypto_scheme \<Rightarrow> identity_key \<Rightarrow> (bytes, error) result" where
  "key_get_public_key C k = compute_public_key C (private_key k)"

definition key_derive_dh_secret :: "'x crypto_scheme \<Rightarrow> identity_key \<Rightarrow> bytes \<Rightarrow> (bytes, error) result" where
  "key_derive_dh_secret C k peer_public_key =
     (if length peer_public_key \<noteq> P256_X962_LEN then Err (Msg ''invalid peer public key'')
      else map_err (\<lambda>_. Msg ''error deriving the DH secret'')
             (p256_scalar_mult C (private_key k) peer_public_key))"

definition identity_key_handle_of :: "'x crypto_scheme \<Rightarrow> identity_key \<Rightarrow> identity_key_handle" where
  "identity_key_handle_of C k =
     \<lparr>get_public_key = key_get_public_key C k, derive_dh_secret = key_derive_dh_secret C k\<rparr>"


subsection \<open>The symmetric state\<close>

datatype noise_pattern = Nk | Nn | Kk

record noise_state =
  chaining_key :: bytes
  noise_h :: bytes
  symmetric_key :: bytes
  symmetric_nonce :: u32

definition hkdf2 :: "'x crypto_scheme \<Rightarrow> bytes \<Rightarrow> bytes \<Rightarrow> (bytes \<times> bytes, 'e) result" where
  "hkdf2 C ck ikm =
     (case hkdf_sha256 C ikm ck [] (SHA256_OUTPUT_LEN * 2) of
        Ok output \<Rightarrow> Ok (take SYMMETRIC_KEY_LEN output, drop SYMMETRIC_KEY_LEN output)
      | Err _ \<Rightarrow> Panic
      | Panic \<Rightarrow> Panic)"

definition protocol_name :: "noise_pattern \<Rightarrow> bytes" where
  "protocol_name t = str_bytes
     (case t of Nk \<Rightarrow> ''Noise_NK_P256_AESGCM_SHA256''
      | Nn \<Rightarrow> ''Noise_NN_P256_AESGCM_SHA256''
      | Kk \<Rightarrow> ''Noise_KK_P256_AESGCM_SHA256'')"

definition noise_new :: "noise_pattern \<Rightarrow> noise_state" where
  "noise_new t =
     (let chaining_key_in = protocol_name t @ replicate (SYMMETRIC_KEY_LEN - length (protocol_name t)) 0
      in \<lparr>chaining_key = chaining_key_in, noise_h = chaining_key_in,
          symmetric_key = replicate SYMMETRIC_KEY_LEN 0, symmetric_nonce = 0\<rparr>)"

definition mix_hash :: "'x crypto_scheme \<Rightarrow> bytes \<Rightarrow> noise_state \<Rightarrow> noise_state" where
  "mix_hash C in_data n = n\<lparr>noise_h := sha256_two_part C (noise_h n) in_data\<rparr>"

definition mix_hash_point :: "'x crypto_scheme \<Rightarrow> bytes \<Rightarrow> noise_state \<Rightarrow> noise_state" where
  "mix_hash_point C point n = mix_hash C point n"

definition initialize_key :: "bytes \<Rightarrow> noise_state \<Rightarrow> noise_state" where
  "initialize_key key n = n\<lparr>symmetric_key := key, symmetric_nonce := 0\<rparr>"

definition mix_key :: "'x crypto_scheme \<Rightarrow> bytes \<Rightarrow> noise_state \<Rightarrow> noise_state \<times> (unit, 'e) result" where
  "mix_key C ikm n =
     bind_st (n, hkdf2 C (chaining_key n) ikm)
       (\<lambda>n (ck, k). (initialize_key k (n\<lparr>chaining_key := ck\<rparr>), Ok ()))"

definition handshake_next_nonce :: "noise_state \<Rightarrow> noise_state \<times> bytes" where
  "handshake_next_nonce n =
     (let v = symmetric_nonce n
      in (n\<lparr>symmetric_nonce := v + 1\<rparr>,
          [ucast (drop_bit 24 v), ucast (drop_bit 16 v), ucast (drop_bit 8 v), ucast v]
            @ replicate (NONCE_LEN - 4) 0))"

definition encrypt_and_hash ::
  "'x crypto_scheme \<Rightarrow> noise_state \<Rightarrow> bytes \<Rightarrow> noise_state \<times> (bytes, noise_error) result" where
  "encrypt_and_hash C n plaintext =
     (case handshake_next_nonce n of
        (n1, iv) \<Rightarrow>
          (case aes_256_gcm_seal_in_place C (symmetric_key n1) iv (noise_h n1) plaintext of
             Ok encrypted_data \<Rightarrow> (mix_hash C encrypted_data n1, Ok encrypted_data)
           | Err e \<Rightarrow> (n1, Err e)
           | Panic \<Rightarrow> (n1, Panic)))"

definition decrypt_and_hash ::
  "'x crypto_scheme \<Rightarrow> noise_state \<Rightarrow> bytes \<Rightarrow> noise_state \<times> (bytes, noise_error) result" where
  "decrypt_and_hash C n ciphertext =
     (let hash = noise_h n; n1 = mix_hash C ciphertext n in
      case handshake_next_nonce n1 of
        (n2, iv) \<Rightarrow>
          (n2, map_err (\<lambda>_. DecryptFailed)
                 (aes_256_gcm_open_in_place C (symmetric_key n2) iv hash ciphertext)))"

definition handshake_hash :: "noise_state \<Rightarrow> bytes" where
  "handshake_hash n = noise_h n"

definition traffic_keys :: "'x crypto_scheme \<Rightarrow> noise_state \<Rightarrow> (bytes \<times> bytes, 'e) result" where
  "traffic_keys C n = hkdf2 C (chaining_key n) []"


subsection \<open>The initiator\<close>

record noise_message =
  ephemeral_public_key :: bytes
  noise_ciphertext :: bytes

record initiator =
  noise :: noise_state
  peer_identity_pub_key :: "bytes option"
  self_identity_priv_key :: "identity_key_handle option"
  ephemeral_priv_key :: p256_scalar

definition initiator_new_nk :: "'x crypto_scheme \<Rightarrow> bytes \<Rightarrow> bytes \<Rightarrow> (initiator, 'e) result" where
  "initiator_new_nk C peer_public_key rand =
     map_ok (\<lambda>s. \<lparr>noise = noise_new Nk, peer_identity_pub_key = Some peer_public_key,
                  self_identity_priv_key = None, ephemeral_priv_key = s\<rparr>)
       (scalar_generate C rand)"

definition initiator_new_nn :: "'x crypto_scheme \<Rightarrow> bytes \<Rightarrow> (initiator, 'e) result" where
  "initiator_new_nn C rand =
     map_ok (\<lambda>s. \<lparr>noise = noise_new Nn, peer_identity_pub_key = None,
                  self_identity_priv_key = None, ephemeral_priv_key = s\<rparr>)
       (scalar_generate C rand)"

definition initiator_new_kk ::
  "'x crypto_scheme \<Rightarrow> bytes \<Rightarrow> identity_key_handle \<Rightarrow> bytes \<Rightarrow> (initiator, 'e) result" where
  "initiator_new_kk C peer_public_key self_priv_key rand =
     map_ok (\<lambda>s. \<lparr>noise = noise_new Kk, peer_identity_pub_key = Some peer_public_key,
                  self_identity_priv_key = Some self_priv_key, ephemeral_priv_key = s\<rparr>)
       (scalar_generate C rand)"

text \<open>A method call on the field \<open>self.noise\<close>.\<close>

definition on_noise ::
  "(noise_state \<Rightarrow> noise_state \<times> ('a, 'e) result) \<Rightarrow> initiator \<Rightarrow> initiator \<times> ('a, 'e) result" where
  "on_noise f i = (case f (noise i) of (n, r) \<Rightarrow> (i\<lparr>noise := n\<rparr>, r))"

definition build_initial_message ::
  "'x crypto_scheme \<Rightarrow> initiator \<Rightarrow> initiator \<times> (noise_message, noise_error) result" where
  "build_initial_message C i =
     (let i1 = i\<lparr>noise := mix_hash C [0] (noise i)\<rparr>;
          i2 = (case peer_identity_pub_key i1 of
                  Some k \<Rightarrow> i1\<lparr>noise := mix_hash_point C k (noise i1)\<rparr>
                | None \<Rightarrow> i1) in
      bind_st (i2, compute_public_key C (ephemeral_priv_key i2)) (\<lambda>i e.
      bind_st (on_noise (mix_key C e) (i\<lparr>noise := mix_hash C e (noise i)\<rparr>)) (\<lambda>i _.
      bind_st (case peer_identity_pub_key i of
                 None \<Rightarrow> (i, Ok ())
               | Some k \<Rightarrow>
                   bind_st (i, map_err (\<lambda>_. InvalidHandshake) (p256_scalar_mult C (ephemeral_priv_key i) k))
                     (\<lambda>i es. on_noise (mix_key C es) i)) (\<lambda>i _.
      bind_st (case self_identity_priv_key i of
                 None \<Rightarrow> (i, Ok ())
               | Some self_priv_key \<Rightarrow>
                   (case peer_identity_pub_key i of
                      Some k \<Rightarrow>
                        bind_st (i, map_err (\<lambda>_. InvalidHandshake) (derive_dh_secret self_priv_key k))
                          (\<lambda>i ss. on_noise (mix_key C ss) i)
                    | None \<Rightarrow> (i, Err MissingPeerPublicKey))) (\<lambda>i _.
      bind_st (on_noise (\<lambda>n. encrypt_and_hash C n []) i) (\<lambda>i ct.
      (i, Ok \<lparr>ephemeral_public_key = e, noise_ciphertext = ct\<rparr>)))))))"

definition process_response ::
  "'x crypto_scheme \<Rightarrow> initiator \<Rightarrow> noise_message \<Rightarrow>
     initiator \<times> (bytes \<times> ordered_crypter, noise_error) result" where
  "process_response C i response =
     (let re = ephemeral_public_key response in
      bind_st (i, if length re \<noteq> P256_X962_LEN then Err DecryptFailed
                  else map_err (\<lambda>_. InvalidHandshake) (p256_scalar_mult C (ephemeral_priv_key i) re)) (\<lambda>i ee.
      bind_st (on_noise (mix_key C re) (i\<lparr>noise := mix_hash C re (noise i)\<rparr>)) (\<lambda>i _.
      bind_st (on_noise (mix_key C ee) i) (\<lambda>i _.
      bind_st (case self_identity_priv_key i of
                 None \<Rightarrow> (i, Ok ())
               | Some self_priv_key \<Rightarrow>
                   bind_st (i, map_err (\<lambda>_. InvalidHandshake) (derive_dh_secret self_priv_key re))
                     (\<lambda>i se. on_noise (mix_key C se) i)) (\<lambda>i _.
      bind_st (on_noise (\<lambda>n. decrypt_and_hash C n (noise_ciphertext response)) i) (\<lambda>i plaintext.
      if length plaintext \<noteq> 0 then (i, Panic)
      else bind_st (i, traffic_keys C (noise i)) (\<lambda>i (write_key, read_key).
        (i, Ok (handshake_hash (noise i), ordered_new read_key write_key)))))))))"


subsection \<open>The responders\<close>

record noise_response =
  response_crypter :: ordered_crypter
  response_hash :: bytes
  response_message :: noise_message

definition finish_response ::
  "'x crypto_scheme \<Rightarrow> noise_state \<Rightarrow> noise_message \<Rightarrow> bytes option \<Rightarrow> bytes \<Rightarrow>
     noise_state \<times> (noise_response, noise_error) result" where
  "finish_response C n in_message initiator_static_pub rand =
     (let ie = ephemeral_public_key in_message in
      bind_st (decrypt_and_hash C n (noise_ciphertext in_message)) (\<lambda>n plaintext.
      if plaintext \<noteq> [] then (n, Err InvalidHandshake)
      else
      bind_st (n, scalar_generate C rand) (\<lambda>n ephemeral_priv.
      bind_st (n, compute_public_key C ephemeral_priv) (\<lambda>n e.
      bind_st (mix_key C e (mix_hash C e n)) (\<lambda>n _.
      bind_st (n, if length ie \<noteq> P256_X962_LEN then Err InvalidPublicKey
                  else map_err (\<lambda>_. InvalidHandshake) (p256_scalar_mult C ephemeral_priv ie)) (\<lambda>n ee.
      bind_st (mix_key C ee n) (\<lambda>n _.
      bind_st (case initiator_static_pub of
                 None \<Rightarrow> (n, Ok ())
               | Some s \<Rightarrow>
                   bind_st (n, identity_key_from_bytes C (scalar_bytes ephemeral_priv)) (\<lambda>n ephemeral_identity.
                   bind_st (n, map_err (\<lambda>_. InvalidHandshake) (key_derive_dh_secret C ephemeral_identity s))
                     (\<lambda>n se. mix_key C se n))) (\<lambda>n _.
      bind_st (encrypt_and_hash C n []) (\<lambda>n ct.
      bind_st (n, traffic_keys C n) (\<lambda>n keys.
      (n, Ok \<lparr>response_crypter = ordered_new (fst keys) (snd keys),
             response_hash = handshake_hash n,
             response_message = \<lparr>ephemeral_public_key = e, noise_ciphertext = ct\<rparr>\<rparr>)))))))))))"

definition respond_nk ::
  "'x crypto_scheme \<Rightarrow> identity_key_handle \<Rightarrow> noise_message \<Rightarrow> bytes \<Rightarrow> (noise_response, noise_error) result" where
  "respond_nk C identity_key in_message rand =
     (let n = mix_hash C [0] (noise_new Nk); ie = ephemeral_public_key in_message in
      snd (bind_st (n, map_err (\<lambda>_. InvalidPrivateKey) (get_public_key identity_key)) (\<lambda>n s.
           bind_st (mix_key C ie (mix_hash C ie (mix_hash_point C s n))) (\<lambda>n _.
           bind_st (n, map_err (\<lambda>_. InvalidHandshake) (derive_dh_secret identity_key ie)) (\<lambda>n es.
           bind_st (mix_key C es n) (\<lambda>n _.
           finish_response C n in_message None rand))))))"

definition respond_nn ::
  "'x crypto_scheme \<Rightarrow> noise_message \<Rightarrow> bytes \<Rightarrow> (noise_response, noise_error) result" where
  "respond_nn C in_message rand =
     (let n = mix_hash C [0] (noise_new Nn); ie = ephemeral_public_key in_message in
      snd (bind_st (mix_key C ie (mix_hash C ie n)) (\<lambda>n _.
           finish_response C n in_message None rand)))"

definition respond_kk ::
  "'x crypto_scheme \<Rightarrow> identity_key_handle \<Rightarrow> bytes \<Rightarrow> noise_message \<Rightarrow> bytes \<Rightarrow>
     (noise_response, noise_error) result" where
  "respond_kk C identity_priv initiator_static_pub in_message rand =
     (let n = mix_hash C [0] (noise_new Kk); ie = ephemeral_public_key in_message in
      snd (bind_st (n, map_err (\<lambda>_. InvalidPrivateKey) (get_public_key identity_priv)) (\<lambda>n s.
           bind_st (mix_key C ie (mix_hash C ie (mix_hash_point C s n))) (\<lambda>n _.
           bind_st (n, map_err (\<lambda>_. InvalidHandshake) (derive_dh_secret identity_priv ie)) (\<lambda>n es.
           bind_st (mix_key C es n) (\<lambda>n _.
           bind_st (n, if length initiator_static_pub \<noteq> P256_X962_LEN then Err InvalidPublicKey
                       else Ok initiator_static_pub) (\<lambda>n is.
           bind_st (n, map_err (\<lambda>_. InvalidHandshake) (derive_dh_secret identity_priv is)) (\<lambda>n ss.
           bind_st (mix_key C ss n) (\<lambda>n _.
           finish_response C n in_message (Some is) rand)))))))))"


subsection \<open>Assumptions on the primitives\<close>

text \<open>HKDF-SHA256 delivers up to 255 blocks of output.\<close>

definition hkdf_total :: "'x crypto_scheme \<Rightarrow> bool" where
  "hkdf_total C \<longleftrightarrow> (\<forall>salt ikm info n. n \<le> 255 * 32 \<longrightarrow> hkdf_expand C salt ikm info n \<noteq> None)"

text \<open>The bytes of a non-zero scalar: its public key has the uncompressed encoding.\<close>

definition key_scalar :: "'x crypto_scheme \<Rightarrow> bytes \<Rightarrow> bool" where
  "key_scalar C a \<longleftrightarrow> scalar_in_range C a \<and> length (mul_by_generator C a) = P256_X962_LEN"

text \<open>Diffie-Hellman on P-256: both sides compute the same shared secret.\<close>

definition dh_correct :: "'x crypto_scheme \<Rightarrow> bool" where
  "dh_correct C \<longleftrightarrow> (\<forall>a b. key_scalar C a \<longrightarrow> key_scalar C b \<longrightarrow>
     (\<exists>x. mul_point_x C a (mul_by_generator C b) = Some x \<and> mul_point_x C b (mul_by_generator C a) = Some x))"

definition primitives_correct :: "'x crypto_scheme \<Rightarrow> bool" where
  "primitives_correct C \<longleftrightarrow> aead_correct C \<and> aead_total C \<and> hkdf_total C \<and> dh_correct C"

text \<open>
  What a finished handshake gives the initiator, against the responder's result: the same
  handshake hash and the two traffic keys the other way round.
\<close>

definition handshake_agrees :: "noise_response \<Rightarrow> bytes \<times> ordered_crypter \<Rightarrow> bool" where
  "handshake_agrees r out \<longleftrightarrow> fst out = response_hash r \<and>
     (\<exists>k1 k2. response_crypter r = ordered_new k1 k2 \<and> snd out = ordered_new k2 k1)"

text \<open>The symmetric state after \<open>mix_key\<close>.\<close>

definition mixed :: "'x crypto_scheme \<Rightarrow> bytes \<Rightarrow> noise_state \<Rightarrow> noise_state" where
  "mixed C ikm n = fst (mix_key C ikm n :: noise_state \<times> (unit, noise_error) result)"


subsection \<open>Properties of the symmetric state\<close>

lemma seal_open:
  "aead_correct C \<Longrightarrow> aes_256_gcm_seal_in_place C k iv a p = Ok ct \<Longrightarrow> aes_256_gcm_open_in_place C k iv a ct = Ok p"
  by (simp add: aead_correct_def aes_256_gcm_seal_in_place_def aes_256_gcm_open_in_place_def)

lemma encrypt_and_hash_Ok_iff:
  "encrypt_and_hash C n p = (n', Ok ct) \<longleftrightarrow>
     aes_256_gcm_seal_in_place C (symmetric_key n) (snd (handshake_next_nonce n)) (noise_h n) p = Ok ct \<and>
     n' = mix_hash C ct (fst (handshake_next_nonce n))"
  by (auto simp: encrypt_and_hash_def handshake_next_nonce_def Let_def split: result.splits)

lemma decrypt_and_hash_eq:
  "decrypt_and_hash C n ct =
     (mix_hash C ct (fst (handshake_next_nonce n)),
      map_err (\<lambda>_. DecryptFailed)
        (aes_256_gcm_open_in_place C (symmetric_key n) (snd (handshake_next_nonce n)) (noise_h n) ct))"
  by (simp add: decrypt_and_hash_def handshake_next_nonce_def mix_hash_def Let_def)

text \<open>The handshake payloads travel over an ordered channel between equal states.\<close>

interpretation handshake_stream: ordered_channel
  "encrypt_and_hash C" "decrypt_and_hash C" "\<lambda>s r. aead_correct C \<and> s = r" "\<lambda>p. p" for C
  by unfold_locales (auto simp: encrypt_and_hash_Ok_iff decrypt_and_hash_eq seal_open)

lemma encrypt_and_hash_total:
  "aead_total C \<Longrightarrow> length p \<le> 2 ^ 28 \<Longrightarrow> \<exists>n' ct. encrypt_and_hash C n p = (n', Ok ct)"
  unfolding encrypt_and_hash_Ok_iff
  by (simp add: aead_total_def aes_256_gcm_seal_in_place_def)

lemma hkdf2_total:
  assumes "hkdf_total C"
  shows "\<exists>k1 k2. hkdf2 C ck ikm = Ok (k1, k2)"
proof -
  obtain out where "hkdf_expand C ck ikm [] (SHA256_OUTPUT_LEN * 2) = Some out"
    using assms by (fastforce simp: hkdf_total_def SHA256_OUTPUT_LEN_def)
  then show ?thesis by (simp add: hkdf2_def hkdf_sha256_def)
qed

lemma mix_key_total: "hkdf_total C \<Longrightarrow> mix_key C ikm n = (mixed C ikm n, Ok ())"
  using hkdf2_total [of C "chaining_key n" ikm]
  by (auto simp: mixed_def mix_key_def hkdf2_def split: result.splits)

lemma dh_correctE:
  assumes "dh_correct C" "key_scalar C a" "key_scalar C b"
  obtains x where "mul_point_x C a (mul_by_generator C b) = Some x" "mul_point_x C b (mul_by_generator C a) = Some x"
  using assms unfolding dh_correct_def by blast

lemmas handshake_eval = on_noise_def scalar_generate_def scalar_from_bytes_def compute_public_key_def
  p256_scalar_mult_def identity_key_from_bytes_def key_derive_dh_secret_def key_get_public_key_def
  identity_key_handle_of_def mix_hash_point_def


subsection \<open>The second message\<close>

lemma second_message_agrees:
  assumes "primitives_correct C" "key_scalar C ea" "key_scalar C eb"
    and enc: "encrypt_and_hash C n [] = (n1, Ok ct)"
    and i: "noise i = n1" "ephemeral_priv_key i = P256Scalar ea"
    and static: "case self_identity_priv_key i of None \<Rightarrow> st = None
      | Some sk \<Rightarrow> (\<exists>s x. st = Some s \<and> length s = P256_X962_LEN \<and> mul_point_x C eb s = Some x \<and>
          derive_dh_secret sk (mul_by_generator C eb) = Ok x)"
  shows "\<exists>n2 r i' out.
    finish_response C n \<lparr>ephemeral_public_key = mul_by_generator C ea, noise_ciphertext = ct\<rparr> st eb = (n2, Ok r) \<and>
    process_response C i (response_message r) = (i', Ok out) \<and> handshake_agrees r out"
proof -
  from assms(1) have C: "aead_correct C" "aead_total C" "hkdf_total C" "dh_correct C"
    by (auto simp: primitives_correct_def)
  from C(4) assms(2,3) obtain x where
    x: "mul_point_x C ea (mul_by_generator C eb) = Some x" "mul_point_x C eb (mul_by_generator C ea) = Some x"
    by (rule dh_correctE)
  from handshake_stream.deliver [OF _ enc] C(1) have dec: "decrypt_and_hash C n ct = (n1, Ok [])" by auto
  let ?n = "mixed C x (mixed C (mul_by_generator C eb) (mix_hash C (mul_by_generator C eb) n1))"
  obtain n3 where n3: "n3 = (case self_identity_priv_key i of None \<Rightarrow> ?n
      | Some sk \<Rightarrow> (case derive_dh_secret sk (mul_by_generator C eb) of Ok y \<Rightarrow> mixed C y ?n | _ \<Rightarrow> ?n))" by simp
  obtain n4 ct' where enc': "encrypt_and_hash C n3 [] = (n4, Ok ct')"
    using encrypt_and_hash_total [OF C(2), of "[]" n3] by auto
  from handshake_stream.deliver [OF _ enc'] C(1) have dec': "decrypt_and_hash C n3 ct' = (n4, Ok [])" by auto
  obtain k1 k2 where k: "hkdf2 C (chaining_key n4) [] = (Ok (k1, k2) :: (bytes \<times> bytes, noise_error) result)"
    using hkdf2_total [OF C(3)] by blast
  note eval = handshake_eval mix_key_total [OF C(3)] x dec i traffic_keys_def k Let_def
  let ?r = "\<lparr>response_crypter = ordered_new k1 k2, response_hash = handshake_hash n4,
    response_message = \<lparr>ephemeral_public_key = mul_by_generator C eb, noise_ciphertext = ct'\<rparr>\<rparr>"
  have "finish_response C n \<lparr>ephemeral_public_key = mul_by_generator C ea, noise_ciphertext = ct\<rparr> st eb = (n4, Ok ?r)
    \<and> process_response C i (response_message ?r) = (i\<lparr>noise := n4\<rparr>, Ok (handshake_hash n4, ordered_new k2 k1))"
  proof (cases "self_identity_priv_key i")
    case None
    with static n3 have "st = None" "n3 = ?n" by auto
    with assms(2,3) None enc' dec' show ?thesis
      by (simp add: finish_response_def process_response_def key_scalar_def eval)
  next
    case (Some sk)
    with static n3 obtain s y where "st = Some s" "length s = P256_X962_LEN" "mul_point_x C eb s = Some y"
      "derive_dh_secret sk (mul_by_generator C eb) = Ok y" "n3 = mixed C y ?n" by auto
    with assms(2,3) Some enc' dec' show ?thesis
      by (simp add: finish_response_def process_response_def key_scalar_def eval)
  qed
  then show ?thesis by (fastforce simp: handshake_agrees_def)
qed


lemma le_value_less_length: "length bs = 32 \<Longrightarrow> le_value bs < 256 ^ 32"
  using le_value_bound [of bs] by simp

lemma example_primitives_correct: "primitives_correct example_crypto"
proof -
  have "dh_correct example_crypto"
    by (auto simp: dh_correct_def key_scalar_def example_crypto_def mult.commute le_value_le_bytes
        dest!: le_value_less_length)
  moreover have "hkdf_total example_crypto" by (simp add: hkdf_total_def example_crypto_def)
  ultimately show ?thesis by (simp add: primitives_correct_def example_aead)
qed

lemma example_key_scalar: "key_scalar example_crypto (replicate 32 b)"
  by (simp add: key_scalar_def example_crypto_def P256_X962_LEN_def)

subsection \<open>The patterns\<close>

lemma nn_agreement:
  assumes "primitives_correct C" "key_scalar C ea" "key_scalar C eb"
  shows "\<exists>i m i1 r i2 out. initiator_new_nn C ea = Ok i \<and> build_initial_message C i = (i1, Ok m) \<and>
    respond_nn C m eb = Ok r \<and> process_response C i1 (response_message r) = (i2, Ok out) \<and>
    handshake_agrees r out"
proof -
  from assms(1) have C: "aead_total C" "hkdf_total C" by (auto simp: primitives_correct_def)
  let ?e = "mul_by_generator C ea"
  let ?n = "mixed C ?e (mix_hash C ?e (mix_hash C [0] (noise_new Nn)))"
  obtain n1 ct where enc: "encrypt_and_hash C ?n [] = (n1, Ok ct)"
    using encrypt_and_hash_total [OF C(1), of "[]" ?n] by auto
  note eval = handshake_eval mix_key_total [OF C(2)] enc
  let ?i = "\<lparr>noise = noise_new Nn, peer_identity_pub_key = None,
    self_identity_priv_key = None, ephemeral_priv_key = P256Scalar ea\<rparr>"
  have new: "initiator_new_nn C ea = Ok ?i"
    using assms(2) by (simp add: initiator_new_nn_def key_scalar_def eval)
  have init: "build_initial_message C ?i = (?i\<lparr>noise := n1\<rparr>, Ok \<lparr>ephemeral_public_key = ?e, noise_ciphertext = ct\<rparr>)"
    using assms(2) by (simp add: build_initial_message_def key_scalar_def eval Let_def)
  from second_message_agrees [OF assms enc, of "?i\<lparr>noise := n1\<rparr>" None] obtain n2 r i2 out where
    "finish_response C ?n \<lparr>ephemeral_public_key = ?e, noise_ciphertext = ct\<rparr> None eb = (n2, Ok r)"
    and rest: "process_response C (?i\<lparr>noise := n1\<rparr>) (response_message r) = (i2, Ok out)" "handshake_agrees r out"
    by auto
  then have "respond_nn C \<lparr>ephemeral_public_key = ?e, noise_ciphertext = ct\<rparr> eb = Ok r"
    by (simp add: respond_nn_def eval Let_def)
  with new init rest show ?thesis by blast
qed

text \<open>
  NN: for all ephemeral keys, an initiator and a responder that exchange their two
  messages finish with the same handshake hash and with crossed traffic keys.
\<close>

theorem nn_handshake_agrees:
  assumes "primitives_correct C" "key_scalar C ea" "key_scalar C eb"
  shows "\<exists>i m i1 r i2 out. initiator_new_nn C ea = Ok i \<and> build_initial_message C i = (i1, Ok m) \<and>
    respond_nn C m eb = Ok r \<and> process_response C i1 (response_message r) = (i2, Ok out) \<and>
    handshake_agrees r out"
  using assms by (rule nn_agreement)

theorem nn_handshake_agrees_witness:
  "\<exists>i m i1 r i2 out. initiator_new_nn example_crypto (replicate 32 3) = Ok i \<and> build_initial_message example_crypto i = (i1, Ok m) \<and>
    respond_nn example_crypto m (replicate 32 5) = Ok r \<and> process_response example_crypto i1 (response_message r) = (i2, Ok out) \<and>
    handshake_agrees r out"
  by (rule nn_handshake_agrees) (rule example_primitives_correct example_key_scalar)+

lemma nk_agreement:
  assumes "primitives_correct C" "key_scalar C ea" "key_scalar C eb" "key_scalar C sb"
  shows "\<exists>i m i1 r i2 out. initiator_new_nk C (mul_by_generator C sb) ea = Ok i \<and>
    build_initial_message C i = (i1, Ok m) \<and>
    respond_nk C (identity_key_handle_of C (IdentityKey (P256Scalar sb))) m eb = Ok r \<and>
    process_response C i1 (response_message r) = (i2, Ok out) \<and> handshake_agrees r out"
proof -
  from assms(1) have C: "aead_total C" "hkdf_total C" "dh_correct C" by (auto simp: primitives_correct_def)
  let ?e = "mul_by_generator C ea" and ?s = "mul_by_generator C sb"
  from C(3) assms(2,4) obtain es where es: "mul_point_x C ea ?s = Some es" "mul_point_x C sb ?e = Some es"
    by (rule dh_correctE)
  let ?n = "mixed C es (mixed C ?e (mix_hash C ?e (mix_hash C ?s (mix_hash C [0] (noise_new Nk)))))"
  obtain n1 ct where enc: "encrypt_and_hash C ?n [] = (n1, Ok ct)"
    using encrypt_and_hash_total [OF C(1), of "[]" ?n] by auto
  note eval = handshake_eval mix_key_total [OF C(2)] enc es
  let ?i = "\<lparr>noise = noise_new Nk, peer_identity_pub_key = Some ?s,
    self_identity_priv_key = None, ephemeral_priv_key = P256Scalar ea\<rparr>"
  have new: "initiator_new_nk C ?s ea = Ok ?i"
    using assms(2) by (simp add: initiator_new_nk_def key_scalar_def eval)
  have init: "build_initial_message C ?i = (?i\<lparr>noise := n1\<rparr>, Ok \<lparr>ephemeral_public_key = ?e, noise_ciphertext = ct\<rparr>)"
    using assms(2) by (simp add: build_initial_message_def key_scalar_def eval Let_def)
  from second_message_agrees [OF assms(1-3) enc, of "?i\<lparr>noise := n1\<rparr>" None] obtain n2 r i2 out where
    "finish_response C ?n \<lparr>ephemeral_public_key = ?e, noise_ciphertext = ct\<rparr> None eb = (n2, Ok r)"
    and rest: "process_response C (?i\<lparr>noise := n1\<rparr>) (response_message r) = (i2, Ok out)" "handshake_agrees r out"
    by auto
  then have "respond_nk C (identity_key_handle_of C (IdentityKey (P256Scalar sb)))
      \<lparr>ephemeral_public_key = ?e, noise_ciphertext = ct\<rparr> eb = Ok r"
    using assms(2,4) by (simp add: respond_nk_def key_scalar_def eval Let_def)
  with new init rest show ?thesis by blast
qed

text \<open>
  C15. NK: the same when the initiator knows the responder's static public key.
\<close>

theorem nk_handshake_agrees:
  assumes "primitives_correct C" "key_scalar C ea" "key_scalar C eb" "key_scalar C sb"
  shows "\<exists>i m i1 r i2 out. initiator_new_nk C (mul_by_generator C sb) ea = Ok i \<and>
    build_initial_message C i = (i1, Ok m) \<and>
    respond_nk C (identity_key_handle_of C (IdentityKey (P256Scalar sb))) m eb = Ok r \<and>
    process_response C i1 (response_message r) = (i2, Ok out) \<and> handshake_agrees r out"
  using assms by (rule nk_agreement)

theorem nk_handshake_agrees_witness:
  "\<exists>i m i1 r i2 out. initiator_new_nk example_crypto (mul_by_generator example_crypto (replicate 32 7)) (replicate 32 3) = Ok i \<and>
    build_initial_message example_crypto i = (i1, Ok m) \<and>
    respond_nk example_crypto (identity_key_handle_of example_crypto (IdentityKey (P256Scalar (replicate 32 7)))) m (replicate 32 5) = Ok r \<and>
    process_response example_crypto i1 (response_message r) = (i2, Ok out) \<and> handshake_agrees r out"
  by (rule nk_handshake_agrees) (rule example_primitives_correct example_key_scalar)+

lemma kk_agreement:
  assumes "primitives_correct C" "key_scalar C ea" "key_scalar C eb" "key_scalar C sa" "key_scalar C sb"
  shows "\<exists>i m i1 r i2 out.
    initiator_new_kk C (mul_by_generator C sb) (identity_key_handle_of C (IdentityKey (P256Scalar sa))) ea = Ok i \<and>
    build_initial_message C i = (i1, Ok m) \<and>
    respond_kk C (identity_key_handle_of C (IdentityKey (P256Scalar sb))) (mul_by_generator C sa) m eb = Ok r \<and>
    process_response C i1 (response_message r) = (i2, Ok out) \<and> handshake_agrees r out"
proof -
  from assms(1) have C: "aead_total C" "hkdf_total C" "dh_correct C" by (auto simp: primitives_correct_def)
  let ?e = "mul_by_generator C ea" and ?s = "mul_by_generator C sb" and ?t = "mul_by_generator C sa"
  let ?ka = "identity_key_handle_of C (IdentityKey (P256Scalar sa))"
  from C(3) assms(2,5) obtain es where es: "mul_point_x C ea ?s = Some es" "mul_point_x C sb ?e = Some es"
    by (rule dh_correctE)
  from C(3) assms(4,5) obtain ss where ss: "mul_point_x C sa ?s = Some ss" "mul_point_x C sb ?t = Some ss"
    by (rule dh_correctE)
  from C(3) assms(4,3) obtain se where se: "mul_point_x C sa (mul_by_generator C eb) = Some se" "mul_point_x C eb ?t = Some se"
    by (rule dh_correctE)
  let ?n = "mixed C ss (mixed C es (mixed C ?e (mix_hash C ?e (mix_hash C ?s (mix_hash C [0] (noise_new Kk))))))"
  obtain n1 ct where enc: "encrypt_and_hash C ?n [] = (n1, Ok ct)"
    using encrypt_and_hash_total [OF C(1), of "[]" ?n] by auto
  note eval = handshake_eval mix_key_total [OF C(2)] enc es ss
  let ?i = "\<lparr>noise = noise_new Kk, peer_identity_pub_key = Some ?s,
    self_identity_priv_key = Some ?ka, ephemeral_priv_key = P256Scalar ea\<rparr>"
  have new: "initiator_new_kk C ?s ?ka ea = Ok ?i"
    using assms(2) by (simp add: initiator_new_kk_def key_scalar_def eval)
  have init: "build_initial_message C ?i = (?i\<lparr>noise := n1\<rparr>, Ok \<lparr>ephemeral_public_key = ?e, noise_ciphertext = ct\<rparr>)"
    using assms(2,5) by (simp add: build_initial_message_def key_scalar_def eval Let_def)
  have "\<exists>s x. Some ?t = Some s \<and> length s = P256_X962_LEN \<and> mul_point_x C eb s = Some x \<and>
      derive_dh_secret ?ka (mul_by_generator C eb) = Ok x"
    using assms(3,4) se by (simp add: eval key_scalar_def)
  then obtain n2 r i2 out where
    "finish_response C ?n \<lparr>ephemeral_public_key = ?e, noise_ciphertext = ct\<rparr> (Some ?t) eb = (n2, Ok r)"
    and rest: "process_response C (?i\<lparr>noise := n1\<rparr>) (response_message r) = (i2, Ok out)" "handshake_agrees r out"
    using second_message_agrees [OF assms(1-3) enc, of "?i\<lparr>noise := n1\<rparr>" "Some ?t"] by auto
  then have "respond_kk C (identity_key_handle_of C (IdentityKey (P256Scalar sb))) ?t
      \<lparr>ephemeral_public_key = ?e, noise_ciphertext = ct\<rparr> eb = Ok r"
    using assms(2,4,5) by (simp add: respond_kk_def key_scalar_def eval Let_def)
  with new init rest show ?thesis by blast
qed

text \<open>
  C14. KK: the same when both sides know the other's static public key.
\<close>

theorem kk_handshake_agrees:
  assumes "primitives_correct C" "key_scalar C ea" "key_scalar C eb" "key_scalar C sa" "key_scalar C sb"
  shows "\<exists>i m i1 r i2 out.
    initiator_new_kk C (mul_by_generator C sb) (identity_key_handle_of C (IdentityKey (P256Scalar sa))) ea = Ok i \<and>
    build_initial_message C i = (i1, Ok m) \<and>
    respond_kk C (identity_key_handle_of C (IdentityKey (P256Scalar sb))) (mul_by_generator C sa) m eb = Ok r \<and>
    process_response C i1 (response_message r) = (i2, Ok out) \<and> handshake_agrees r out"
  using assms by (rule kk_agreement)

theorem kk_handshake_agrees_witness:
  "\<exists>i m i1 r i2 out.
    initiator_new_kk example_crypto (mul_by_generator example_crypto (replicate 32 7))
      (identity_key_handle_of example_crypto (IdentityKey (P256Scalar (replicate 32 9)))) (replicate 32 3) = Ok i \<and>
    build_initial_message example_crypto i = (i1, Ok m) \<and>
    respond_kk example_crypto (identity_key_handle_of example_crypto (IdentityKey (P256Scalar (replicate 32 7))))
      (mul_by_generator example_crypto (replicate 32 9)) m (replicate 32 5) = Ok r \<and>
    process_response example_crypto i1 (response_message r) = (i2, Ok out) \<and> handshake_agrees r out"
  by (rule kk_handshake_agrees) (rule example_primitives_correct example_key_scalar)+

text \<open>
  C30. A peer can abort the process of an initiator of the pattern NN: when the response
  carries an empty payload, sealed with the keys of the handshake, the initiator finishes the
  handshake, and when it carries any other payload, \<open>process_response\<close> panics instead of returning an
  error.
\<close>

theorem initiator_panics_on_payload:
  assumes "primitives_correct C" "key_scalar C ea" "key_scalar C eb"
    and f: "f = mul_by_generator C eb" and x: "mul_point_x C ea f = Some x"
    and i: "initiator_new_nn C ea = Ok i" "build_initial_message C i = (i1, Ok m)"
    and p: "encrypt_and_hash C (mixed C x (mixed C f (mix_hash C f (noise i1)))) p = (n, Ok ct)"
  shows "if p = [] then \<exists>out. snd (process_response C i1 \<lparr>ephemeral_public_key = f, noise_ciphertext = ct\<rparr>) = Ok out
    else snd (process_response C i1 \<lparr>ephemeral_public_key = f, noise_ciphertext = ct\<rparr>) = Panic"
proof -
  from assms(1) have C: "aead_correct C" "aead_total C" "hkdf_total C"
    by (auto simp: primitives_correct_def)
  let ?n = "mixed C x (mixed C f (mix_hash C f (noise i1)))"
  have dec: "decrypt_and_hash C ?n ct = (n, Ok p)"
    using handshake_stream.deliver [of C ?n ?n p n ct] C(1) p by auto
  let ?i = "\<lparr>noise = noise_new Nn, peer_identity_pub_key = None,
    self_identity_priv_key = None, ephemeral_priv_key = P256Scalar ea\<rparr>"
  obtain n1 ct1 where enc: "encrypt_and_hash C (mixed C (mul_by_generator C ea)
      (mix_hash C (mul_by_generator C ea) (mix_hash C [0] (noise_new Nn)))) [] = (n1, Ok ct1)"
    using encrypt_and_hash_total [OF C(2), of "[]"] by fastforce
  have "i = ?i" using i(1) assms(2) by (simp add: initiator_new_nn_def handshake_eval key_scalar_def)
  with i(2) assms(2) have i1: "self_identity_priv_key i1 = None" "ephemeral_priv_key i1 = P256Scalar ea"
    by (auto simp: build_initial_message_def handshake_eval mix_key_total [OF C(3)] enc key_scalar_def Let_def)
  obtain k1 k2 where k: "hkdf2 C (chaining_key n) [] = (Ok (k1, k2) :: (bytes \<times> bytes, noise_error) result)"
    using hkdf2_total [OF C(3)] by blast
  have "length f = P256_X962_LEN" using assms(3) f by (simp add: key_scalar_def)
  then show ?thesis
    by (auto simp: process_response_def handshake_eval mix_key_total [OF C(3)] dec x i1 traffic_keys_def k Let_def)
qed

theorem initiator_panics_on_payload_witness:
  "\<exists>i m i1 response. initiator_new_nn example_crypto (replicate 32 3) = (Ok i :: (initiator, noise_error) result) \<and>
    build_initial_message example_crypto i = (i1, Ok m) \<and> snd (process_response example_crypto i1 response) = Panic"
proof -
  let ?C = example_crypto and ?f = "mul_by_generator example_crypto (replicate 32 5)"
  note C = example_primitives_correct
  obtain x where x: "mul_point_x ?C (replicate 32 3) ?f = Some x"
    using C dh_correctE [of ?C, OF _ example_key_scalar example_key_scalar] by (metis primitives_correct_def)
  obtain i m i1 where i: "initiator_new_nn ?C (replicate 32 3) = (Ok i :: (initiator, noise_error) result)" "build_initial_message ?C i = (i1, Ok m)"
    using nn_agreement [OF C example_key_scalar example_key_scalar] by blast
  obtain n ct where e: "encrypt_and_hash ?C (mixed ?C x (mixed ?C ?f (mix_hash ?C ?f (noise i1)))) [1] = (n, Ok ct)"
    using encrypt_and_hash_total [of ?C "[1]"] C by (fastforce simp: primitives_correct_def)
  from initiator_panics_on_payload [OF C example_key_scalar example_key_scalar refl x i e] have
    "snd (process_response ?C i1 \<lparr>ephemeral_public_key = ?f, noise_ciphertext = ct\<rparr>) = Panic" by simp
  with i show ?thesis by blast
qed

end
