(* ===== verification/Session_Types.thy ===== *)
theory Session_Types
  imports Ordered_Map Noise_Handshake
begin

section \<open>Messages and interfaces of the session\<close>

text \<open>
  The protocol buffer messages of \<^verbatim>\<open>proto/session\<close> and \<^verbatim>\<open>proto/attestation\<close> that a session
  exchanges, the trait objects an application supplies through the configuration
  (attesters, endorsers, verifiers, binders, assertion generators), and what the session
  uses of third-party crates beyond the primitives of the handshake: ECDSA signatures,
  the prost encoding and itertools. A trait object is a function or a record of functions;
  evidence and endorsements are opaque to the session.
\<close>


subsection \<open>Messages\<close>

datatype evidence = Evidence bytes

datatype endorsements = Endorsements bytes

record endorsed_evidence =
  ee_evidence :: "evidence option"
  ee_endorsements :: "endorsements option"

datatype assertion = Assertion (content: bytes)

datatype session_binding = SessionBinding (binding: bytes)

record attest_message =
  endorsed_evidence :: "endorsed_evidence btree_map"
  assertions :: "assertion btree_map"

text \<open>The requests and the responses have the same fields.\<close>

type_synonym attest_request = attest_message
type_synonym attest_response = attest_message

record noise_handshake_message =
  hs_ephemeral_public_key :: bytes
  hs_static_public_key :: bytes
  hs_ciphertext :: bytes

record handshake_message =
  noise_handshake_message :: "noise_handshake_message option"
  attestation_bindings :: "session_binding btree_map"
  assertion_bindings :: "session_binding btree_map"

type_synonym handshake_request = handshake_message
type_synonym handshake_response = handshake_message

record encrypted_message =
  em_ciphertext :: bytes
  em_associated_data :: "bytes option"
  em_nonce :: "bytes option"

datatype plaintext_message = PlaintextMessage (plaintext: bytes)

datatype session_body =
    Attest attest_message
  | Handshake handshake_message
  | Encrypted encrypted_message

text \<open>\<open>SessionRequest\<close> and \<open>SessionResponse\<close>: the \<open>oneof\<close> may be unset.\<close>

type_synonym session_request = "session_body option"
type_synonym session_response = "session_body option"


subsection \<open>Attestation results\<close>

datatype attestation_status = StatusUnspecified | StatusSuccess | StatusGenericFailure

text \<open>The accessor of an open proto enum: an unknown number reads as the default.\<close>

definition decode_status :: "int \<Rightarrow> attestation_status" where
  "decode_status n = (if n = 1 then StatusSuccess else if n = 2 then StatusGenericFailure else StatusUnspecified)"

fun encode_status :: "attestation_status \<Rightarrow> int" where
  "encode_status StatusUnspecified = 0"
| "encode_status StatusSuccess = 1"
| "encode_status StatusGenericFailure = 2"

lemma decode_encode_status [simp]: "decode_status (encode_status s) = s"
  by (cases s) (simp_all add: decode_status_def)

text \<open>The keys a session reads out of the verified evidence.\<close>

record extracted_evidence =
  encryption_public_key :: bytes
  signing_public_key :: bytes

text \<open>A formatted text is kept as the error value it renders.\<close>

record attestation_results =
  results_status :: int
  results_reason :: error
  results_extracted_evidence :: "extracted_evidence option"
  event_attestation_results :: "bytes btree_map list"

definition default_results :: attestation_results where
  "default_results = \<lparr>results_status = 0, results_reason = Msg [],
     results_extracted_evidence = None, event_attestation_results = []\<rparr>"


subsection \<open>Trait objects\<close>

type_synonym attester = "(evidence, error) result"
type_synonym endorser = "evidence option \<Rightarrow> (endorsements, error) result"
type_synonym attestation_verifier = "evidence \<Rightarrow> endorsements \<Rightarrow> (attestation_results, error) result"
type_synonym signer = "bytes \<Rightarrow> bytes"
type_synonym verifier = "bytes \<Rightarrow> bytes \<Rightarrow> (unit, error) result"
type_synonym session_binder = "bytes \<Rightarrow> bytes"
type_synonym session_binding_verifier = "bytes \<Rightarrow> bytes \<Rightarrow> (unit, error) result"
type_synonym session_binding_verifier_provider =
  "attestation_results \<Rightarrow> (session_binding_verifier, error) result"
type_synonym key_extractor = "attestation_results \<Rightarrow> (verifier, error) result"

record peer_attestation_verifier =
  pav_verifier :: attestation_verifier
  binding_verifier_provider :: session_binding_verifier_provider

datatype generator_error =
    GeneratorFailure error
  | BindingGenerationFailure error
  | AssertionGenerationFailure error
  | GeneratorOther error

record bindable_assertion =
  ba_assertion :: assertion
  ba_bind :: "bytes \<Rightarrow> (session_binding, generator_error) result"

type_synonym bindable_assertion_generator = "(bindable_assertion, generator_error) result"
type_synonym assertion_generator = "bytes \<Rightarrow> (assertion, error) result"

datatype bound_assertion_verification_error =
    GenericFailure error
  | BindingVerificationFailure error
  | PeerAssertionMissing
  | AssertionParsingError
  | AssertionMissingExpectedFields error

record verified_bound_assertion =
  vba_assertion :: assertion
  vba_verify_binding :: "bytes \<Rightarrow> session_binding \<Rightarrow> (unit, bound_assertion_verification_error) result"

type_synonym bound_assertion_verifier =
  "assertion \<Rightarrow> (verified_bound_assertion, bound_assertion_verification_error) result"

text \<open>An assertion verifier checks an assertion about some data at a time.\<close>

type_synonym assertion_verifier = "assertion \<Rightarrow> bytes \<Rightarrow> int \<Rightarrow> (unit, error) result"

text \<open>The conversions \<open>?\<close> makes into \<open>anyhow::Error\<close>.\<close>

fun from_generator_error :: "generator_error \<Rightarrow> error" where
  "from_generator_error (GeneratorFailure e) = Ctx ''generic assertion generation error'' e"
| "from_generator_error (BindingGenerationFailure e) = Ctx ''assertion binding failure'' e"
| "from_generator_error (AssertionGenerationFailure e) = e"
| "from_generator_error (GeneratorOther e) = e"

fun from_verification_error :: "bound_assertion_verification_error \<Rightarrow> error" where
  "from_verification_error (GenericFailure e) = Ctx ''generic verification error'' e"
| "from_verification_error (BindingVerificationFailure e) = Ctx ''binding verification error'' e"
| "from_verification_error PeerAssertionMissing = Msg ''peer assertion missing''"
| "from_verification_error AssertionParsingError = Msg ''assertion parsing error''"
| "from_verification_error (AssertionMissingExpectedFields e) = Ctx ''assertion missing expected fields'' e"


subsection \<open>Third-party crates\<close>

record session_lib = crypto +
  ecdsa_sign :: "bytes \<Rightarrow> bytes \<Rightarrow> bytes option"
    \<comment> \<open>\<open>SigningKey::try_sign\<close>: the signing key, the message\<close>
  ecdsa_public_key :: "bytes \<Rightarrow> bytes"
    \<comment> \<open>\<open>SigningKey::verifying_key().to_sec1_bytes()\<close>\<close>
  ecdsa_key_valid :: "bytes \<Rightarrow> bool"
    \<comment> \<open>\<open>VerifyingKey::from_sec1_bytes\<close> succeeds\<close>
  ecdsa_signature_valid :: "bytes \<Rightarrow> bool"
    \<comment> \<open>\<open>Signature::from_slice\<close> succeeds\<close>
  ecdsa_check :: "bytes \<Rightarrow> bytes \<Rightarrow> bytes \<Rightarrow> bool"
    \<comment> \<open>\<open>VerifyingKey::verify\<close>: key, message, signature\<close>
  encode_string :: "string \<Rightarrow> bytes"
    \<comment> \<open>\<open>String::encode_to_vec\<close> of prost\<close>
  encode_key_wrapper :: "bytes \<Rightarrow> assertion option \<Rightarrow> bytes"
    \<comment> \<open>\<open>SessionBindingKeyWrapperAssertion::encode_to_vec\<close>\<close>
  decode_key_wrapper :: "bytes \<Rightarrow> (bytes \<times> assertion option) option"
    \<comment> \<open>\<open>SessionBindingKeyWrapperAssertion::decode\<close>\<close>
  attest_encoded_len :: "attest_message \<Rightarrow> nat"
    \<comment> \<open>\<open>AttestRequest::encoded_len\<close> and \<open>AttestResponse::encoded_len\<close>\<close>
  merge_join_evidence ::
    "(string \<times> peer_attestation_verifier) list \<Rightarrow> (string \<times> endorsed_evidence) list \<Rightarrow>
     (string \<times> peer_attestation_verifier, string \<times> endorsed_evidence) either_or_both list"
    \<comment> \<open>itertools' \<open>merge_join_by\<close> comparing keys, on evidence\<close>
  merge_join_assertions ::
    "(string \<times> bound_assertion_verifier) list \<Rightarrow> (string \<times> assertion) list \<Rightarrow>
     (string \<times> bound_assertion_verifier, string \<times> assertion) either_or_both list"
    \<comment> \<open>the same on assertions\<close>

text \<open>The documented result of \<open>merge_join_by\<close> on inputs sorted by their keys.\<close>

definition merge_join_correct :: "'x session_lib_scheme \<Rightarrow> bool" where
  "merge_join_correct L \<longleftrightarrow>
     (\<forall>xs ys. sorted_wrt (<) (map fst xs) \<longrightarrow> sorted_wrt (<) (map fst ys) \<longrightarrow>
        merge_join_evidence L xs ys = merge_join xs ys) \<and>
     (\<forall>xs ys. sorted_wrt (<) (map fst xs) \<longrightarrow> sorted_wrt (<) (map fst ys) \<longrightarrow>
        merge_join_assertions L xs ys = merge_join xs ys)"

text \<open>A signature made with a key is well formed and verifies under its public key.\<close>

definition ecdsa_correct :: "'x session_lib_scheme \<Rightarrow> bool" where
  "ecdsa_correct L \<longleftrightarrow>
     (\<forall>k m s. ecdsa_sign L k m = Some s \<longrightarrow>
        ecdsa_signature_valid L s \<and> ecdsa_check L (ecdsa_public_key L k) m s)
     \<and> (\<forall>k. ecdsa_key_valid L (ecdsa_public_key L k))"

text \<open>Decoding what was encoded.\<close>

definition key_wrapper_correct :: "'x session_lib_scheme \<Rightarrow> bool" where
  "key_wrapper_correct L \<longleftrightarrow> (\<forall>k a. decode_key_wrapper L (encode_key_wrapper L k a) = Some (k, a))"


subsection \<open>An instance for examples\<close>

fun unstuff :: "bytes \<Rightarrow> (bytes \<times> bytes) option" where
  "unstuff (m # b # bs) = (if m = 0 then Some ([], b # bs)
     else map_option (\<lambda>(ks, rest). (b # ks, rest)) (unstuff bs))"
| "unstuff [m] = (if m = 0 then Some ([], []) else None)"
| "unstuff [] = None"

text \<open>
  Signatures are the key followed by the message, a key wrapper marks each byte of the key,
  and the merge is the reference merge.
\<close>

definition example_lib :: session_lib where
  "example_lib = crypto.extend example_crypto (session_lib.fields
     (\<lambda>k m. Some (k @ m)) (\<lambda>k. k) (\<lambda>k. True) (\<lambda>s. True) (\<lambda>k m s. s = k @ m)
     str_bytes
     (\<lambda>k a. concat (map (\<lambda>b. [1, b]) k) @ [0] @ (case a of None \<Rightarrow> [] | Some a \<Rightarrow> 1 # content a))
     (\<lambda>bs. map_option (\<lambda>(k, rest). (k, case rest of [] \<Rightarrow> None | _ # c \<Rightarrow> Some (Assertion c))) (unstuff bs))
     (\<lambda>m. 0) merge_join merge_join)"

lemma example_lib_crypto [simp]:
  "sha256_digest example_lib = sha256_digest example_crypto"
  "hkdf_expand example_lib = hkdf_expand example_crypto"
  "gcm_encrypt example_lib = gcm_encrypt example_crypto"
  "gcm_decrypt example_lib = gcm_decrypt example_crypto"
  "scalar_in_range example_lib = scalar_in_range example_crypto"
  "mul_by_generator example_lib = mul_by_generator example_crypto"
  "mul_point_x example_lib = mul_point_x example_crypto"
  by (simp_all add: example_lib_def crypto.defs session_lib.defs)

lemma example_lib_simps [simp]:
  "ecdsa_sign example_lib k m = Some (k @ m)"
  "ecdsa_public_key example_lib k = k"
  "ecdsa_key_valid example_lib k"
  "ecdsa_signature_valid example_lib s"
  "ecdsa_check example_lib k m s \<longleftrightarrow> s = k @ m"
  "encode_string example_lib = str_bytes"
  "attest_encoded_len example_lib a = 0"
  "merge_join_evidence example_lib = merge_join"
  "merge_join_assertions example_lib = merge_join"
  by (simp_all add: example_lib_def crypto.defs session_lib.defs)

lemma unstuff_stuff: "unstuff (concat (map (\<lambda>b. [1, b]) k) @ 0 # rest) = Some (k, rest)"
  by (induction k) (cases rest; simp)+

lemma example_lib_correct:
  "primitives_correct example_lib" "ecdsa_correct example_lib"
  "merge_join_correct example_lib" "key_wrapper_correct example_lib"
proof -
  show "primitives_correct example_lib"
    using example_primitives_correct
    by (simp add: primitives_correct_def aead_correct_def aead_total_def hkdf_total_def dh_correct_def key_scalar_def)
  show "key_wrapper_correct example_lib"
    by (auto simp: key_wrapper_correct_def example_lib_def crypto.defs session_lib.defs unstuff_stuff split: option.splits)
qed (simp_all add: ecdsa_correct_def merge_join_correct_def)

end
