(* ===== verification/Session_Aggregators.thy ===== *)
theory Session_Aggregators
  imports Session_Types
begin

section \<open>Aggregation of verification results\<close>

text \<open>
  Models \<^verbatim>\<open>oak_session/src/aggregators.rs\<close>: how the results of several verifiers become one
  verdict. The locale \<open>assertion_aggregator\<close> is what the session relies on: assertions no
  verifier is configured for never influence the outcome, and an accepted configuration
  with verifiers rests on at least one verified assertion.
\<close>

datatype verifier_result =
    VerifierSuccess endorsed_evidence attestation_results
  | VerifierFailure endorsed_evidence attestation_results
  | VerifierMissing
  | VerifierUnverified endorsed_evidence

datatype bound_assertion_verifier_result =
    BoundSuccess verified_bound_assertion
  | BoundFailure assertion bound_assertion_verification_error
  | BoundMissing
  | BoundUnverified assertion

datatype aggregated_verification_error =
    LegacyVerificationFailure "error btree_map"
  | AssertionVerificationFailure "bound_assertion_verification_error btree_map"
  | NoMatchedLegacyVerifier
  | NoMatchedBoundAssertionVerifier
  | ConfigurationError

type_synonym legacy_aggregator =
  "verifier_result btree_map \<Rightarrow> (unit, aggregated_verification_error) result"

record assertion_results_aggregator =
  process_assertion_results ::
    "bound_assertion_verifier_result btree_map \<Rightarrow> (unit, aggregated_verification_error) result"
  is_compatible_with_configuration :: "bound_assertion_verifier btree_map \<Rightarrow> bool"


subsection \<open>Evidence\<close>

fun default_legacy_step ::
  "string \<times> verifier_result \<Rightarrow> bool \<times> bool \<times> error btree_map \<Rightarrow> bool \<times> bool \<times> error btree_map" where
  "default_legacy_step (att_id, VerifierSuccess _ _) (has_match, has_configured, failures) = (True, True, failures)"
| "default_legacy_step (att_id, VerifierFailure _ res) (has_match, has_configured, failures) =
     (True, True, btm_insert att_id (results_reason res) failures)"
| "default_legacy_step (att_id, VerifierMissing) (has_match, has_configured, failures) = (has_match, True, failures)"
| "default_legacy_step (att_id, VerifierUnverified _) (has_match, has_configured, failures) =
     (has_match, has_configured, failures)"

definition default_legacy_aggregator :: legacy_aggregator where
  "default_legacy_aggregator results =
     (case fold default_legacy_step (entries results) (False, False, btm_empty) of
        (has_match, has_configured_verifier, failures) \<Rightarrow>
          if has_configured_verifier \<and> \<not> has_match then Err NoMatchedLegacyVerifier
          else if \<not> btm_is_empty failures then Err (LegacyVerificationFailure failures)
          else Ok ())"


subsection \<open>Assertions\<close>

fun any_loop ::
  "(string \<times> bound_assertion_verifier_result) list \<Rightarrow> bound_assertion_verification_error btree_map \<Rightarrow>
     (unit, aggregated_verification_error) result" where
  "any_loop [] failures =
     (if btm_is_empty failures then Err NoMatchedBoundAssertionVerifier
      else Err (AssertionVerificationFailure failures))"
| "any_loop ((att_id, BoundSuccess _) # rs) failures = Ok ()"
| "any_loop ((att_id, BoundFailure _ e) # rs) failures = any_loop rs (btm_insert att_id e failures)"
| "any_loop ((att_id, BoundMissing) # rs) failures = any_loop rs failures"
| "any_loop ((att_id, BoundUnverified _) # rs) failures = any_loop rs failures"

definition Any_process ::
  "bound_assertion_verifier_result btree_map \<Rightarrow> (unit, aggregated_verification_error) result" where
  "Any_process results = any_loop (entries results) btm_empty"

fun all_step ::
  "string \<times> bound_assertion_verifier_result \<Rightarrow> bound_assertion_verification_error btree_map \<Rightarrow>
     bound_assertion_verification_error btree_map" where
  "all_step (att_id, BoundSuccess _) failures = failures"
| "all_step (att_id, BoundFailure _ e) failures = btm_insert att_id e failures"
| "all_step (att_id, BoundMissing) failures = btm_insert att_id PeerAssertionMissing failures"
| "all_step (att_id, BoundUnverified _) failures = failures"

definition All_process ::
  "bound_assertion_verifier_result btree_map \<Rightarrow> (unit, aggregated_verification_error) result" where
  "All_process results =
     (let failures = fold all_step (entries results) btm_empty
      in if \<not> btm_is_empty failures then Err (AssertionVerificationFailure failures) else Ok ())"

fun is_unverified :: "bound_assertion_verifier_result \<Rightarrow> bool" where
  "is_unverified (BoundUnverified _) = True"
| "is_unverified _ = False"

text \<open>The argument \<open>exactly_one\<close> is the method of itertools.\<close>

definition PassThrough_process ::
  "((string \<times> bound_assertion_verifier_result) list \<Rightarrow> (string \<times> bound_assertion_verifier_result) option) \<Rightarrow>
   bound_assertion_verifier_result btree_map \<Rightarrow> (unit, aggregated_verification_error) result" where
  "PassThrough_process exactly_one results =
     (case exactly_one (filter (\<lambda>(att_id, r). \<not> is_unverified r) (entries results)) of
        Some (att_id, BoundSuccess _) \<Rightarrow> Ok ()
      | Some (att_id, BoundFailure _ e) \<Rightarrow> Err (AssertionVerificationFailure (btm_collect [(att_id, e)]))
      | Some (att_id, BoundMissing) \<Rightarrow> Err NoMatchedBoundAssertionVerifier
      | Some (att_id, BoundUnverified _) \<Rightarrow> Err ConfigurationError
      | None \<Rightarrow> Err ConfigurationError)"

definition Empty_process ::
  "bound_assertion_verifier_result btree_map \<Rightarrow> (unit, aggregated_verification_error) result" where
  "Empty_process results =
     (if list_all (\<lambda>(att_id, r). is_unverified r) (entries results) then Ok () else Err ConfigurationError)"

definition Any_compatible :: "bound_assertion_verifier btree_map \<Rightarrow> bool" where
  "Any_compatible vs \<longleftrightarrow> \<not> btm_is_empty vs"

definition All_compatible :: "bound_assertion_verifier btree_map \<Rightarrow> bool" where
  "All_compatible vs \<longleftrightarrow> \<not> btm_is_empty vs"

definition PassThrough_compatible :: "bound_assertion_verifier btree_map \<Rightarrow> bool" where
  "PassThrough_compatible vs \<longleftrightarrow> \<not> btm_is_empty vs"

definition Empty_compatible :: "bound_assertion_verifier btree_map \<Rightarrow> bool" where
  "Empty_compatible vs \<longleftrightarrow> btm_is_empty vs"

definition Any :: assertion_results_aggregator where
  "Any = \<lparr>process_assertion_results = Any_process, is_compatible_with_configuration = Any_compatible\<rparr>"

definition All :: assertion_results_aggregator where
  "All = \<lparr>process_assertion_results = All_process, is_compatible_with_configuration = All_compatible\<rparr>"

definition PassThrough ::
  "((string \<times> bound_assertion_verifier_result) list \<Rightarrow> (string \<times> bound_assertion_verifier_result) option) \<Rightarrow>
   assertion_results_aggregator" where
  "PassThrough exactly_one = \<lparr>process_assertion_results = PassThrough_process exactly_one,
     is_compatible_with_configuration = PassThrough_compatible\<rparr>"

definition Empty :: assertion_results_aggregator where
  "Empty = \<lparr>process_assertion_results = Empty_process, is_compatible_with_configuration = Empty_compatible\<rparr>"



subsection \<open>What the evidence aggregator accepts\<close>

lemma btm_is_empty_simps [simp]: "btm_is_empty btm_empty" "\<not> btm_is_empty (btm_insert k v m)"
proof -
  show "btm_is_empty btm_empty" by (simp add: btm_is_empty_def btm_empty.rep_eq)
  have "btm_get (btm_insert k v m) k = Some v" by (simp add: btm.get_insert)
  then show "\<not> btm_is_empty (btm_insert k v m)" by (auto simp: btm_is_empty_def btm.get_iter_Some_iff)
qed

lemma default_legacy_fold:
  assumes "fold default_legacy_step rs (m, c, fs) = (m', c', fs')"
  shows "m' = (m \<or> (\<exists>(k, r) \<in> set rs. \<exists>e a. r = VerifierSuccess e a \<or> r = VerifierFailure e a))
    \<and> c' = (c \<or> (\<exists>(k, r) \<in> set rs. \<forall>e. r \<noteq> VerifierUnverified e))
    \<and> btm_is_empty fs' = (btm_is_empty fs \<and> (\<forall>(k, r) \<in> set rs. \<forall>e a. r \<noteq> VerifierFailure e a))"
  using assms
proof (induction rs arbitrary: m c fs)
  case (Cons kr rs)
  obtain k r where kr: "kr = (k, r)" by fastforce
  show ?case
    by (cases r) (use Cons.prems in \<open>auto simp: kr dest!: Cons.IH\<close>)
qed simp

text \<open>
  C25. The default aggregator of evidence accepts exactly when no verifier failed and, if
  any verifier is configured, at least one succeeded. Its documentation requires at least one result
  and says that an empty map fails; the code disagrees, and accepts the empty map.
\<close>

theorem default_legacy_aggregator_accepts_iff:
  "(default_legacy_aggregator results = Ok () \<longleftrightarrow>
    (\<forall>k e a. btm_get results k \<noteq> Some (VerifierFailure e a)) \<and>
    ((\<exists>k r. btm_get results k = Some r \<and> (\<forall>e. r \<noteq> VerifierUnverified e)) \<longrightarrow>
     (\<exists>k e a. btm_get results k = Some (VerifierSuccess e a)))) \<and>
   default_legacy_aggregator btm_empty = Ok ()"
proof -
  obtain m c fs where f: "fold default_legacy_step (entries results) (False, False, btm_empty) = (m, c, fs)"
    by (metis surj_pair)
  from default_legacy_fold [OF this] show ?thesis
    by (auto simp: default_legacy_aggregator_def f btm.get_iter_Some_iff btm_empty.rep_eq)
qed

theorem default_legacy_aggregator_accepts_iff_witness:
  "default_legacy_aggregator (btm_insert ''a'' (VerifierSuccess \<lparr>ee_evidence = None, ee_endorsements = None\<rparr> default_results)
     (btm_insert ''b'' VerifierMissing btm_empty)) = Ok () \<and>
   default_legacy_aggregator (btm_insert ''b'' VerifierMissing btm_empty) \<noteq> Ok ()"
proof
  let ?ok = "btm_insert ''a'' (VerifierSuccess \<lparr>ee_evidence = None, ee_endorsements = None\<rparr> default_results)
     (btm_insert ''b'' VerifierMissing btm_empty)"
  have "btm_get ?ok ''a'' = Some (VerifierSuccess \<lparr>ee_evidence = None, ee_endorsements = None\<rparr> default_results)"
    by (simp add: btm.get_insert)
  moreover have "btm_get ?ok k \<noteq> Some (VerifierFailure e a)" for k e a
    by (simp add: btm.get_insert btm.get_empty)
  ultimately show "default_legacy_aggregator ?ok = Ok ()"
    using default_legacy_aggregator_accepts_iff [of ?ok] by blast
  let ?no = "btm_insert ''b'' VerifierMissing btm_empty"
  have "btm_get ?no ''b'' = Some VerifierMissing" "btm_get ?no k \<noteq> Some (VerifierSuccess e a)" for k e a
    by (simp_all add: btm.get_insert btm.get_empty)
  then show "default_legacy_aggregator ?no \<noteq> Ok ()"
    using default_legacy_aggregator_accepts_iff [of ?no] by blast
qed


subsection \<open>The contract of an assertion aggregator\<close>

text \<open>Every configured verifier has a result.\<close>

definition results_cover ::
  "bound_assertion_verifier btree_map \<Rightarrow> bound_assertion_verifier_result btree_map \<Rightarrow> bool" where
  "results_cover vs results \<longleftrightarrow>
     (\<forall>k. btm_get vs k \<noteq> None \<longrightarrow> (\<exists>r. btm_get results k = Some r \<and> \<not> is_unverified r))"

definition drop_unverified ::
  "bound_assertion_verifier_result btree_map \<Rightarrow> bound_assertion_verifier_result btree_map" where
  "drop_unverified = btm_filter_map (\<lambda>_ r. if is_unverified r then None else Some r)"

locale assertion_aggregator =
  fixes process :: "bound_assertion_verifier_result btree_map \<Rightarrow> (unit, aggregated_verification_error) result"
    and compatible :: "bound_assertion_verifier btree_map \<Rightarrow> bool"
  assumes ignores_unverified: "process (drop_unverified results) = process results"
    and accepts_verified: "compatible vs \<Longrightarrow> results_cover vs results \<Longrightarrow> process results = Ok () \<Longrightarrow>
      \<not> btm_is_empty vs \<Longrightarrow> \<exists>k v. btm_get results k = Some (BoundSuccess v)"
    and never_panics: "process results \<noteq> Panic"
begin

lemma unverified_irrelevant:
  assumes "\<And>k. Option.bind (btm_get m k) (\<lambda>r. if is_unverified r then None else Some r) =
    Option.bind (btm_get m' k) (\<lambda>r. if is_unverified r then None else Some r)"
  shows "process m = process m'"
proof -
  from assms have "drop_unverified m = drop_unverified m'"
    by (simp add: btm.eq_iff_get drop_unverified_def)
  then show ?thesis by (metis ignores_unverified)
qed

lemma extra_assertion_irrelevant:
  "btm_get m k = None \<Longrightarrow> process (btm_insert k (BoundUnverified a) m) = process m"
  by (rule unverified_irrelevant) (auto simp: btm.get_insert)

end

lemma entries_drop_unverified [simp]:
  "entries (drop_unverified m) = filter (\<lambda>(k, r). \<not> is_unverified r) (entries m)"
proof -
  have "List.map_filter (\<lambda>(k, r). map_option (Pair k) (if is_unverified r then None else Some r)) rs =
      filter (\<lambda>(k, r). \<not> is_unverified r) rs" for rs
    by (induction rs) (auto simp: map_filter_simps)
  then show ?thesis by (simp add: drop_unverified_def)
qed

lemma not_unverified_cases:
  assumes "\<not> is_unverified r"
  obtains v where "r = BoundSuccess v" | a e where "r = BoundFailure a e" | "r = BoundMissing"
  using assms by (cases r) auto

lemma covered_entry:
  assumes "results_cover vs results" "\<not> btm_is_empty vs"
  obtains k r where "(k, r) \<in> set (entries results)" "\<not> is_unverified r"
  using assms by (auto simp: results_cover_def btm_is_empty_iff btm.get_iter_Some_iff)

lemma any_loop_Ok_iff: "any_loop rs fs = Ok () \<longleftrightarrow> (\<exists>k v. (k, BoundSuccess v) \<in> set rs)"
  by (induction rs fs rule: any_loop.induct) auto

lemma any_loop_not_Panic: "any_loop rs fs \<noteq> Panic"
  by (induction rs fs rule: any_loop.induct) auto

lemma any_loop_drop: "any_loop (filter (\<lambda>(k, r). \<not> is_unverified r) rs) fs = any_loop rs fs"
  by (induction rs fs rule: any_loop.induct) auto

lemma all_fold_drop: "fold all_step (filter (\<lambda>(k, r). \<not> is_unverified r) rs) fs = fold all_step rs fs"
proof (induction rs arbitrary: fs)
  case (Cons kr rs)
  then show ?case by (cases kr; cases "snd kr") auto
qed simp

lemma all_fold_empty_iff:
  "btm_is_empty (fold all_step rs fs) \<longleftrightarrow>
     btm_is_empty fs \<and> (\<forall>(k, r) \<in> set rs. is_unverified r \<or> (\<exists>v. r = BoundSuccess v))"
proof (induction rs arbitrary: fs)
  case (Cons kr rs)
  then show ?case by (cases kr; cases "snd kr") auto
qed simp

lemma All_process_Ok_iff:
  "All_process results = Ok () \<longleftrightarrow>
     (\<forall>(k, r) \<in> set (entries results). is_unverified r \<or> (\<exists>v. r = BoundSuccess v))"
  by (simp add: All_process_def Let_def all_fold_empty_iff)

interpretation any: assertion_aggregator Any_process Any_compatible
  by unfold_locales
    (auto simp: Any_process_def any_loop_drop any_loop_Ok_iff any_loop_not_Panic btm.get_iter_Some_iff)

interpretation all: assertion_aggregator All_process All_compatible
proof
  fix vs results
  assume "results_cover vs results" "\<not> btm_is_empty vs" "All_process results = Ok ()"
  then show "\<exists>k v. btm_get results k = Some (BoundSuccess v)"
    by (auto simp: All_process_Ok_iff btm.get_iter_Some_iff elim!: covered_entry) blast
qed (simp_all add: All_process_def Let_def all_fold_drop)

interpretation empty: assertion_aggregator Empty_process Empty_compatible
  by unfold_locales (auto simp: Empty_process_def Empty_compatible_def list_all_iff)

text \<open>Exactly one element: the documented behaviour of the method of itertools.\<close>

definition exactly_one_correct :: "('a list \<Rightarrow> 'a option) \<Rightarrow> bool" where
  "exactly_one_correct f \<longleftrightarrow> (\<forall>xs. f xs = (case xs of [x] \<Rightarrow> Some x | _ \<Rightarrow> None))"

lemma PassThrough_aggregator:
  assumes "exactly_one_correct f"
  shows "assertion_aggregator (PassThrough_process f) PassThrough_compatible"
proof
  fix results vs
  show "PassThrough_process f (drop_unverified results) = PassThrough_process f results"
    by (simp add: PassThrough_process_def case_prod_unfold)
  show "PassThrough_process f results \<noteq> Panic"
    by (auto simp: PassThrough_process_def split: option.splits bound_assertion_verifier_result.splits)
  assume "PassThrough_process f results = Ok ()"
  then obtain k v where "filter (\<lambda>(k, r). \<not> is_unverified r) (entries results) = [(k, BoundSuccess v)]"
    using assms by (auto simp: PassThrough_process_def exactly_one_correct_def
        split: option.splits bound_assertion_verifier_result.splits list.splits)
  then have "(k, BoundSuccess v) \<in> set (entries results)" by (metis filter_is_subset list.set_intros(1) subsetD)
  then show "\<exists>k v. btm_get results k = Some (BoundSuccess v)" by (auto simp: btm.get_iter_Some_iff)
qed

text \<open>
  C26. The verdicts of the aggregators: \<open>Any\<close> accepts exactly when some verifier succeeded,
  \<open>All\<close> exactly when every verifier that is configured succeeded, \<open>Empty\<close> exactly when no
  verifier is configured for any result. The documentation of \<open>Empty\<close> says that any result that is
  present is an error; the code disagrees, and accepts the result of an assertion that has no verifier.
\<close>

theorem assertion_aggregators_accept_iff:
  "(process_assertion_results Any results = Ok () \<longleftrightarrow> (\<exists>k v. btm_get results k = Some (BoundSuccess v))) \<and>
   (process_assertion_results All results = Ok () \<longleftrightarrow>
      (\<forall>k r. btm_get results k = Some r \<and> \<not> is_unverified r \<longrightarrow> (\<exists>v. r = BoundSuccess v))) \<and>
   (process_assertion_results Empty results = Ok () \<longleftrightarrow>
      (\<forall>k r. btm_get results k = Some r \<longrightarrow> is_unverified r)) \<and>
   process_assertion_results Empty (btm_insert i (BoundUnverified a) btm_empty) = Ok ()"
  by (auto simp: Any_def All_def Empty_def Any_process_def any_loop_Ok_iff All_process_Ok_iff Empty_process_def
      list_all_iff btm.get_iter_Some_iff btm.get_insert btm.get_empty split: if_splits)

theorem assertion_aggregators_accept_iff_witness:
  "process_assertion_results All (btm_insert ''a'' (BoundUnverified (Assertion [1])) btm_empty) = Ok () \<and>
   process_assertion_results Any (btm_insert ''a'' BoundMissing btm_empty) \<noteq> Ok ()"
proof
  let ?m = "btm_insert ''a'' (BoundUnverified (Assertion [1])) btm_empty"
  have "btm_get ?m k = Some r \<Longrightarrow> is_unverified r" for k r
    by (auto simp: btm.get_insert btm.get_empty split: if_splits)
  with assertion_aggregators_accept_iff [of ?m] show "process_assertion_results All ?m = Ok ()" by blast
  let ?n = "btm_insert ''a'' BoundMissing btm_empty"
  have "btm_get ?n k \<noteq> Some (BoundSuccess v)" for k v by (simp add: btm.get_insert btm.get_empty)
  with assertion_aggregators_accept_iff [of ?n] show "process_assertion_results Any ?n \<noteq> Ok ()" by blast
qed

text \<open>
  Assertions nobody verifies cannot change a verdict: adding an assertion without a
  configured verifier to the results leaves the outcome of \<open>Any\<close>, \<open>All\<close> and \<open>Empty\<close> as it was.
\<close>

theorem unverified_assertions_do_not_count:
  assumes "btm_get results k = None" "agg \<in> {Any, All, Empty}"
  shows "process_assertion_results agg (btm_insert k (BoundUnverified a) results) = process_assertion_results agg results"
  using assms(2) any.extra_assertion_irrelevant [OF assms(1)] all.extra_assertion_irrelevant [OF assms(1)]
    empty.extra_assertion_irrelevant [OF assms(1)]
  by (auto simp: Any_def All_def Empty_def)

theorem unverified_assertions_do_not_count_witness:
  "process_assertion_results All (btm_insert ''x'' (BoundUnverified (Assertion [1])) (btm_insert ''a'' BoundMissing btm_empty))
    = process_assertion_results All (btm_insert ''a'' BoundMissing btm_empty)"
  by (rule unverified_assertions_do_not_count) (simp_all add: btm.get_insert btm.get_empty)

end
