(* ===== verification/Session_Binding.thy ===== *)
theory Session_Binding
  imports Session_Types
begin

section \<open>Session bindings\<close>

text \<open>
  Models \<^verbatim>\<open>oak_session/src/{session_binding,key_extractor,generator,verifier}.rs\<close>, the
  P-256 implementations of \<open>Signer\<close> and \<open>Verifier\<close> in \<^verbatim>\<open>oak_crypto\<close>, and the result
  accessors of \<^verbatim>\<open>oak_attestation_verification/src/results.rs\<close>: how a peer proves that the
  key in its evidence or assertion takes part in this session. The theorems show that a
  binding made with the attested key verifies, and that an assertion accepted by the
  verifier binds with exactly the key that the inner assertion vouches for.
\<close>


subsection \<open>Artifacts in attestation results\<close>

definition INITIAL_MEASUREMENT_ID :: string where "INITIAL_MEASUREMENT_ID = ''initial-measurement''"
definition SESSION_BINDING_PUBLIC_KEY_ID :: string where
  "SESSION_BINDING_PUBLIC_KEY_ID = ''oak-session-binding-public-key:ecdsa-p256''"
definition HYBRID_ENCRYPTION_PUBLIC_KEY_ID :: string where
  "HYBRID_ENCRYPTION_PUBLIC_KEY_ID = ''oak-hybrid-encryption-public-key:X25519''"
definition SIGNING_PUBLIC_KEY_ID :: string where
  "SIGNING_PUBLIC_KEY_ID = ''oak-signing-public-key:ecdsa-p256''"
definition USER_DATA_PAYLOAD_ID :: string where "USER_DATA_PAYLOAD_ID = ''user-data-payload''"

definition get_initial_measurement :: "bytes btree_map \<Rightarrow> bytes option" where
  "get_initial_measurement results = btm_get results INITIAL_MEASUREMENT_ID"

definition set_initial_measurement :: "bytes btree_map \<Rightarrow> bytes \<Rightarrow> bytes btree_map" where
  "set_initial_measurement results key = btm_insert INITIAL_MEASUREMENT_ID key results"

definition set_session_binding_public_key :: "bytes btree_map \<Rightarrow> bytes \<Rightarrow> bytes btree_map" where
  "set_session_binding_public_key results key = btm_insert SESSION_BINDING_PUBLIC_KEY_ID key results"

definition get_hybrid_encryption_public_key :: "bytes btree_map \<Rightarrow> bytes option" where
  "get_hybrid_encryption_public_key results = btm_get results HYBRID_ENCRYPTION_PUBLIC_KEY_ID"

definition set_hybrid_encryption_public_key :: "bytes btree_map \<Rightarrow> bytes \<Rightarrow> bytes btree_map" where
  "set_hybrid_encryption_public_key results key = btm_insert HYBRID_ENCRYPTION_PUBLIC_KEY_ID key results"

definition set_signing_public_key :: "bytes btree_map \<Rightarrow> bytes \<Rightarrow> bytes btree_map" where
  "set_signing_public_key results key = btm_insert SIGNING_PUBLIC_KEY_ID key results"

definition get_user_data_payload :: "bytes btree_map \<Rightarrow> bytes option" where
  "get_user_data_payload results = btm_get results USER_DATA_PAYLOAD_ID"

definition set_user_data_payload :: "bytes btree_map \<Rightarrow> bytes \<Rightarrow> bytes btree_map" where
  "set_user_data_payload results p = btm_insert USER_DATA_PAYLOAD_ID p results"

definition unique_event_artifact :: "attestation_results \<Rightarrow> string \<Rightarrow> (bytes, string) result" where
  "unique_event_artifact results artifact_id =
     (case List.map_filter (\<lambda>e. btm_get e artifact_id) (event_attestation_results results) of
        [] \<Rightarrow> Err ''missing artifact''
      | [first] \<Rightarrow> Ok first
      | first # second # _ \<Rightarrow> Err ''duplicate artifact'')"

definition unique_session_binding_public_key :: "attestation_results \<Rightarrow> (bytes, string) result" where
  "unique_session_binding_public_key results = unique_event_artifact results SESSION_BINDING_PUBLIC_KEY_ID"

definition unique_hybrid_encryption_public_key :: "attestation_results \<Rightarrow> (bytes, string) result" where
  "unique_hybrid_encryption_public_key results = unique_event_artifact results HYBRID_ENCRYPTION_PUBLIC_KEY_ID"

definition unique_signing_public_key :: "attestation_results \<Rightarrow> (bytes, string) result" where
  "unique_signing_public_key results = unique_event_artifact results SIGNING_PUBLIC_KEY_ID"


subsection \<open>Signers and verifiers\<close>

text \<open>\<open>impl Signer for SigningKey\<close>; the infallible \<open>sign\<close> panics where \<open>try_sign\<close> fails.\<close>

definition signing_key_sign :: "'x session_lib_scheme \<Rightarrow> bytes \<Rightarrow> bytes \<Rightarrow> (bytes, 'e) result" where
  "signing_key_sign L sk m = expect (ecdsa_sign L sk m)"

definition verifying_key_verify :: "'x session_lib_scheme \<Rightarrow> bytes \<Rightarrow> verifier" where
  "verifying_key_verify L key m sig =
     bind_result (if ecdsa_signature_valid L sig then Ok sig
                  else context_err ''could not parse signature'' (bail ''signature error''))
       (\<lambda>parsed. if ecdsa_check L key m parsed then Ok () else bail ''signature error'')"

definition verifying_key_from_sec1_bytes :: "'x session_lib_scheme \<Rightarrow> bytes \<Rightarrow> (bytes, error) result" where
  "verifying_key_from_sec1_bytes L key =
     (if ecdsa_key_valid L key then Ok key else bail ''signature error'')"


subsection \<open>Key extractors\<close>

definition default_signing_key_extractor :: "'x session_lib_scheme \<Rightarrow> key_extractor" where
  "default_signing_key_extractor L results =
     bind_result (ok_or (Msg ''missing signing public key in the evidence'') (results_extracted_evidence results))
       (\<lambda>ee. map_ok (verifying_key_verify L)
          (map_err (Ctx ''couldn't create a verifying key from the signing key in the evidence'')
             (verifying_key_from_sec1_bytes L (signing_public_key ee))))"

definition default_binding_key_extractor :: "'x session_lib_scheme \<Rightarrow> key_extractor" where
  "default_binding_key_extractor L results =
     bind_result (context_err ''getting unique session binding public key''
                    (map_err Msg (unique_session_binding_public_key results)))
       (\<lambda>key. map_ok (verifying_key_verify L)
          (map_err (Ctx ''couldn't create a verifying key from the session binding public key in the evidence'')
             (verifying_key_from_sec1_bytes L key)))"


subsection \<open>Binders and binding verifiers\<close>

record signature_binder =
  sb_signer :: signer
  sb_additional_data :: bytes

definition signature_binder_new :: "signer \<Rightarrow> signature_binder" where
  "signature_binder_new s = \<lparr>sb_signer = s, sb_additional_data = []\<rparr>"

definition signature_binder_new_with_additional_data :: "signer \<Rightarrow> bytes \<Rightarrow> signature_binder" where
  "signature_binder_new_with_additional_data s d = \<lparr>sb_signer = s, sb_additional_data = d\<rparr>"

definition signature_binder_bind :: "signature_binder \<Rightarrow> session_binder" where
  "signature_binder_bind b bound_data = sb_signer b (bound_data @ sb_additional_data b)"

record signature_binding_verifier =
  sbv_verifier :: verifier
  sbv_additional_data :: bytes

definition signature_verify_binding :: "signature_binding_verifier \<Rightarrow> session_binding_verifier" where
  "signature_verify_binding v bound_data b = sbv_verifier v (bound_data @ sbv_additional_data v) b"

definition signature_binding_verifier_provider :: "key_extractor \<Rightarrow> session_binding_verifier_provider" where
  "signature_binding_verifier_provider extract results =
     map_ok (\<lambda>key. signature_verify_binding \<lparr>sbv_verifier = key, sbv_additional_data = []\<rparr>) (extract results)"

definition SESSION_BINDING_INFO_STRING :: bytes where
  "SESSION_BINDING_INFO_STRING = str_bytes ''04abb564-eeb9-42b7-8091-4d67cdb4d536''"

definition create_session_binding_token :: "'x crypto_scheme \<Rightarrow> bytes \<Rightarrow> bytes \<Rightarrow> bytes" where
  "create_session_binding_token C attestation_binding_token hash =
     sha256_digest C (attestation_binding_token @ hash @ SESSION_BINDING_INFO_STRING)"


subsection \<open>Bindable assertions\<close>

record session_key_generator =
  session_key_assertion :: assertion
  binding_signer :: bytes

definition create_with_assertion ::
  "'x session_lib_scheme \<Rightarrow> assertion \<Rightarrow> bytes \<Rightarrow> session_key_generator" where
  "create_with_assertion L inner_assertion signer =
     (let public_key = ecdsa_public_key L signer
      in \<lparr>session_key_assertion = Assertion (encode_key_wrapper L public_key (Some inner_assertion)),
          binding_signer = signer\<rparr>)"

definition create_with_assertion_generator ::
  "'x session_lib_scheme \<Rightarrow> assertion_generator \<Rightarrow> bytes \<Rightarrow> (session_key_generator, error) result" where
  "create_with_assertion_generator L generator signer =
     (let public_key = ecdsa_public_key L signer
      in bind_result (generator public_key)
           (\<lambda>inner_assertion. Ok (create_with_assertion L inner_assertion signer)))"

definition session_key_bind ::
  "'x session_lib_scheme \<Rightarrow> bytes \<Rightarrow> bytes \<Rightarrow> (session_binding, generator_error) result" where
  "session_key_bind L signer bound_data =
     bind_result (ok_or (BindingGenerationFailure (Msg ''failed to sign bound data'')) (ecdsa_sign L signer bound_data))
       (\<lambda>signature. Ok (SessionBinding signature))"

definition session_key_generate ::
  "'x session_lib_scheme \<Rightarrow> session_key_generator \<Rightarrow> bindable_assertion_generator" where
  "session_key_generate L g =
     Ok \<lparr>ba_assertion = session_key_assertion g, ba_bind = session_key_bind L (binding_signer g)\<rparr>"


subsection \<open>Verified assertions\<close>

definition session_key_verify_binding ::
  "'x session_lib_scheme \<Rightarrow> bytes \<Rightarrow> bytes \<Rightarrow> session_binding \<Rightarrow> (unit, bound_assertion_verification_error) result" where
  "session_key_verify_binding L key bound_data b =
     bind_result
       (if ecdsa_signature_valid L (binding b) then Ok (binding b)
        else Err (BindingVerificationFailure (Msg ''session binding is not a valid signature'')))
       (\<lambda>signature. if ecdsa_check L key bound_data signature then Ok ()
          else Err (BindingVerificationFailure (Msg ''failed to verify session binding signature'')))"

definition session_key_verify_assertion ::
  "'x session_lib_scheme \<Rightarrow> assertion_verifier \<Rightarrow> int \<Rightarrow> bound_assertion_verifier" where
  "session_key_verify_assertion L verify now a =
     bind_result (ok_or AssertionParsingError (decode_key_wrapper L (content a)))
       (\<lambda>(public_key, inner).
     bind_result (ok_or (AssertionMissingExpectedFields
                    (Msg ''missing inner_assertion in SessionBindingKeyWrapperAssertion'')) inner)
       (\<lambda>inner_assertion.
     bind_result (map_err (\<lambda>e. GenericFailure (Ctx ''failed to verify assertion'' e))
                    (verify inner_assertion public_key now))
       (\<lambda>_.
     bind_result (map_err (\<lambda>e. GenericFailure (Ctx ''failed to create verifier from public key'' e))
                    (verifying_key_from_sec1_bytes L public_key))
       (\<lambda>key. Ok \<lparr>vba_assertion = a, vba_verify_binding = session_key_verify_binding L key\<rparr>))))"


subsection \<open>Properties\<close>

lemma verifying_key_verify_Ok_iff:
  "verifying_key_verify L key m sig = Ok u \<longleftrightarrow> ecdsa_signature_valid L sig \<and> ecdsa_check L key m sig"
  by (simp add: verifying_key_verify_def result_simps)

lemma session_key_verify_binding_Ok_iff:
  "session_key_verify_binding L key d b = Ok u \<longleftrightarrow>
     ecdsa_signature_valid L (binding b) \<and> ecdsa_check L key d (binding b)"
  by (simp add: session_key_verify_binding_def)

lemma session_key_verify_assertion_Ok_iff:
  "session_key_verify_assertion L verify now a = Ok v \<longleftrightarrow>
     (\<exists>key inner. decode_key_wrapper L (content a) = Some (key, Some inner) \<and>
        verify inner key now = Ok () \<and> ecdsa_key_valid L key \<and>
        v = \<lparr>vba_assertion = a, vba_verify_binding = session_key_verify_binding L key\<rparr>)"
  by (auto simp: session_key_verify_assertion_def verifying_key_from_sec1_bytes_def result_simps
      split: prod.splits if_splits)

lemma unique_event_artifact_Ok_iff:
  "unique_event_artifact results i = Ok x \<longleftrightarrow>
     List.map_filter (\<lambda>e. btm_get e i) (event_attestation_results results) = [x]"
  by (auto simp: unique_event_artifact_def split: list.splits)

text \<open>
  C23. An accepted assertion binds with the attested key: whenever the session key verifier
  accepts an assertion, the inner assertion was verified, at the current time, for the very
  public key under which session bindings of this assertion are then checked.
\<close>

theorem accepted_assertion_binds_attested_key:
  assumes "session_key_verify_assertion L verify now a = Ok v"
  shows "\<exists>key inner. decode_key_wrapper L (content a) = Some (key, Some inner) \<and>
    verify inner key now = Ok () \<and> vba_assertion v = a \<and>
    (\<forall>d b. vba_verify_binding v d b = Ok () \<longleftrightarrow>
       ecdsa_signature_valid L (binding b) \<and> ecdsa_check L key d (binding b))"
  using assms by (auto simp: session_key_verify_assertion_Ok_iff session_key_verify_binding_Ok_iff)

theorem accepted_assertion_binds_attested_key_witness:
  "\<exists>v. session_key_verify_assertion example_lib (\<lambda>a k t. Ok ()) 0
     (Assertion (encode_key_wrapper example_lib [7] (Some (Assertion [1])))) = Ok v \<and>
   (\<exists>key. \<forall>d b. vba_verify_binding v d b = Ok () \<longleftrightarrow> binding b = key @ d)"
proof -
  obtain v where v: "session_key_verify_assertion example_lib (\<lambda>a k t. Ok ()) 0
     (Assertion (encode_key_wrapper example_lib [7] (Some (Assertion [1])))) = Ok v"
    using example_lib_correct(4) by (simp add: session_key_verify_assertion_Ok_iff key_wrapper_correct_def)
  from accepted_assertion_binds_attested_key [OF this] v show ?thesis by auto
qed

text \<open>
  C24. Session key assertions round trip: an assertion generated over a signing key is
  accepted by a verifier whose inner verifier accepts what the inner generator makes, and
  the session binding the generator produces verifies for the same bound data.
\<close>

theorem session_key_binding_round_trip:
  assumes "ecdsa_correct L" "key_wrapper_correct L"
    and "create_with_assertion_generator L generator sk = Ok g"
    and "\<forall>key inner. generator key = Ok inner \<longrightarrow> verify inner key now = Ok ()"
    and "session_key_generate L g = Ok ba" "ba_bind ba d = Ok b"
  shows "\<exists>v. session_key_verify_assertion L verify now (ba_assertion ba) = Ok v \<and> vba_verify_binding v d b = Ok ()"
  using assms
  by (auto simp: ecdsa_correct_def key_wrapper_correct_def create_with_assertion_generator_def
      create_with_assertion_def session_key_generate_def session_key_bind_def result_simps Let_def
      session_key_verify_assertion_Ok_iff session_key_verify_binding_Ok_iff)

theorem session_key_binding_round_trip_witness:
  "\<exists>g ba b v. create_with_assertion_generator example_lib (\<lambda>key. Ok (Assertion key)) [7] = Ok g \<and>
    session_key_generate example_lib g = Ok ba \<and> ba_bind ba [1, 2] = Ok b \<and>
    session_key_verify_assertion example_lib (\<lambda>a key t. if content a = key then Ok () else bail []) 5 (ba_assertion ba) = Ok v \<and>
    vba_verify_binding v [1, 2] b = Ok ()"
proof -
  let ?gen = "\<lambda>key. Ok (Assertion key)"
  let ?ver = "\<lambda>a key t. if content a = key then Ok () else bail []"
  obtain g ba b where g: "create_with_assertion_generator example_lib ?gen [7] = Ok g"
    "session_key_generate example_lib g = Ok ba" "ba_bind ba [1, 2] = Ok b"
    by (simp add: create_with_assertion_generator_def session_key_generate_def session_key_bind_def Let_def
        create_with_assertion_def)
  from session_key_binding_round_trip [OF example_lib_correct(2,4) g(1) _ g(2,3), of ?ver 5] g show ?thesis
    by auto
qed

end
