(* ===== verification/Session_Attestation.thy ===== *)
theory Session_Attestation
  imports Session_Aggregators Session_Binding
begin

section \<open>The attestation step\<close>

text \<open>
  Models \<^verbatim>\<open>oak_session/src/attestation.rs\<close>: the exchange of evidence and assertions, their
  verification against the configured verifiers, the verdict, and the token that binds the
  exchanged assertions to the handshake. The client and the server handler have the same
  fields; the field \<open>attest_message\<close> is \<open>attest_request\<close> of the one and \<open>attest_response\<close>
  of the other. \<open>take_attestation_state\<close> consumes the handler.
\<close>

datatype attestation_type = Bidirectional | SelfUnidirectional | PeerUnidirectional | Unattested

record attestation_handler_config =
  self_attesters :: "attester btree_map"
  self_assertion_generators :: "bindable_assertion_generator btree_map"
  self_endorsers :: "endorser btree_map"
  peer_verifiers :: "peer_attestation_verifier btree_map"
  peer_assertion_verifiers :: "bound_assertion_verifier btree_map"
  legacy_attestation_results_aggregator :: legacy_aggregator
  assertion_attestation_aggregator :: assertion_results_aggregator


subsection \<open>The verdict\<close>

text \<open>The text of a failure, kept as the aggregated errors it renders.\<close>

datatype failure_reason =
    AssertionVerificationFailed aggregated_verification_error
  | LegacyVerificationFailed aggregated_verification_error
  | LegacyAndAssertionVerificationFailed aggregated_verification_error aggregated_verification_error

datatype peer_attestation_verdict =
    AttestationPassed "verifier_result btree_map" "bound_assertion_verifier_result btree_map"
  | AttestationFailed failure_reason "verifier_result btree_map" "bound_assertion_verifier_result btree_map"

fun get_legacy_verification_results :: "peer_attestation_verdict \<Rightarrow> verifier_result btree_map" where
  "get_legacy_verification_results (AttestationPassed l a) = l"
| "get_legacy_verification_results (AttestationFailed _ l a) = l"

fun get_assertion_verification_results ::
  "peer_attestation_verdict \<Rightarrow> bound_assertion_verifier_result btree_map" where
  "get_assertion_verification_results (AttestationPassed l a) = a"
| "get_assertion_verification_results (AttestationFailed _ l a) = a"

definition needs_session_bindings :: "peer_attestation_verdict \<Rightarrow> bool" where
  "needs_session_bindings verdict \<longleftrightarrow>
     list_ex (\<lambda>(_, v). case v of BoundSuccess _ \<Rightarrow> True | BoundFailure _ _ \<Rightarrow> True
                | BoundUnverified _ \<Rightarrow> True | BoundMissing \<Rightarrow> False)
       (entries (get_assertion_verification_results verdict)) \<or>
     list_ex (\<lambda>(_, v). case v of VerifierSuccess _ _ \<Rightarrow> True | VerifierFailure _ _ \<Rightarrow> True
                | VerifierUnverified _ \<Rightarrow> True | VerifierMissing \<Rightarrow> False)
       (entries (get_legacy_verification_results verdict))"

record attestation_state =
  peer_attestation_verdict :: peer_attestation_verdict
  self_assertions :: "bindable_assertion btree_map"
  peer_session_binding_verifiers :: "session_binding_verifier btree_map"
  attestation_binding_token :: bytes


subsection \<open>Combining results\<close>

definition generic_failure :: "error \<Rightarrow> attestation_results" where
  "generic_failure why = default_results\<lparr>results_status := encode_status StatusGenericFailure, results_reason := why\<rparr>"

definition verify_endorsed_evidence ::
  "peer_attestation_verifier \<Rightarrow> endorsed_evidence \<Rightarrow> (verifier_result, error) result" where
  "verify_endorsed_evidence peer_verifier ee =
     (case (ee_evidence ee, ee_endorsements ee) of
        (Some ev, Some en) \<Rightarrow>
          (case pav_verifier peer_verifier ev en of
             Ok res \<Rightarrow>
               Ok (case decode_status (results_status res) of
                     StatusSuccess \<Rightarrow> VerifierSuccess ee res
                   | _ \<Rightarrow> VerifierFailure ee res)
           | Err e \<Rightarrow> Ok (VerifierFailure ee (generic_failure e))
           | Panic \<Rightarrow> Panic)
      | _ \<Rightarrow> Ok (VerifierFailure ee (generic_failure (Msg ''Both evidence and endorsements need to be provided''))))"

definition combine_attestation_results ::
  "'x session_lib_scheme \<Rightarrow> peer_attestation_verifier btree_map \<Rightarrow> endorsed_evidence btree_map \<Rightarrow>
     (verifier_result btree_map, error) result" where
  "combine_attestation_results L verifiers attested_evidence =
     map_ok btm_collect (collect_results (map
       (\<lambda>v. case v of
          Both (_, peer_verifier) (i, ee) \<Rightarrow> (i, verify_endorsed_evidence peer_verifier ee)
        | Left (i, _) \<Rightarrow> (i, Ok VerifierMissing)
        | Right (i, ee) \<Rightarrow> (i, Ok (VerifierUnverified ee)))
       (merge_join_evidence L (entries verifiers) (entries attested_evidence))))"

definition verify_peer_assertion ::
  "bound_assertion_verifier \<Rightarrow> assertion \<Rightarrow> (bound_assertion_verifier_result, error) result" where
  "verify_peer_assertion verifier a =
     (case verifier a of
        Ok v \<Rightarrow> Ok (BoundSuccess v)
      | Err e \<Rightarrow> Ok (BoundFailure a e)
      | Panic \<Rightarrow> Panic)"

definition combine_assertion_results ::
  "'x session_lib_scheme \<Rightarrow> bound_assertion_verifier btree_map \<Rightarrow> assertion btree_map \<Rightarrow>
     (bound_assertion_verifier_result btree_map, error) result" where
  "combine_assertion_results L verifiers as =
     map_ok btm_collect (collect_results (map
       (\<lambda>v. case v of
          Both (i, verifier) (_, a) \<Rightarrow> (i, verify_peer_assertion verifier a)
        | Left (i, _) \<Rightarrow> (i, Ok BoundMissing)
        | Right (i, a) \<Rightarrow> (i, Ok (BoundUnverified a)))
       (merge_join_assertions L (entries verifiers) (entries as))))"

fun combine_legacy_and_assertion_aggregated_verification ::
  "(unit, aggregated_verification_error) result \<Rightarrow> (unit, aggregated_verification_error) result \<Rightarrow>
   verifier_result btree_map \<Rightarrow> bound_assertion_verifier_result btree_map \<Rightarrow>
     (peer_attestation_verdict, error) result" where
  "combine_legacy_and_assertion_aggregated_verification (Ok _) (Ok _) l a = Ok (AttestationPassed l a)"
| "combine_legacy_and_assertion_aggregated_verification (Ok _) (Err e) l a =
     Ok (AttestationFailed (AssertionVerificationFailed e) l a)"
| "combine_legacy_and_assertion_aggregated_verification (Err e) (Ok _) l a =
     Ok (AttestationFailed (LegacyVerificationFailed e) l a)"
| "combine_legacy_and_assertion_aggregated_verification (Err e) (Err f) l a =
     Ok (AttestationFailed (LegacyAndAssertionVerificationFailed e f) l a)"
| "combine_legacy_and_assertion_aggregated_verification Panic _ l a = Panic"
| "combine_legacy_and_assertion_aggregated_verification _ Panic l a = Panic"

definition serialize_assertions :: "'x session_lib_scheme \<Rightarrow> assertion btree_map \<Rightarrow> bytes" where
  "serialize_assertions L as =
     concat (map (\<lambda>(i, a). encode_string L i @ str_bytes '':'' @ content a @ str_bytes ''|'') (entries as))"


subsection \<open>The handlers\<close>

record attestation_handler =
  ah_config :: attestation_handler_config
  ah_attest_message :: "attest_message option"
  ah_attestation_result :: "peer_attestation_verdict option"
  ah_bindable_assertions :: "bindable_assertion btree_map"
  ah_attestation_binding_token :: bytes

definition own_assertions :: "attestation_handler \<Rightarrow> assertion btree_map" where
  "own_assertions ah = btm_map (\<lambda>_ ba. ba_assertion ba) (ah_bindable_assertions ah)"

definition endorse_evidence ::
  "attestation_handler_config \<Rightarrow> string \<Rightarrow> attester \<Rightarrow> (endorsed_evidence, error) result" where
  "endorse_evidence config i attester =
     bind_result attester (\<lambda>ev.
     bind_result (case btm_get (self_endorsers config) i of
                    None \<Rightarrow> Ok None
                  | Some endorser \<Rightarrow> map_ok Some (endorser (Some ev))) (\<lambda>en.
     Ok \<lparr>ee_evidence = Some ev, ee_endorsements = en\<rparr>))"

definition client_attestation_create :: "attestation_handler_config \<Rightarrow> (attestation_handler, error) result" where
  "client_attestation_create config =
     bind_result (btm_try_map (\<lambda>_ gen. map_err from_generator_error gen) (self_assertion_generators config)) (\<lambda>bas.
     bind_result (btm_try_map (endorse_evidence config) (self_attesters config)) (\<lambda>evs.
     Ok \<lparr>ah_config = config,
         ah_attest_message = Some \<lparr>endorsed_evidence = evs, assertions = btm_map (\<lambda>_ ba. ba_assertion ba) bas\<rparr>,
         ah_attestation_result = None,
         ah_bindable_assertions = bas,
         ah_attestation_binding_token = []\<rparr>))"

definition binding_verifier_of ::
  "attestation_handler_config \<Rightarrow> string \<Rightarrow> attestation_results \<Rightarrow> (session_binding_verifier, error) result" where
  "binding_verifier_of config i res =
     (case btm_get (peer_verifiers config) i of
        None \<Rightarrow> Panic
      | Some peer_verifier \<Rightarrow> binding_verifier_provider peer_verifier res)"

definition client_take_attestation_state :: "attestation_handler \<Rightarrow> (attestation_state, error) result" where
  "client_take_attestation_state ah =
     bind_result (ok_or (Msg ''attestation is not complete'') (ah_attestation_result ah)) (\<lambda>verdict.
     bind_result (btm_try_filter_map
         (\<lambda>i r. case r of
            VerifierSuccess _ res \<Rightarrow> Some (binding_verifier_of (ah_config ah) i res)
          | _ \<Rightarrow> None)
         (get_legacy_verification_results verdict)) (\<lambda>verifiers.
     Ok \<lparr>peer_attestation_verdict = verdict,
         self_assertions = ah_bindable_assertions ah,
         peer_session_binding_verifiers = verifiers,
         attestation_binding_token = ah_attestation_binding_token ah\<rparr>))"

definition client_attestation_get_outgoing ::
  "'x session_lib_scheme \<Rightarrow> attestation_handler \<Rightarrow> attestation_handler \<times> (attest_request option, error) result" where
  "client_attestation_get_outgoing L ah =
     (ah\<lparr>ah_attestation_binding_token :=
            ah_attestation_binding_token ah @ serialize_assertions L (own_assertions ah),
         ah_attest_message := None\<rparr>,
      Ok (ah_attest_message ah))"

definition client_attestation_put_incoming ::
  "'x session_lib_scheme \<Rightarrow> attestation_handler \<Rightarrow> attest_response \<Rightarrow>
     attestation_handler \<times> (unit option, error) result" where
  "client_attestation_put_incoming L ah incoming =
     (let ah1 = ah\<lparr>ah_attestation_binding_token :=
                     ah_attestation_binding_token ah @ serialize_assertions L (assertions incoming)\<rparr>;
          config = ah_config ah in
      if ah_attestation_result ah1 \<noteq> None then (ah1, Ok None)
      else
        bind_st (ah1, combine_attestation_results L (peer_verifiers config) (endorsed_evidence incoming)) (\<lambda>ah1 legacy_results.
        bind_st (ah1, combine_assertion_results L (peer_assertion_verifiers config) (assertions incoming)) (\<lambda>ah1 assertion_results.
        bind_st (ah1, combine_legacy_and_assertion_aggregated_verification
                        (legacy_attestation_results_aggregator config legacy_results)
                        (process_assertion_results (assertion_attestation_aggregator config) assertion_results)
                        legacy_results assertion_results) (\<lambda>ah1 verdict.
        (ah1\<lparr>ah_attestation_result := Some verdict\<rparr>, Ok (Some ()))))))"

definition server_attestation_create :: "attestation_handler_config \<Rightarrow> (attestation_handler, error) result" where
  "server_attestation_create config =
     bind_result (btm_try_map (\<lambda>_ gen. map_err from_generator_error gen) (self_assertion_generators config)) (\<lambda>bas.
     bind_result (btm_try_map (endorse_evidence config) (self_attesters config)) (\<lambda>evs.
     Ok \<lparr>ah_config = config,
         ah_attest_message = Some \<lparr>endorsed_evidence = evs, assertions = btm_map (\<lambda>_ ba. ba_assertion ba) bas\<rparr>,
         ah_attestation_result = None,
         ah_bindable_assertions = bas,
         ah_attestation_binding_token = []\<rparr>))"

definition server_take_attestation_state :: "attestation_handler \<Rightarrow> (attestation_state, error) result" where
  "server_take_attestation_state ah =
     bind_result (ok_or (Msg ''attestation is not complete'') (ah_attestation_result ah)) (\<lambda>verdict.
     bind_result (btm_try_filter_map
         (\<lambda>i r. case r of
            VerifierSuccess _ res \<Rightarrow> Some (binding_verifier_of (ah_config ah) i res)
          | _ \<Rightarrow> None)
         (get_legacy_verification_results verdict)) (\<lambda>verifiers.
     Ok \<lparr>peer_attestation_verdict = verdict,
         self_assertions = ah_bindable_assertions ah,
         peer_session_binding_verifiers = verifiers,
         attestation_binding_token = ah_attestation_binding_token ah\<rparr>))"

definition server_attestation_get_outgoing ::
  "'x session_lib_scheme \<Rightarrow> attestation_handler \<Rightarrow> attestation_handler \<times> (attest_response option, error) result" where
  "server_attestation_get_outgoing L ah =
     (ah\<lparr>ah_attestation_binding_token :=
            ah_attestation_binding_token ah @ serialize_assertions L (own_assertions ah),
         ah_attest_message := None\<rparr>,
      Ok (ah_attest_message ah))"

definition server_attestation_put_incoming ::
  "'x session_lib_scheme \<Rightarrow> attestation_handler \<Rightarrow> attest_request \<Rightarrow>
     attestation_handler \<times> (unit option, error) result" where
  "server_attestation_put_incoming L ah incoming =
     (let ah1 = ah\<lparr>ah_attestation_binding_token :=
                     ah_attestation_binding_token ah @ serialize_assertions L (assertions incoming)\<rparr>;
          config = ah_config ah in
      if ah_attestation_result ah1 \<noteq> None then (ah1, Ok None)
      else
        bind_st (ah1, combine_attestation_results L (peer_verifiers config) (endorsed_evidence incoming)) (\<lambda>ah1 legacy_results.
        bind_st (ah1, combine_assertion_results L (peer_assertion_verifiers config) (assertions incoming)) (\<lambda>ah1 assertion_results.
        bind_st (ah1, combine_legacy_and_assertion_aggregated_verification
                        (legacy_attestation_results_aggregator config legacy_results)
                        (process_assertion_results (assertion_attestation_aggregator config) assertion_results)
                        legacy_results assertion_results) (\<lambda>ah1 verdict.
        (ah1\<lparr>ah_attestation_result := Some verdict\<rparr>, Ok (Some ()))))))"


subsection \<open>An example configuration\<close>

text \<open>
  A peer with one attester, one endorser and one session key assertion, which expects the
  same of the other side.
\<close>

definition example_results :: attestation_results where
  "example_results = default_results\<lparr>results_status := 1,
     results_extracted_evidence := Some \<lparr>encryption_public_key = [], signing_public_key = [7]\<rparr>\<rparr>"

definition example_generator :: session_key_generator where
  "example_generator = create_with_assertion example_lib (Assertion [5]) [9]"

definition example_handler_config :: attestation_handler_config where
  "example_handler_config =
     \<lparr>self_attesters = btm_insert ''tee'' (Ok (Evidence [1])) btm_empty,
      self_assertion_generators = btm_insert ''key'' (session_key_generate example_lib example_generator) btm_empty,
      self_endorsers = btm_insert ''tee'' (\<lambda>_. Ok (Endorsements [2])) btm_empty,
      peer_verifiers = btm_insert ''tee''
        \<lparr>pav_verifier = (\<lambda>ev en. Ok example_results),
         binding_verifier_provider = signature_binding_verifier_provider (default_signing_key_extractor example_lib)\<rparr> btm_empty,
      peer_assertion_verifiers = btm_insert ''key'' (session_key_verify_assertion example_lib (\<lambda>a key now. Ok ()) 0) btm_empty,
      legacy_attestation_results_aggregator = default_legacy_aggregator,
      assertion_attestation_aggregator = All\<rparr>"


subsection \<open>Specification of the combined results\<close>

lemma merge_join_both: "Both x y \<in> set (merge_join xs ys) \<Longrightarrow> fst x = fst y"
  by (induction xs ys rule: merge_join.induct) (auto split: if_splits)

lemma merge_join_evidence_eq:
  "merge_join_correct L \<Longrightarrow> merge_join_evidence L (entries m) (entries m') = merge_join (entries m) (entries m')"
  using btm.iter_sorted [of m] btm.iter_sorted [of m'] by (simp add: merge_join_correct_def)

lemma merge_join_assertions_eq:
  "merge_join_correct L \<Longrightarrow> merge_join_assertions L (entries m) (entries m') = merge_join (entries m) (entries m')"
  using btm.iter_sorted [of m] btm.iter_sorted [of m'] by (simp add: merge_join_correct_def)

text \<open>The result map of a merge has, at each key, the outcome for what both sides have there.\<close>

lemma collect_merge_get:
  assumes "map_ok btm_collect (collect_results (map f (merge_join (entries m) (entries m')))) = Ok rs"
    and "\<And>j. j \<in> set (merge_join (entries m) (entries m')) \<Longrightarrow> f j = (join_key j, g j)"
  shows "map_option Ok (btm_get rs k) =
    (case (btm_get m k, btm_get m' k) of
       (None, None) \<Rightarrow> None
     | (Some a, None) \<Rightarrow> Some (g (Left (k, a)))
     | (None, Some b) \<Rightarrow> Some (g (Right (k, b)))
     | (Some a, Some b) \<Rightarrow> Some (g (Both (k, a) (k, b))))"
proof -
  let ?js = "merge_join (entries m) (entries m')"
  from assms(1) obtain ws where ws: "collect_results (map f ?js) = Ok ws" "rs = btm_collect ws"
    by (auto simp: result_simps)
  have f: "map f ?js = map (\<lambda>j. (join_key j, g j)) ?js" using assms(2) by simp
  with collect_results_keys [OF ws(1)] have "map fst ws = map join_key ?js" by (simp add: comp_def)
  with merge_join_sorted [OF btm.iter_sorted btm.iter_sorted, of m m'] ws(2) have rs: "entries rs = ws"
    by (metis entries_collect)
  have "map_option Ok (map_of ws k) = map_of (map f ?js) k"
  proof -
    have "map f ?js = map (\<lambda>(k, w). (k, Ok w)) ws"
      using ws(1) by (intro pair_list_eqI) (auto simp: collect_results_Ok case_prod_unfold comp_def)
    then show ?thesis by (simp add: map_of_map_entries)
  qed
  then show ?thesis
    using merge_join_get [OF btm.iter_sorted btm.iter_sorted, of g m m' k] rs by (simp add: btm_get_def f)
qed

lemma combine_attestation_results_get:
  assumes "merge_join_correct L" "combine_attestation_results L vs ev = Ok rs"
  shows "map_option Ok (btm_get rs k) =
    (case (btm_get vs k, btm_get ev k) of
       (None, None) \<Rightarrow> None
     | (Some v, None) \<Rightarrow> Some (Ok VerifierMissing)
     | (None, Some ee) \<Rightarrow> Some (Ok (VerifierUnverified ee))
     | (Some v, Some ee) \<Rightarrow> Some (verify_endorsed_evidence v ee))"
proof -
  let ?g = "\<lambda>v :: (string \<times> peer_attestation_verifier, string \<times> endorsed_evidence) either_or_both. case v of
      Both (_, peer_verifier) (i, ee) \<Rightarrow> verify_endorsed_evidence peer_verifier ee
    | Left (i, _) \<Rightarrow> Ok VerifierMissing | Right (i, ee) \<Rightarrow> Ok (VerifierUnverified ee)"
  have "map_option Ok (btm_get rs k) = (case (btm_get vs k, btm_get ev k) of
       (None, None) \<Rightarrow> None | (Some a, None) \<Rightarrow> Some (?g (Left (k, a)))
     | (None, Some b) \<Rightarrow> Some (?g (Right (k, b))) | (Some a, Some b) \<Rightarrow> Some (?g (Both (k, a) (k, b))))"
    using assms(2) unfolding combine_attestation_results_def merge_join_evidence_eq [OF assms(1)]
    by (rule collect_merge_get [where g = ?g]) (auto dest: merge_join_both split: either_or_both.splits)
  then show ?thesis by (simp cong: option.case_cong)
qed

lemma combine_assertion_results_get:
  assumes "merge_join_correct L" "combine_assertion_results L vs as = Ok rs"
  shows "map_option Ok (btm_get rs k) =
    (case (btm_get vs k, btm_get as k) of
       (None, None) \<Rightarrow> None
     | (Some v, None) \<Rightarrow> Some (Ok BoundMissing)
     | (None, Some a) \<Rightarrow> Some (Ok (BoundUnverified a))
     | (Some v, Some a) \<Rightarrow> Some (verify_peer_assertion v a))"
proof -
  let ?g = "\<lambda>v :: (string \<times> bound_assertion_verifier, string \<times> assertion) either_or_both. case v of
      Both (i, verifier) (_, a) \<Rightarrow> verify_peer_assertion verifier a
    | Left (i, _) \<Rightarrow> Ok BoundMissing | Right (i, a) \<Rightarrow> Ok (BoundUnverified a)"
  have "map_option Ok (btm_get rs k) = (case (btm_get vs k, btm_get as k) of
       (None, None) \<Rightarrow> None | (Some a, None) \<Rightarrow> Some (?g (Left (k, a)))
     | (None, Some b) \<Rightarrow> Some (?g (Right (k, b))) | (Some a, Some b) \<Rightarrow> Some (?g (Both (k, a) (k, b))))"
    using assms(2) unfolding combine_assertion_results_def merge_join_assertions_eq [OF assms(1)]
    by (rule collect_merge_get [where g = ?g]) (auto dest: merge_join_both split: either_or_both.splits)
  then show ?thesis by (simp cong: option.case_cong)
qed

lemma combine_assertion_results_cover:
  assumes "merge_join_correct L" "combine_assertion_results L vs as = Ok rs"
  shows "results_cover vs rs"
  unfolding results_cover_def
proof (intro allI impI)
  fix k assume "btm_get vs k \<noteq> None"
  with combine_assertion_results_get [OF assms, of k] show "\<exists>r. btm_get rs k = Some r \<and> \<not> is_unverified r"
    by (auto simp: verify_peer_assertion_def split: option.splits result.splits)
qed


subsection \<open>Soundness of the verdict\<close>

text \<open>
  A verdict that the configuration justifies: every success was returned by the verifier
  configured under that ID, every configured verifier has a result, and a verdict that
  passed was accepted by both aggregators.
\<close>

definition verdict_sound :: "attestation_handler_config \<Rightarrow> peer_attestation_verdict \<Rightarrow> bool" where
  "verdict_sound config verdict \<longleftrightarrow>
     (\<forall>k ee res. btm_get (get_legacy_verification_results verdict) k = Some (VerifierSuccess ee res) \<longrightarrow>
        (\<exists>pv ev en. btm_get (peer_verifiers config) k = Some pv \<and> ee_evidence ee = Some ev \<and>
           ee_endorsements ee = Some en \<and> pav_verifier pv ev en = Ok res \<and>
           decode_status (results_status res) = StatusSuccess)) \<and>
     (\<forall>k v. btm_get (get_assertion_verification_results verdict) k = Some (BoundSuccess v) \<longrightarrow>
        (\<exists>bv a. btm_get (peer_assertion_verifiers config) k = Some bv \<and> bv a = Ok v)) \<and>
     results_cover (peer_assertion_verifiers config) (get_assertion_verification_results verdict) \<and>
     (\<forall>k. btm_get (peer_verifiers config) k \<noteq> None \<longrightarrow>
        (\<exists>r. btm_get (get_legacy_verification_results verdict) k = Some r \<and> (\<forall>ee. r \<noteq> VerifierUnverified ee))) \<and>
     (\<forall>l a. verdict = AttestationPassed l a \<longrightarrow>
        legacy_attestation_results_aggregator config l = Ok () \<and>
        process_assertion_results (assertion_attestation_aggregator config) a = Ok ())"

definition handler_sound :: "attestation_handler \<Rightarrow> bool" where
  "handler_sound ah \<longleftrightarrow> (\<forall>verdict. ah_attestation_result ah = Some verdict \<longrightarrow> verdict_sound (ah_config ah) verdict)"

lemma combine_verification_Ok:
  assumes "combine_legacy_and_assertion_aggregated_verification lr ar l a = Ok verdict"
  shows "get_legacy_verification_results verdict = l" "get_assertion_verification_results verdict = a"
    and "verdict = AttestationPassed l' a' \<Longrightarrow> lr = Ok () \<and> ar = Ok () \<and> l' = l \<and> a' = a"
  using assms by (cases lr; cases ar; force)+

lemma combined_verdict_sound:
  assumes "merge_join_correct L"
    and l: "combine_attestation_results L (peer_verifiers config) ev = Ok l"
    and a: "combine_assertion_results L (peer_assertion_verifiers config) as = Ok a"
    and v: "combine_legacy_and_assertion_aggregated_verification
      (legacy_attestation_results_aggregator config l)
      (process_assertion_results (assertion_attestation_aggregator config) a) l a = Ok verdict"
  shows "verdict_sound config verdict"
proof -
  note get_l = combine_attestation_results_get [OF assms(1) l]
  note get_a = combine_assertion_results_get [OF assms(1) a]
  have "\<exists>pv evd en. btm_get (peer_verifiers config) k = Some pv \<and> ee_evidence ee = Some evd \<and>
      ee_endorsements ee = Some en \<and> pav_verifier pv evd en = Ok res \<and>
      decode_status (results_status res) = StatusSuccess"
    if "btm_get l k = Some (VerifierSuccess ee res)" for k ee res
    using get_l [of k] that
    by (auto simp: verify_endorsed_evidence_def split: option.splits result.splits attestation_status.splits)
  moreover have "\<exists>bv x. btm_get (peer_assertion_verifiers config) k = Some bv \<and> bv x = Ok vb"
    if "btm_get a k = Some (BoundSuccess vb)" for k vb
    using get_a [of k] that by (auto simp: verify_peer_assertion_def split: option.splits result.splits)
  moreover have "\<exists>r. btm_get l k = Some r \<and> (\<forall>ee. r \<noteq> VerifierUnverified ee)"
    if "btm_get (peer_verifiers config) k \<noteq> None" for k
    using get_l [of k] that
    by (auto simp: verify_endorsed_evidence_def split: option.splits result.splits attestation_status.splits)
  moreover note combine_assertion_results_cover [OF assms(1) a]
  ultimately show ?thesis
    using combine_verification_Ok [OF v] by (auto simp: verdict_sound_def)
qed

lemma client_put_incoming_sound:
  assumes "merge_join_correct L" "handler_sound ah" "client_attestation_put_incoming L ah m = (ah', r)"
  shows "handler_sound ah' \<and> ah_config ah' = ah_config ah"
  using assms(2,3) combined_verdict_sound [OF assms(1)]
  by (auto simp: client_attestation_put_incoming_def handler_sound_def bind_st_def Let_def
      split: if_splits result.splits)

lemma client_get_outgoing_sound:
  assumes "handler_sound ah" "client_attestation_get_outgoing L ah = (ah', r)"
  shows "handler_sound ah' \<and> ah_config ah' = ah_config ah"
  using assms by (auto simp: client_attestation_get_outgoing_def handler_sound_def)

text \<open>The server's handler is the client's under other names.\<close>

lemma server_attestation_eq:
  "server_attestation_create = client_attestation_create"
  "server_take_attestation_state = client_take_attestation_state"
  "server_attestation_get_outgoing = client_attestation_get_outgoing"
  "server_attestation_put_incoming = client_attestation_put_incoming"
  by (simp_all add: fun_eq_iff server_attestation_create_def client_attestation_create_def
      server_take_attestation_state_def client_take_attestation_state_def
      server_attestation_get_outgoing_def client_attestation_get_outgoing_def
      server_attestation_put_incoming_def client_attestation_put_incoming_def)

lemma client_create_sound: "client_attestation_create config = Ok ah \<Longrightarrow>
  handler_sound ah \<and> ah_config ah = config \<and> ah_attestation_result ah = None"
  by (auto simp: client_attestation_create_def handler_sound_def result_simps)

lemma take_attestation_state_Ok:
  assumes "client_take_attestation_state ah = Ok st"
  shows "ah_attestation_result ah = Some (peer_attestation_verdict st)"
    and "self_assertions st = ah_bindable_assertions ah"
    and "attestation_binding_token st = ah_attestation_binding_token ah"
    and "btm_get (get_legacy_verification_results (peer_attestation_verdict st)) k = Some (VerifierSuccess ee res) \<Longrightarrow>
      \<exists>pv bv. btm_get (peer_verifiers (ah_config ah)) k = Some pv \<and> binding_verifier_provider pv res = Ok bv \<and>
        btm_get (peer_session_binding_verifiers st) k = Some bv"
proof -
  from assms obtain verdict where v: "ah_attestation_result ah = Some verdict"
    and f: "btm_try_filter_map (\<lambda>i r. case r of VerifierSuccess _ res \<Rightarrow> Some (binding_verifier_of (ah_config ah) i res) | _ \<Rightarrow> None)
        (get_legacy_verification_results verdict) = Ok (peer_session_binding_verifiers st)"
    and st: "peer_attestation_verdict st = verdict" "self_assertions st = ah_bindable_assertions ah"
      "attestation_binding_token st = ah_attestation_binding_token ah"
    by (auto simp: client_take_attestation_state_def result_simps)
  show "ah_attestation_result ah = Some (peer_attestation_verdict st)" "self_assertions st = ah_bindable_assertions ah"
    "attestation_binding_token st = ah_attestation_binding_token ah" using v st by auto
  show "\<exists>pv bv. btm_get (peer_verifiers (ah_config ah)) k = Some pv \<and> binding_verifier_provider pv res = Ok bv \<and>
      btm_get (peer_session_binding_verifiers st) k = Some bv"
    if "btm_get (get_legacy_verification_results (peer_attestation_verdict st)) k = Some (VerifierSuccess ee res)"
    using btm_try_filter_map_get [OF f, of k] that st(1)
    by (auto simp: binding_verifier_of_def split: option.splits)
qed


subsection \<open>Reachable handlers\<close>

inductive attestation_reachable :: "'x session_lib_scheme \<Rightarrow> attestation_handler_config \<Rightarrow> attestation_handler \<Rightarrow> bool"
  for L config where
  client_created: "client_attestation_create config = Ok ah \<Longrightarrow> attestation_reachable L config ah"
| server_created: "server_attestation_create config = Ok ah \<Longrightarrow> attestation_reachable L config ah"
| client_sends: "attestation_reachable L config ah \<Longrightarrow> client_attestation_get_outgoing L ah = (ah', r) \<Longrightarrow>
    attestation_reachable L config ah'"
| server_sends: "attestation_reachable L config ah \<Longrightarrow> server_attestation_get_outgoing L ah = (ah', r) \<Longrightarrow>
    attestation_reachable L config ah'"
| client_receives: "attestation_reachable L config ah \<Longrightarrow> client_attestation_put_incoming L ah m = (ah', r') \<Longrightarrow>
    attestation_reachable L config ah'"
| server_receives: "attestation_reachable L config ah \<Longrightarrow> server_attestation_put_incoming L ah m = (ah', r') \<Longrightarrow>
    attestation_reachable L config ah'"

lemma attestation_reachable_sound:
  assumes "merge_join_correct L" "attestation_reachable L config ah"
  shows "handler_sound ah \<and> ah_config ah = config"
  using assms(2)
  by (induction rule: attestation_reachable.induct)
    (auto simp: server_attestation_eq dest: client_create_sound client_get_outgoing_sound
      client_put_incoming_sound [OF assms(1)])


subsection \<open>The binding token\<close>

text \<open>A handler that records the assertions it sends and receives, in the order it does so.\<close>

locale token_recorder =
  fixes get :: "'h \<Rightarrow> 'h \<times> (attest_message option, error) result"
    and put :: "'h \<Rightarrow> attest_message \<Rightarrow> 'h \<times> (unit option, error) result"
    and token :: "'h \<Rightarrow> bytes"
    and own :: "'h \<Rightarrow> assertion btree_map"
    and serialize :: "assertion btree_map \<Rightarrow> bytes"
  assumes get_token: "get ah = (ah', r) \<Longrightarrow> token ah' = token ah @ serialize (own ah)"
    and put_token: "put ah m = (ah', r') \<Longrightarrow> token ah' = token ah @ serialize (assertions m)"
    and get_own: "get ah = (ah', r) \<Longrightarrow> own ah' = own ah"
    and put_own: "put ah m = (ah', r') \<Longrightarrow> own ah' = own ah"
begin

lemma send_then_receive:
  "get ah = (ah1, r) \<Longrightarrow> put ah1 m = (ah2, r') \<Longrightarrow> token ah2 = token ah @ serialize (own ah) @ serialize (assertions m)"
  using get_token put_token by fastforce

lemma receive_then_send:
  "put ah m = (ah1, r') \<Longrightarrow> get ah1 = (ah2, r) \<Longrightarrow> token ah2 = token ah @ serialize (assertions m) @ serialize (own ah)"
  using get_token put_token put_own by fastforce

end

lemma client_put_frame:
  "client_attestation_put_incoming L ah m = (ah', r) \<Longrightarrow>
     ah_attestation_binding_token ah' = ah_attestation_binding_token ah @ serialize_assertions L (assertions m) \<and>
     ah_bindable_assertions ah' = ah_bindable_assertions ah"
  by (auto simp: client_attestation_put_incoming_def bind_st_def Let_def split: if_splits result.splits)

interpretation client_token: token_recorder "client_attestation_get_outgoing L" "client_attestation_put_incoming L"
  ah_attestation_binding_token own_assertions "serialize_assertions L" for L
  by unfold_locales
    (auto simp: client_attestation_get_outgoing_def own_assertions_def dest: client_put_frame)

interpretation server_token: token_recorder "server_attestation_get_outgoing L" "server_attestation_put_incoming L"
  ah_attestation_binding_token own_assertions "serialize_assertions L" for L
  unfolding server_attestation_eq by (rule client_token.token_recorder_axioms)

lemma client_create_message:
  assumes "client_attestation_create config = Ok ah"
  shows "ah_attestation_binding_token ah = []"
    and "\<exists>evs. ah_attest_message ah = Some \<lparr>endorsed_evidence = evs, assertions = own_assertions ah\<rparr>"
  using assms by (auto simp: client_attestation_create_def own_assertions_def result_simps)


subsection \<open>Evaluating the example\<close>

definition example_assertion :: assertion where
  "example_assertion = Assertion (encode_key_wrapper example_lib [9] (Some (Assertion [5])))"

definition example_message :: attest_message where
  "example_message =
     \<lparr>endorsed_evidence = btm_insert ''tee''
        \<lparr>ee_evidence = Some (Evidence [1]), ee_endorsements = Some (Endorsements [2])\<rparr> btm_empty,
      assertions = btm_insert ''key'' example_assertion btm_empty\<rparr>"

definition example_bindable :: bindable_assertion where
  "example_bindable = \<lparr>ba_assertion = example_assertion, ba_bind = session_key_bind example_lib [9]\<rparr>"

definition example_handler :: attestation_handler where
  "example_handler =
     \<lparr>ah_config = example_handler_config, ah_attest_message = Some example_message, ah_attestation_result = None,
      ah_bindable_assertions = btm_insert ''key'' example_bindable btm_empty, ah_attestation_binding_token = []\<rparr>"

lemma example_create: "client_attestation_create example_handler_config = Ok example_handler"
  by (simp add: client_attestation_create_def example_handler_config_def endorse_evidence_def btm.get_insert
      session_key_generate_def example_generator_def create_with_assertion_def example_handler_def
      example_message_def example_bindable_def example_assertion_def)

definition example_verified :: verified_bound_assertion where
  "example_verified = \<lparr>vba_assertion = example_assertion, vba_verify_binding = session_key_verify_binding example_lib [9]\<rparr>"

definition example_verdict :: peer_attestation_verdict where
  "example_verdict = AttestationPassed
     (btm_insert ''tee'' (VerifierSuccess
        \<lparr>ee_evidence = Some (Evidence [1]), ee_endorsements = Some (Endorsements [2])\<rparr> example_results) btm_empty)
     (btm_insert ''key'' (BoundSuccess example_verified) btm_empty)"

lemma example_verify_assertion:
  "session_key_verify_assertion example_lib (\<lambda>a key now. Ok ()) 0 example_assertion = Ok example_verified"
  using example_lib_correct(4)
  by (simp add: session_key_verify_assertion_Ok_iff key_wrapper_correct_def example_assertion_def example_verified_def)

lemma example_combined:
  "combine_attestation_results example_lib (peer_verifiers example_handler_config) (endorsed_evidence example_message) =
     Ok (get_legacy_verification_results example_verdict)"
  "combine_assertion_results example_lib (peer_assertion_verifiers example_handler_config) (assertions example_message) =
     Ok (get_assertion_verification_results example_verdict)"
  "legacy_attestation_results_aggregator example_handler_config (get_legacy_verification_results example_verdict) = Ok ()"
  "process_assertion_results (assertion_attestation_aggregator example_handler_config)
     (get_assertion_verification_results example_verdict) = Ok ()"
  by (simp_all add: combine_attestation_results_def combine_assertion_results_def example_handler_config_def
      example_message_def example_verdict_def verify_endorsed_evidence_def example_results_def decode_status_def
      verify_peer_assertion_def example_verify_assertion default_legacy_aggregator_def All_def All_process_def)

lemma example_put:
  assumes "ah_config ah = example_handler_config" "ah_attestation_result ah = None"
  shows "client_attestation_put_incoming example_lib ah example_message =
    (ah\<lparr>ah_attestation_binding_token := ah_attestation_binding_token ah @
          serialize_assertions example_lib (assertions example_message),
        ah_attestation_result := Some example_verdict\<rparr>, Ok (Some ()))"
  using assms example_combined by (simp add: client_attestation_put_incoming_def Let_def example_verdict_def)


subsection \<open>What the attestation step guarantees\<close>

text \<open>
  C20. Verification is pointwise: evidence and assertions presented under an ID are judged
  by the verifier configured under that ID and no other; a verifier without input yields
  \<open>Missing\<close>, input without a verifier \<open>Unverified\<close>.
\<close>

theorem combined_results_pointwise:
  assumes "merge_join_correct L"
    and "combine_attestation_results L vs evs = Ok rs" "combine_assertion_results L avs as = Ok ars"
  shows "map_option Ok (btm_get rs k) =
      (case (btm_get vs k, btm_get evs k) of
         (None, None) \<Rightarrow> None
       | (Some v, None) \<Rightarrow> Some (Ok VerifierMissing)
       | (None, Some ee) \<Rightarrow> Some (Ok (VerifierUnverified ee))
       | (Some v, Some ee) \<Rightarrow> Some (verify_endorsed_evidence v ee))
    \<and> map_option Ok (btm_get ars k) =
      (case (btm_get avs k, btm_get as k) of
         (None, None) \<Rightarrow> None
       | (Some v, None) \<Rightarrow> Some (Ok BoundMissing)
       | (None, Some a) \<Rightarrow> Some (Ok (BoundUnverified a))
       | (Some v, Some a) \<Rightarrow> Some (verify_peer_assertion v a))"
  using combine_attestation_results_get [OF assms(1,2)] combine_assertion_results_get [OF assms(1,3)] by blast

theorem combined_results_pointwise_witness:
  "\<exists>rs ars. combine_attestation_results example_lib btm_empty (btm_insert ''a'' \<lparr>ee_evidence = None, ee_endorsements = None\<rparr> btm_empty) = Ok rs \<and>
     combine_assertion_results example_lib btm_empty (btm_insert ''b'' (Assertion [1]) btm_empty) = Ok ars \<and>
     btm_get rs ''a'' = Some (VerifierUnverified \<lparr>ee_evidence = None, ee_endorsements = None\<rparr>) \<and> btm_get ars ''a'' = None"
proof -
  let ?e = "btm_insert ''a'' \<lparr>ee_evidence = None, ee_endorsements = None\<rparr> btm_empty"
  let ?a = "btm_insert ''b'' (Assertion [1]) btm_empty"
  obtain rs ars where r: "combine_attestation_results example_lib btm_empty ?e = Ok rs"
    "combine_assertion_results example_lib btm_empty ?a = Ok ars"
    by (simp add: combine_attestation_results_def combine_assertion_results_def btm_empty.rep_eq)
  from combined_results_pointwise [OF example_lib_correct(3) r, of "''a''"] r show ?thesis
    by (auto simp: btm.get_insert btm.get_empty)
qed

text \<open>
  C21. The \<open>expect\<close> in \<open>take_attestation_state\<close> cannot fail: for every handler that a
  configuration can reach, whatever the peer sent, the state is taken without a panic,
  unless a binding verifier provider of the application panics itself.
\<close>

theorem take_attestation_state_no_panic:
  assumes "merge_join_correct L" "attestation_reachable L config ah"
    and "\<forall>k pv res. btm_get (peer_verifiers config) k = Some pv \<longrightarrow> binding_verifier_provider pv res \<noteq> Panic"
  shows "client_take_attestation_state ah \<noteq> Panic \<and> server_take_attestation_state ah \<noteq> Panic"
proof -
  note sound = attestation_reachable_sound [OF assms(1,2)]
  have "client_take_attestation_state ah \<noteq> Panic"
  proof
    assume "client_take_attestation_state ah = Panic"
    then obtain verdict k ee res where "ah_attestation_result ah = Some verdict"
      "btm_get (get_legacy_verification_results verdict) k = Some (VerifierSuccess ee res)"
      "binding_verifier_of (ah_config ah) k res = Panic"
      by (auto simp: client_take_attestation_state_def result_simps
          dest!: btm_try_filter_map_Panic split: verifier_result.splits)
    with sound assms(3) show False
      by (fastforce simp: handler_sound_def verdict_sound_def binding_verifier_of_def split: option.splits)
  qed
  then show ?thesis by (simp add: server_attestation_eq)
qed

theorem take_attestation_state_no_panic_witness:
  "client_take_attestation_state (fst (client_attestation_put_incoming example_lib example_handler example_message)) \<noteq> Panic"
proof -
  let ?ah = "fst (client_attestation_put_incoming example_lib example_handler example_message)"
  have "attestation_reachable example_lib example_handler_config ?ah"
    by (rule client_receives [OF client_created [OF example_create], of _ example_message]) (rule surjective_pairing)
  moreover have "\<forall>k pv res. btm_get (peer_verifiers example_handler_config) k = Some pv \<longrightarrow> binding_verifier_provider pv res \<noteq> Panic"
    by (auto simp: example_handler_config_def btm.get_insert btm.get_empty signature_binding_verifier_provider_def
        default_signing_key_extractor_def verifying_key_from_sec1_bytes_def result_simps)
  ultimately show ?thesis using take_attestation_state_no_panic [OF example_lib_correct(3)] by blast
qed

text \<open>
  C22. Both sides derive the same attestation token: when the client's request and the
  server's response arrive unchanged, both tokens are the serialised assertions of the
  client followed by those of the server.
\<close>

theorem attestation_tokens_agree:
  assumes "client_attestation_create client_config = Ok c" "server_attestation_create server_config = Ok s"
    and "client_attestation_get_outgoing L c = (c1, Ok (Some request))"
    and "server_attestation_put_incoming L s request = (s1, r)"
    and "server_attestation_get_outgoing L s1 = (s2, Ok (Some response))"
    and "client_attestation_put_incoming L c1 response = (c2, r')"
  shows "ah_attestation_binding_token c2 = ah_attestation_binding_token s2 \<and>
    ah_attestation_binding_token s2 = serialize_assertions L (own_assertions c) @ serialize_assertions L (own_assertions s)"
proof -
  have req: "assertions request = own_assertions c"
    using client_create_message [OF assms(1)] assms(3) by (auto simp: client_attestation_get_outgoing_def)
  have "ah_attest_message s1 = ah_attest_message s"
    using assms(4)
    by (auto simp: server_attestation_put_incoming_def bind_st_def Let_def split: if_splits result.splits)
  then have resp: "assertions response = own_assertions s"
    using client_create_message [of server_config s] assms(2,5)
    by (auto simp: server_attestation_eq client_attestation_get_outgoing_def)
  show ?thesis
    using client_token.send_then_receive [OF assms(3,6)] server_token.receive_then_send [OF assms(4,5)] req resp
      client_create_message(1) [OF assms(1)] client_create_message(1) [of server_config s] assms(2)
    by (simp add: server_attestation_eq)
qed

theorem attestation_tokens_agree_witness:
  "\<exists>c1 s1 s2 c2. client_attestation_get_outgoing example_lib example_handler = (c1, Ok (Some example_message)) \<and>
     server_attestation_put_incoming example_lib example_handler example_message = (s1, Ok (Some ())) \<and>
     server_attestation_get_outgoing example_lib s1 = (s2, Ok (Some example_message)) \<and>
     client_attestation_put_incoming example_lib c1 example_message = (c2, Ok (Some ())) \<and>
     ah_attestation_binding_token c2 = ah_attestation_binding_token s2"
proof -
  obtain c1 where c1: "client_attestation_get_outgoing example_lib example_handler = (c1, Ok (Some example_message))"
    "ah_config c1 = example_handler_config" "ah_attestation_result c1 = None"
    by (simp add: client_attestation_get_outgoing_def example_handler_def)
  obtain s1 where s1: "server_attestation_put_incoming example_lib example_handler example_message = (s1, Ok (Some ()))"
    "ah_attest_message s1 = Some example_message"
    using example_put [of example_handler] by (simp add: server_attestation_eq example_handler_def)
  obtain s2 where s2: "server_attestation_get_outgoing example_lib s1 = (s2, Ok (Some example_message))"
    using s1(2) by (simp add: server_attestation_get_outgoing_def)
  obtain c2 where c2: "client_attestation_put_incoming example_lib c1 example_message = (c2, Ok (Some ()))"
    using example_put [OF c1(2,3)] by simp
  have "server_attestation_create example_handler_config = Ok example_handler"
    using example_create by (simp add: server_attestation_eq)
  from attestation_tokens_agree [OF example_create this c1(1) s1(1) s2 c2] c1 s1 s2 c2 show ?thesis by blast
qed

end
