(* ===== verification/Session_Handshake.thy ===== *)
theory Session_Handshake
  imports Session_Attestation
begin

section \<open>The handshake step\<close>

text \<open>
  Models \<^verbatim>\<open>oak_session/src/handshake.rs\<close>: the client and the server handler drive the Noise
  initiator and responders, attach the session bindings, and keep the handshake result
  until the session takes it. The random bytes of the ephemeral keys are the argument
  \<open>rand\<close>.
\<close>

datatype handshake_type = NoiseKK | NoiseKN | NoiseNK | NoiseNN

record handshake_handler_config =
  hc_handshake_type :: handshake_type
  hc_self_static_private_key :: "identity_key_handle option"
  hc_peer_static_public_key :: "bytes option"
  hc_session_binders :: "session_binder btree_map"

record handshake_state =
  handshake_binding_token :: bytes
  peer_session_bindings :: "session_binding btree_map"
  peer_assertion_bindings :: "session_binding btree_map"

definition default_handshake_state :: handshake_state where
  "default_handshake_state =
     \<lparr>handshake_binding_token = [], peer_session_bindings = btm_empty, peer_assertion_bindings = btm_empty\<rparr>"

record handshake_result =
  hr_crypter :: ordered_crypter
  hr_handshake_state :: handshake_state

definition noise_message_from :: "noise_handshake_message \<Rightarrow> noise_message" where
  "noise_message_from v =
     \<lparr>ephemeral_public_key = hs_ephemeral_public_key v, noise_ciphertext = hs_ciphertext v\<rparr>"

definition noise_handshake_message_from :: "noise_message \<Rightarrow> noise_handshake_message" where
  "noise_handshake_message_from v =
     \<lparr>hs_ephemeral_public_key = ephemeral_public_key v, hs_static_public_key = [],
      hs_ciphertext = noise_ciphertext v\<rparr>"

text \<open>The bindings both handlers attach, over the handshake hash and over the token.\<close>

definition bind_session :: "session_binder btree_map \<Rightarrow> bytes \<Rightarrow> session_binding btree_map" where
  "bind_session binders hash = btm_map (\<lambda>_ bnd. SessionBinding (bnd hash)) binders"

definition bind_assertions ::
  "bindable_assertion btree_map \<Rightarrow> bytes \<Rightarrow> (session_binding btree_map, error) result" where
  "bind_assertions as bound_data =
     btm_try_map (\<lambda>_ a. map_err from_generator_error (ba_bind a bound_data)) as"


subsection \<open>The client\<close>

record client_handshake_handler =
  ch_initiator :: initiator
  ch_session_binders :: "session_binder btree_map"
  ch_attestation_state :: attestation_state
  ch_initial_message :: "handshake_request option"
  ch_followup_message :: "handshake_request option"
  ch_handshake_result :: "handshake_result option"

definition peer_public_key_of :: "handshake_handler_config \<Rightarrow> (bytes, error) result" where
  "peer_public_key_of config =
     bind_result (ok_or (Msg ''no peer_static_public_key in handshake_handler_config'') (hc_peer_static_public_key config))
       (\<lambda>k. if length k = P256_X962_LEN then Ok k else Err (Msg ''invalid peer public key: TryFromSliceError(())''))"

definition client_initiator_new ::
  "'x crypto_scheme \<Rightarrow> handshake_handler_config \<Rightarrow> bytes \<Rightarrow> (initiator, error) result" where
  "client_initiator_new C config rand =
     (case hc_handshake_type config of
        NoiseKN \<Rightarrow> Panic
      | NoiseKK \<Rightarrow>
          bind_result (peer_public_key_of config) (\<lambda>k.
          bind_result (ok_or (Msg ''no self_static_private_key in handshake_handler_config'')
                         (hc_self_static_private_key config)) (\<lambda>self_key.
          initiator_new_kk C k self_key rand))
      | NoiseNK \<Rightarrow> bind_result (peer_public_key_of config) (\<lambda>k. initiator_new_nk C k rand)
      | NoiseNN \<Rightarrow> initiator_new_nn C rand)"

definition client_handshake_create ::
  "'x crypto_scheme \<Rightarrow> handshake_handler_config \<Rightarrow> attestation_state \<Rightarrow> bytes \<Rightarrow>
     (client_handshake_handler, error) result" where
  "client_handshake_create C config ast rand =
     bind_result (client_initiator_new C config rand) (\<lambda>i.
     (case build_initial_message C i of
        (i', r) \<Rightarrow>
          bind_result (map_err (\<lambda>e. MsgWith ''Error building initial message: '' (FmtNoise e)) r) (\<lambda>m.
          Ok \<lparr>ch_initiator = i',
              ch_session_binders = hc_session_binders config,
              ch_attestation_state = ast,
              ch_initial_message = Some \<lparr>noise_handshake_message = Some (noise_handshake_message_from m),
                 attestation_bindings = btm_empty, assertion_bindings = btm_empty\<rparr>,
              ch_followup_message = None,
              ch_handshake_result = None\<rparr>)))"

definition client_handshake_build ::
  "'x crypto_scheme \<Rightarrow> handshake_handler_config \<Rightarrow> bool \<Rightarrow> attestation_state \<Rightarrow> bytes \<Rightarrow>
     (client_handshake_handler, error) result" where
  "client_handshake_build C config expect_peer_bindings ast rand = client_handshake_create C config ast rand"

definition client_take_handshake_result ::
  "client_handshake_handler \<Rightarrow> (handshake_result \<times> attestation_state, error) result" where
  "client_take_handshake_result hh =
     bind_result (ok_or (Msg ''handshake is not complete'') (ch_handshake_result hh))
       (\<lambda>r. Ok (r, ch_attestation_state hh))"

definition client_is_handshake_complete :: "client_handshake_handler \<Rightarrow> bool" where
  "client_is_handshake_complete hh \<longleftrightarrow> ch_handshake_result hh \<noteq> None \<and> ch_followup_message hh = None"

definition client_handshake_get_outgoing ::
  "client_handshake_handler \<Rightarrow> client_handshake_handler \<times> (handshake_request option, error) result" where
  "client_handshake_get_outgoing hh =
     (case ch_initial_message hh of
        Some m \<Rightarrow> (hh\<lparr>ch_initial_message := None\<rparr>, Ok (Some m))
      | None \<Rightarrow> (hh\<lparr>ch_followup_message := None\<rparr>, Ok (ch_followup_message hh)))"

definition client_handshake_put_incoming ::
  "'x crypto_scheme \<Rightarrow> client_handshake_handler \<Rightarrow> handshake_response \<Rightarrow>
     client_handshake_handler \<times> (unit option, error) result" where
  "client_handshake_put_incoming C hh incoming =
     (if ch_handshake_result hh \<noteq> None then (hh, Ok None)
      else (case noise_handshake_message incoming of
        None \<Rightarrow> (hh, bail ''Missing handshake_type'')
      | Some nm \<Rightarrow>
          (case process_response C (ch_initiator hh) (noise_message_from nm) of
             (i, r) \<Rightarrow>
               bind_st (hh\<lparr>ch_initiator := i\<rparr>,
                        map_err (\<lambda>e. MsgWith ''Error processing response: '' (FmtNoise e)) r) (\<lambda>hh (hash, crypter).
               let hs = \<lparr>handshake_binding_token = hash,
                         peer_session_bindings = attestation_bindings incoming,
                         peer_assertion_bindings = assertion_bindings incoming\<rparr>;
                   ast = ch_attestation_state hh in
               bind_st
                 (if \<not> btm_is_empty (ch_session_binders hh) \<or> \<not> btm_is_empty (self_assertions ast)
                  then bind_st (hh, bind_assertions (self_assertions ast)
                                      (create_session_binding_token C (attestation_binding_token ast) hash)) (\<lambda>hh abds.
                       (hh\<lparr>ch_followup_message := Some \<lparr>noise_handshake_message = None,
                              attestation_bindings = bind_session (ch_session_binders hh) hash,
                              assertion_bindings = abds\<rparr>\<rparr>, Ok ()))
                  else (hh, Ok ())) (\<lambda>hh _.
               (hh\<lparr>ch_handshake_result := Some \<lparr>hr_crypter = crypter, hr_handshake_state = hs\<rparr>\<rparr>,
                Ok (Some ())))))))"


subsection \<open>The server\<close>

record server_handshake_handler =
  sh_handshake_type :: handshake_type
  sh_self_identity_key :: "identity_key_handle option"
  sh_peer_public_key :: "bytes option"
  sh_session_binders :: "session_binder btree_map"
  sh_client_binding_expected :: bool
  sh_attestation_state :: attestation_state
  sh_noise_response :: "noise_response option"
  sh_handshake_response :: "handshake_response option"
  sh_handshake_result :: "handshake_result option"

definition server_handshake_new ::
  "handshake_handler_config \<Rightarrow> bool \<Rightarrow> attestation_state \<Rightarrow> server_handshake_handler" where
  "server_handshake_new config client_binding_expected ast =
     \<lparr>sh_handshake_type = hc_handshake_type config,
      sh_self_identity_key = hc_self_static_private_key config,
      sh_peer_public_key = hc_peer_static_public_key config,
      sh_session_binders = hc_session_binders config,
      sh_client_binding_expected = client_binding_expected,
      sh_attestation_state = ast,
      sh_noise_response = None,
      sh_handshake_response = None,
      sh_handshake_result = None\<rparr>"

definition server_handshake_build ::
  "handshake_handler_config \<Rightarrow> bool \<Rightarrow> attestation_state \<Rightarrow> (server_handshake_handler, error) result" where
  "server_handshake_build config expect_peer_bindings ast =
     Ok (server_handshake_new config expect_peer_bindings ast)"

definition server_take_handshake_result ::
  "server_handshake_handler \<Rightarrow> (handshake_result \<times> attestation_state, error) result" where
  "server_take_handshake_result hh =
     bind_result (ok_or (Msg ''handshake is not complete'') (sh_handshake_result hh))
       (\<lambda>r. Ok (r, sh_attestation_state hh))"

definition server_is_handshake_complete :: "server_handshake_handler \<Rightarrow> bool" where
  "server_is_handshake_complete hh \<longleftrightarrow> sh_handshake_result hh \<noteq> None"

definition server_handshake_get_outgoing ::
  "server_handshake_handler \<Rightarrow> server_handshake_handler \<times> (handshake_response option, error) result" where
  "server_handshake_get_outgoing hh = (hh\<lparr>sh_handshake_response := None\<rparr>, Ok (sh_handshake_response hh))"

definition server_respond ::
  "'x crypto_scheme \<Rightarrow> server_handshake_handler \<Rightarrow> noise_message \<Rightarrow> bytes \<Rightarrow> (noise_response, error) result" where
  "server_respond C hh m rand =
     (let self_key = ok_or (Msg ''no self_identity_key in handshake_handler_config'') (sh_self_identity_key hh);
          failed = map_err (\<lambda>e. MsgWith ''handshake response failed: '' (FmtNoise e)) in
      case sh_handshake_type hh of
        NoiseKN \<Rightarrow> Panic
      | NoiseKK \<Rightarrow>
          bind_result self_key (\<lambda>k.
          bind_result (ok_or (Msg ''Must provide public key for Kk'') (sh_peer_public_key hh)) (\<lambda>p.
          failed (respond_kk C k p m rand)))
      | NoiseNK \<Rightarrow> bind_result self_key (\<lambda>k. failed (respond_nk C k m rand))
      | NoiseNN \<Rightarrow> failed (respond_nn C m rand))"

definition server_handshake_put_incoming ::
  "'x crypto_scheme \<Rightarrow> server_handshake_handler \<Rightarrow> handshake_request \<Rightarrow> bytes \<Rightarrow>
     server_handshake_handler \<times> (unit option, error) result" where
  "server_handshake_put_incoming C hh incoming rand =
     (if sh_handshake_result hh \<noteq> None then (hh, Ok None)
      else (case sh_noise_response hh of
        Some nr \<Rightarrow>
          (hh\<lparr>sh_noise_response := None,
              sh_handshake_result := Some \<lparr>hr_crypter = response_crypter nr,
                hr_handshake_state = \<lparr>handshake_binding_token = response_hash nr,
                  peer_session_bindings = attestation_bindings incoming,
                  peer_assertion_bindings = assertion_bindings incoming\<rparr>\<rparr>\<rparr>,
           Ok (Some ()))
      | None \<Rightarrow>
          bind_st (hh, case noise_handshake_message incoming of
                         Some nm \<Rightarrow> server_respond C hh (noise_message_from nm) rand
                       | None \<Rightarrow> bail ''Missing handshake_type'') (\<lambda>hh nr.
          let ast = sh_attestation_state hh in
          bind_st (hh, bind_assertions (self_assertions ast)
                         (create_session_binding_token C (attestation_binding_token ast) (response_hash nr))) (\<lambda>hh abds.
          let hh1 = hh\<lparr>sh_handshake_response := Some
                \<lparr>noise_handshake_message = Some (noise_handshake_message_from (response_message nr)),
                 attestation_bindings = bind_session (sh_session_binders hh) (response_hash nr),
                 assertion_bindings = abds\<rparr>\<rparr> in
          if sh_client_binding_expected hh1
          then (hh1\<lparr>sh_noise_response := Some nr\<rparr>, Ok (Some ()))
          else (hh1\<lparr>sh_handshake_result := Some \<lparr>hr_crypter = response_crypter nr,
                 hr_handshake_state = \<lparr>handshake_binding_token = response_hash nr,
                   peer_session_bindings = btm_empty, peer_assertion_bindings = btm_empty\<rparr>\<rparr>\<rparr>,
                Ok (Some ()))))))"



subsection \<open>Honest handshakes\<close>

text \<open>The static keys of the two configurations belong together, as the pattern needs them.\<close>

definition handshake_keys_match ::
  "'x crypto_scheme \<Rightarrow> handshake_handler_config \<Rightarrow> handshake_handler_config \<Rightarrow> bool" where
  "handshake_keys_match C cc sc \<longleftrightarrow>
     hc_handshake_type sc = hc_handshake_type cc \<and>
     (case hc_handshake_type cc of
        NoiseNN \<Rightarrow> True
      | NoiseNK \<Rightarrow> (\<exists>sb. key_scalar C sb \<and> hc_peer_static_public_key cc = Some (mul_by_generator C sb) \<and>
          hc_self_static_private_key sc = Some (identity_key_handle_of C (IdentityKey (P256Scalar sb))))
      | NoiseKK \<Rightarrow> (\<exists>sa sb. key_scalar C sa \<and> key_scalar C sb \<and>
          hc_peer_static_public_key cc = Some (mul_by_generator C sb) \<and>
          hc_self_static_private_key cc = Some (identity_key_handle_of C (IdentityKey (P256Scalar sa))) \<and>
          hc_peer_static_public_key sc = Some (mul_by_generator C sa) \<and>
          hc_self_static_private_key sc = Some (identity_key_handle_of C (IdentityKey (P256Scalar sb))))
      | NoiseKN \<Rightarrow> False)"

definition assertions_bindable :: "bindable_assertion btree_map \<Rightarrow> bool" where
  "assertions_bindable as \<longleftrightarrow> (\<forall>k a d. btm_get as k = Some a \<longrightarrow> (\<exists>b. ba_bind a d = Ok b))"

lemma bind_assertions_total:
  assumes "assertions_bindable as"
  shows "\<exists>abds. bind_assertions as d = Ok abds"
  unfolding bind_assertions_def using assms
  by (intro btm_try_map_exists) (fastforce simp: assertions_bindable_def)

lemma bind_assertions_get:
  assumes "bind_assertions as d = Ok abds"
  shows "btm_get abds k = Some b \<longleftrightarrow> (\<exists>a. btm_get as k = Some a \<and> ba_bind a d = Ok b)"
  using btm_try_map_get [OF assms [unfolded bind_assertions_def], of k]
  by (cases "btm_get as k"; cases "btm_get abds k") auto

lemma noise_message_round_trip [simp]: "noise_message_from (noise_handshake_message_from m) = m"
  by (simp add: noise_message_from_def noise_handshake_message_from_def)

lemma honest_noise:
  assumes "primitives_correct C" "key_scalar C ea" "key_scalar C eb" "handshake_keys_match C cc sc"
  shows "\<exists>i i1 m r i2 out. client_initiator_new C cc ea = Ok i \<and> build_initial_message C i = (i1, Ok m) \<and>
    server_respond C (server_handshake_new sc b ast) m eb = Ok r \<and>
    process_response C i1 (response_message r) = (i2, Ok out) \<and> handshake_agrees r out"
proof (cases "hc_handshake_type cc")
  case NoiseKK
  with assms(4) obtain sa sb where k: "key_scalar C sa" "key_scalar C sb"
    and "hc_handshake_type sc = NoiseKK" "hc_peer_static_public_key cc = Some (mul_by_generator C sb)"
      "hc_self_static_private_key cc = Some (identity_key_handle_of C (IdentityKey (P256Scalar sa)))"
      "hc_peer_static_public_key sc = Some (mul_by_generator C sa)"
      "hc_self_static_private_key sc = Some (identity_key_handle_of C (IdentityKey (P256Scalar sb)))"
    by (auto simp: handshake_keys_match_def)
  with kk_agreement [OF assms(1-3) k] NoiseKK show ?thesis
    by (fastforce simp: client_initiator_new_def peer_public_key_of_def server_respond_def server_handshake_new_def
        key_scalar_def)
next
  case NoiseNK
  with assms(4) obtain sb where k: "key_scalar C sb"
    and "hc_handshake_type sc = NoiseNK" "hc_peer_static_public_key cc = Some (mul_by_generator C sb)"
      "hc_self_static_private_key sc = Some (identity_key_handle_of C (IdentityKey (P256Scalar sb)))"
    by (auto simp: handshake_keys_match_def)
  with nk_agreement [OF assms(1-3) k] NoiseNK show ?thesis
    by (fastforce simp: client_initiator_new_def peer_public_key_of_def server_respond_def server_handshake_new_def
        key_scalar_def)
next
  case NoiseNN
  with assms(4) have "hc_handshake_type sc = NoiseNN" by (auto simp: handshake_keys_match_def)
  with nn_agreement [OF assms(1-3)] NoiseNN show ?thesis
    by (fastforce simp: client_initiator_new_def server_respond_def server_handshake_new_def)
qed (use assms(4) in \<open>simp add: handshake_keys_match_def\<close>)

text \<open>
  The exchange of the two Noise messages through the handlers: the client ends with a
  result, the server with a result or, if it expects bindings, with a pending response;
  both have the same handshake hash and crossed keys, and each holds the other's bindings.
\<close>

lemma honest_handshake:
  assumes "primitives_correct C" "key_scalar C ea" "key_scalar C eb" "handshake_keys_match C cc sc"
    and "assertions_bindable (self_assertions cast)" "assertions_bindable (self_assertions sast)"
  obtains ch req sh1 resp ch2 k1 k2 hash sabs cabs nr where
    "client_handshake_create C cc cast ea = Ok ch"
    "ch_attestation_state ch = cast" "ch_handshake_result ch = None" "ch_initial_message ch = Some req"
    "server_handshake_put_incoming C (server_handshake_new sc b sast) req eb = (sh1, Ok (Some ()))"
    "sh_attestation_state sh1 = sast" "sh_handshake_response sh1 = Some resp"
    "bind_assertions (self_assertions sast) (create_session_binding_token C (attestation_binding_token sast) hash) = Ok sabs"
    "bind_assertions (self_assertions cast) (create_session_binding_token C (attestation_binding_token cast) hash) = Ok cabs"
    "attestation_bindings resp = bind_session (hc_session_binders sc) hash" "assertion_bindings resp = sabs"
    "client_handshake_put_incoming C (ch\<lparr>ch_initial_message := None\<rparr>) resp = (ch2, Ok (Some ()))"
    "ch_attestation_state ch2 = cast" "ch_initial_message ch2 = None"
    "ch_handshake_result ch2 = Some \<lparr>hr_crypter = ordered_new k2 k1,
      hr_handshake_state = \<lparr>handshake_binding_token = hash, peer_session_bindings = attestation_bindings resp,
        peer_assertion_bindings = assertion_bindings resp\<rparr>\<rparr>"
    "ch_followup_message ch2 = (if btm_is_empty (hc_session_binders cc) \<and> btm_is_empty (self_assertions cast) then None
      else Some \<lparr>noise_handshake_message = None, attestation_bindings = bind_session (hc_session_binders cc) hash,
        assertion_bindings = cabs\<rparr>)"
    "response_crypter nr = ordered_new k1 k2" "response_hash nr = hash"
    "if b then sh_noise_response sh1 = Some nr \<and> sh_handshake_result sh1 = None
     else sh_handshake_result sh1 = Some \<lparr>hr_crypter = ordered_new k1 k2,
       hr_handshake_state = \<lparr>handshake_binding_token = hash, peer_session_bindings = btm_empty,
         peer_assertion_bindings = btm_empty\<rparr>\<rparr>"
proof -
  obtain i i1 m r i2 out where new: "client_initiator_new C cc ea = Ok i" "build_initial_message C i = (i1, Ok m)"
    and resp: "server_respond C (server_handshake_new sc b sast) m eb = Ok r"
    and fin: "process_response C i1 (response_message r) = (i2, Ok out)" "handshake_agrees r out"
    using honest_noise [OF assms(1-4)] by blast
  obtain k1 k2 where keys: "response_crypter r = ordered_new k1 k2" "out = (response_hash r, ordered_new k2 k1)"
    using fin(2) by (cases out) (auto simp: handshake_agrees_def)
  obtain cabs where cabs: "bind_assertions (self_assertions cast)
      (create_session_binding_token C (attestation_binding_token cast) (response_hash r)) = Ok cabs"
    using bind_assertions_total [OF assms(5)] by blast
  obtain sabs where sabs: "bind_assertions (self_assertions sast)
      (create_session_binding_token C (attestation_binding_token sast) (response_hash r)) = Ok sabs"
    using bind_assertions_total [OF assms(6)] by blast
  let ?hash = "response_hash r"
  let ?req = "\<lparr>noise_handshake_message = Some (noise_handshake_message_from m),
    attestation_bindings = btm_empty, assertion_bindings = btm_empty\<rparr>"
  let ?ch = "\<lparr>ch_initiator = i1, ch_session_binders = hc_session_binders cc, ch_attestation_state = cast,
    ch_initial_message = Some ?req, ch_followup_message = None, ch_handshake_result = None\<rparr>"
  let ?resp = "\<lparr>noise_handshake_message = Some (noise_handshake_message_from (response_message r)),
    attestation_bindings = bind_session (hc_session_binders sc) ?hash, assertion_bindings = sabs\<rparr>"
  have ch: "client_handshake_create C cc cast ea = Ok ?ch"
    by (simp add: client_handshake_create_def new)
  define sh where "sh = server_handshake_new sc b sast"
  note sh_simps = sh_def [unfolded server_handshake_new_def]
  obtain sh1 where sh1: "server_handshake_put_incoming C sh ?req eb = (sh1, Ok (Some ()))"
    "sh_attestation_state sh1 = sast" "sh_handshake_response sh1 = Some ?resp"
    "if b then sh_noise_response sh1 = Some r \<and> sh_handshake_result sh1 = None
     else sh_handshake_result sh1 = Some \<lparr>hr_crypter = ordered_new k1 k2,
       hr_handshake_state = \<lparr>handshake_binding_token = ?hash, peer_session_bindings = btm_empty,
         peer_assertion_bindings = btm_empty\<rparr>\<rparr>"
    using resp [folded sh_def] sabs keys(1)
    by (cases b) (auto simp: server_handshake_put_incoming_def Let_def sh_simps)
  obtain ch2 where ch2: "client_handshake_put_incoming C (?ch\<lparr>ch_initial_message := None\<rparr>) ?resp = (ch2, Ok (Some ()))"
    "ch_attestation_state ch2 = cast" "ch_initial_message ch2 = None"
    "ch_handshake_result ch2 = Some \<lparr>hr_crypter = ordered_new k2 k1,
      hr_handshake_state = \<lparr>handshake_binding_token = ?hash, peer_session_bindings = attestation_bindings ?resp,
        peer_assertion_bindings = assertion_bindings ?resp\<rparr>\<rparr>"
    "ch_followup_message ch2 = (if btm_is_empty (hc_session_binders cc) \<and> btm_is_empty (self_assertions cast) then None
      else Some \<lparr>noise_handshake_message = None, attestation_bindings = bind_session (hc_session_binders cc) ?hash,
        assertion_bindings = cabs\<rparr>)"
    using fin(1) keys(2) cabs
    by (cases "btm_is_empty (hc_session_binders cc) \<and> btm_is_empty (self_assertions cast)")
      (auto simp: client_handshake_put_incoming_def Let_def)
  show thesis
    by (rule that [OF ch _ _ _ sh1(1) [unfolded sh_def] sh1(2,3) sabs cabs _ _ ch2 keys(1) _ sh1(4)]) simp_all
qed

end
