(* ===== verification/Session_Encryptor.thy ===== *)
theory Session_Encryptor
  imports Session_Types
begin

section \<open>Encryptors of an open session\<close>

text \<open>
  Models \<^verbatim>\<open>oak_session/src/encryptors.rs\<close> and the payload conversions of
  \<^verbatim>\<open>oak_crypto/src/encryptor.rs\<close>: the ordered and the unordered channel encryptor wrap the
  crypters of the Noise channel behind the trait \<open>Encryptor\<close>. The ordered one is an ordered
  channel for plaintext messages.
\<close>

record payload =
  p_message :: bytes
  p_aad :: "bytes option"
  p_nonce :: "bytes option"

definition payload_from_message :: "bytes \<Rightarrow> payload" where
  "payload_from_message m = \<lparr>p_message = m, p_aad = None, p_nonce = None\<rparr>"

definition payload_from_message_and_nonce :: "bytes \<times> bytes \<Rightarrow> payload" where
  "payload_from_message_and_nonce m = \<lparr>p_message = fst m, p_aad = None, p_nonce = Some (snd m)\<rparr>"

definition payload_from_plaintext :: "plaintext_message \<Rightarrow> payload" where
  "payload_from_plaintext v = \<lparr>p_message = plaintext v, p_aad = None, p_nonce = None\<rparr>"

definition plaintext_from_payload :: "payload \<Rightarrow> plaintext_message" where
  "plaintext_from_payload v = PlaintextMessage (p_message v)"

definition payload_from_encrypted :: "encrypted_message \<Rightarrow> payload" where
  "payload_from_encrypted v =
     \<lparr>p_message = em_ciphertext v, p_aad = em_associated_data v, p_nonce = em_nonce v\<rparr>"

definition encrypted_from_payload :: "payload \<Rightarrow> encrypted_message" where
  "encrypted_from_payload v =
     \<lparr>em_ciphertext = p_message v, em_associated_data = p_aad v, em_nonce = p_nonce v\<rparr>"

definition encryption_error :: "noise_error \<Rightarrow> error" where
  "encryption_error e = MsgWith ''Encryption error: '' (FmtNoise e)"

definition ordered_channel_encrypt ::
  "'x crypto_scheme \<Rightarrow> ordered_crypter \<Rightarrow> payload \<Rightarrow> ordered_crypter \<times> (payload, error) result" where
  "ordered_channel_encrypt C c pl =
     (case ordered_encrypt C c (p_message pl) of
        (c', r) \<Rightarrow> (c', map_err encryption_error (map_ok payload_from_message r)))"

definition ordered_channel_decrypt ::
  "'x crypto_scheme \<Rightarrow> ordered_crypter \<Rightarrow> payload \<Rightarrow> ordered_crypter \<times> (payload, error) result" where
  "ordered_channel_decrypt C c pl =
     (case ordered_decrypt C c (p_message pl) of
        (c', r) \<Rightarrow> (c', map_err encryption_error (map_ok payload_from_message r)))"

definition unordered_channel_encrypt ::
  "'x crypto_scheme \<Rightarrow> unordered_crypter \<Rightarrow> payload \<Rightarrow> unordered_crypter \<times> (payload, error) result" where
  "unordered_channel_encrypt C c pl =
     (case unordered_encrypt C c (p_message pl) of
        (c', r) \<Rightarrow> (c', map_err encryption_error (map_ok payload_from_message_and_nonce r)))"

definition unordered_channel_decrypt ::
  "'x crypto_scheme \<Rightarrow> unordered_crypter \<Rightarrow> payload \<Rightarrow> unordered_crypter \<times> (payload, error) result" where
  "unordered_channel_decrypt C c pl =
     (case p_nonce pl of
        None \<Rightarrow> (c, bail ''payload is missing nonce'')
      | Some iv \<Rightarrow>
          if length iv \<noteq> NONCE_LEN then (c, Err (MsgWith ''Failed to extract nonce error: '' (FmtBytes iv)))
          else (case unordered_decrypt C c iv (p_message pl) of
                  (c', r) \<Rightarrow> (c', map_err encryption_error (map_ok payload_from_message r))))"

text \<open>The trait object \<open>dyn Encryptor\<close>, with the implementations of the crate.\<close>

datatype encryptor =
    OrderedChannelEncryptor ordered_crypter
  | UnorderedChannelEncryptor unordered_crypter

fun encryptor_encrypt ::
  "'x crypto_scheme \<Rightarrow> encryptor \<Rightarrow> payload \<Rightarrow> encryptor \<times> (payload, error) result" where
  "encryptor_encrypt C (OrderedChannelEncryptor c) pl =
     (case ordered_channel_encrypt C c pl of (c', r) \<Rightarrow> (OrderedChannelEncryptor c', r))"
| "encryptor_encrypt C (UnorderedChannelEncryptor c) pl =
     (case unordered_channel_encrypt C c pl of (c', r) \<Rightarrow> (UnorderedChannelEncryptor c', r))"

fun encryptor_decrypt ::
  "'x crypto_scheme \<Rightarrow> encryptor \<Rightarrow> payload \<Rightarrow> encryptor \<times> (payload, error) result" where
  "encryptor_decrypt C (OrderedChannelEncryptor c) pl =
     (case ordered_channel_decrypt C c pl of (c', r) \<Rightarrow> (OrderedChannelEncryptor c', r))"
| "encryptor_decrypt C (UnorderedChannelEncryptor c) pl =
     (case unordered_channel_decrypt C c pl of (c', r) \<Rightarrow> (UnorderedChannelEncryptor c', r))"

type_synonym encryptor_provider = "ordered_crypter \<Rightarrow> (encryptor, error) result"

definition ordered_channel_encryptor_try_from :: "ordered_crypter \<Rightarrow> (encryptor, error) result" where
  "ordered_channel_encryptor_try_from c = Ok (OrderedChannelEncryptor c)"

definition unordered_channel_encryptor_try_from :: "ordered_crypter \<times> u32 \<Rightarrow> (encryptor, error) result" where
  "unordered_channel_encryptor_try_from cw = Ok (UnorderedChannelEncryptor (unordered_from_ordered (fst cw) (snd cw)))"

text \<open>\<open>OrderedChannelEncryptorProvider\<close> of \<^verbatim>\<open>config.rs\<close>, the default provider.\<close>

definition ordered_channel_encryptor_provider :: encryptor_provider where
  "ordered_channel_encryptor_provider c = ordered_channel_encryptor_try_from c"


subsection \<open>An ordered channel of plaintext messages\<close>

definition encryptors_paired :: "'x crypto_scheme \<Rightarrow> encryptor \<Rightarrow> encryptor \<Rightarrow> bool" where
  "encryptors_paired C s r \<longleftrightarrow>
     (\<exists>cs cr. s = OrderedChannelEncryptor cs \<and> r = OrderedChannelEncryptor cr \<and> ordered_paired C cs cr)"

interpretation encryptor_stream: ordered_channel
  "encryptor_encrypt C" "encryptor_decrypt C" "encryptors_paired C" "\<lambda>pl. payload_from_message (p_message pl)" for C
proof
  fix s r s' p c
  assume "encryptors_paired C s r" "encryptor_encrypt C s p = (s', Ok c)"
  then obtain cs cr cs' ct where s: "s = OrderedChannelEncryptor cs" "r = OrderedChannelEncryptor cr"
    "ordered_paired C cs cr" "ordered_encrypt C cs (p_message p) = (cs', Ok ct)"
    "s' = OrderedChannelEncryptor cs'" "c = payload_from_message ct"
    by (auto simp: encryptors_paired_def ordered_channel_encrypt_def result_simps split: prod.splits)
  with ordered_stream.deliver [OF s(3,4)] show
    "\<exists>r'. encryptor_decrypt C r c = (r', Ok (payload_from_message (p_message p))) \<and> encryptors_paired C s' r'"
    by (auto simp: encryptors_paired_def ordered_channel_decrypt_def payload_from_message_def)
qed

lemma encrypted_payload_round_trip [simp]: "payload_from_encrypted (encrypted_from_payload v) = v"
  by (simp add: payload_from_encrypted_def encrypted_from_payload_def)

lemma plaintext_payload_round_trip [simp]: "plaintext_from_payload (payload_from_plaintext v) = v"
  by (simp add: plaintext_from_payload_def payload_from_plaintext_def)

lemma plaintext_from_message [simp]:
  "plaintext_from_payload (payload_from_message (p_message (payload_from_plaintext v))) = v"
  by (simp add: plaintext_from_payload_def payload_from_message_def payload_from_plaintext_def)

lemma encryptors_paired_new: "aead_correct C \<Longrightarrow>
  encryptors_paired C (OrderedChannelEncryptor (ordered_new k1 k2)) (OrderedChannelEncryptor (ordered_new k2 k1))"
  by (simp add: encryptors_paired_def ordered_paired_def ordered_new_def)

end
