(* ===== verification/Session_Config.thy ===== *)
theory Session_Config
  imports Session_Handshake Session_Encryptor
begin

section \<open>The session configuration\<close>

text \<open>
  Models \<^verbatim>\<open>oak_session/src/config.rs\<close>: the builder of a session configuration. The builder
  methods assert that a component fits the attestation type, \<open>build\<close> asserts that the
  aggregator fits the configured verifiers; a failed assertion is \<open>Panic\<close>. The theorems
  show what every configuration that can be built satisfies. Of an attestation publisher
  the configuration records only whether there is one.
\<close>

record session_config =
  config_attestation_type :: attestation_type
  config_attestation :: attestation_handler_config
  config_handshake :: handshake_handler_config
  config_encryptor_provider :: encryptor_provider
  config_publisher :: bool

datatype session_config_builder = SessionConfigBuilder (builder_config: session_config)

definition default_attestation_handler_config :: attestation_handler_config where
  "default_attestation_handler_config =
     \<lparr>self_attesters = btm_empty, self_assertion_generators = btm_empty, self_endorsers = btm_empty,
      peer_verifiers = btm_empty, peer_assertion_verifiers = btm_empty,
      legacy_attestation_results_aggregator = default_legacy_aggregator,
      assertion_attestation_aggregator = Empty\<rparr>"

definition builder_new :: "attestation_type \<Rightarrow> handshake_type \<Rightarrow> session_config_builder" where
  "builder_new at ht = SessionConfigBuilder
     \<lparr>config_attestation_type = at,
      config_attestation = default_attestation_handler_config,
      config_handshake = \<lparr>hc_handshake_type = ht, hc_self_static_private_key = None,
        hc_peer_static_public_key = None, hc_session_binders = btm_empty\<rparr>,
      config_encryptor_provider = ordered_channel_encryptor_provider,
      config_publisher = False\<rparr>"

definition builder :: "attestation_type \<Rightarrow> handshake_type \<Rightarrow> session_config_builder" where
  "builder at ht = builder_new at ht"

text \<open>The assertions of the builder methods.\<close>

definition self_attestation_allowed :: "session_config_builder \<Rightarrow> bool" where
  "self_attestation_allowed b \<longleftrightarrow>
     config_attestation_type (builder_config b) \<in> {Bidirectional, SelfUnidirectional}"

definition peer_verification_allowed :: "session_config_builder \<Rightarrow> bool" where
  "peer_verification_allowed b \<longleftrightarrow>
     config_attestation_type (builder_config b) \<in> {Bidirectional, PeerUnidirectional}"

definition update_attestation ::
  "(attestation_handler_config \<Rightarrow> attestation_handler_config) \<Rightarrow> session_config_builder \<Rightarrow> session_config_builder" where
  "update_attestation f b =
     SessionConfigBuilder ((builder_config b)\<lparr>config_attestation := f (config_attestation (builder_config b))\<rparr>)"

definition update_handshake ::
  "(handshake_handler_config \<Rightarrow> handshake_handler_config) \<Rightarrow> session_config_builder \<Rightarrow> session_config_builder" where
  "update_handshake f b =
     SessionConfigBuilder ((builder_config b)\<lparr>config_handshake := f (config_handshake (builder_config b))\<rparr>)"

definition add_self_attester :: "session_config_builder \<Rightarrow> string \<Rightarrow> attester \<Rightarrow> (session_config_builder, error) result" where
  "add_self_attester b i attester =
     (if \<not> self_attestation_allowed b then Panic
      else Ok (update_attestation (\<lambda>c. c\<lparr>self_attesters := btm_insert i attester (self_attesters c)\<rparr>) b))"

definition add_self_attester_ref :: "session_config_builder \<Rightarrow> string \<Rightarrow> attester \<Rightarrow> (session_config_builder, error) result" where
  "add_self_attester_ref b i attester =
     (if \<not> self_attestation_allowed b then Panic
      else Ok (update_attestation (\<lambda>c. c\<lparr>self_attesters := btm_insert i attester (self_attesters c)\<rparr>) b))"

definition add_self_endorser :: "session_config_builder \<Rightarrow> string \<Rightarrow> endorser \<Rightarrow> (session_config_builder, error) result" where
  "add_self_endorser b i endorser =
     (if \<not> self_attestation_allowed b then Panic
      else Ok (update_attestation (\<lambda>c. c\<lparr>self_endorsers := btm_insert i endorser (self_endorsers c)\<rparr>) b))"

definition add_self_endorser_ref :: "session_config_builder \<Rightarrow> string \<Rightarrow> endorser \<Rightarrow> (session_config_builder, error) result" where
  "add_self_endorser_ref b i endorser =
     (if \<not> self_attestation_allowed b then Panic
      else Ok (update_attestation (\<lambda>c. c\<lparr>self_endorsers := btm_insert i endorser (self_endorsers c)\<rparr>) b))"

definition add_self_assertion_generator :: "session_config_builder \<Rightarrow> string \<Rightarrow> bindable_assertion_generator \<Rightarrow> (session_config_builder, error) result" where
  "add_self_assertion_generator b i generator =
     (if \<not> self_attestation_allowed b then Panic
      else Ok (update_attestation (\<lambda>c. c\<lparr>self_assertion_generators := btm_insert i generator (self_assertion_generators c)\<rparr>) b))"

definition add_self_assertion_generator_ref :: "session_config_builder \<Rightarrow> string \<Rightarrow> bindable_assertion_generator \<Rightarrow> (session_config_builder, error) result" where
  "add_self_assertion_generator_ref b i generator =
     (if \<not> self_attestation_allowed b then Panic
      else Ok (update_attestation (\<lambda>c. c\<lparr>self_assertion_generators := btm_insert i generator (self_assertion_generators c)\<rparr>) b))"

definition add_attestation_publisher :: "session_config_builder \<Rightarrow> session_config_builder" where
  "add_attestation_publisher b = SessionConfigBuilder ((builder_config b)\<lparr>config_publisher := True\<rparr>)"

definition add_peer_verifier ::
  "'x session_lib_scheme \<Rightarrow> session_config_builder \<Rightarrow> string \<Rightarrow> attestation_verifier \<Rightarrow> (session_config_builder, error) result" where
  "add_peer_verifier L b i verifier =
     (if \<not> peer_verification_allowed b then Panic
      else Ok (update_attestation (\<lambda>c. c\<lparr>peer_verifiers := btm_insert i
             \<lparr>pav_verifier = verifier, binding_verifier_provider = signature_binding_verifier_provider (default_signing_key_extractor L)\<rparr> (peer_verifiers c)\<rparr>) b))"

definition add_peer_verifier_ref ::
  "'x session_lib_scheme \<Rightarrow> session_config_builder \<Rightarrow> string \<Rightarrow> attestation_verifier \<Rightarrow> (session_config_builder, error) result" where
  "add_peer_verifier_ref L b i verifier =
     (if \<not> peer_verification_allowed b then Panic
      else Ok (update_attestation (\<lambda>c. c\<lparr>peer_verifiers := btm_insert i
             \<lparr>pav_verifier = verifier, binding_verifier_provider = signature_binding_verifier_provider (default_signing_key_extractor L)\<rparr> (peer_verifiers c)\<rparr>) b))"

definition add_peer_verifier_with_key_extractor ::
  "session_config_builder \<Rightarrow> string \<Rightarrow> attestation_verifier \<Rightarrow> key_extractor \<Rightarrow> (session_config_builder, error) result" where
  "add_peer_verifier_with_key_extractor b i verifier extractor =
     (if \<not> peer_verification_allowed b then Panic
      else Ok (update_attestation (\<lambda>c. c\<lparr>peer_verifiers := btm_insert i
             \<lparr>pav_verifier = verifier, binding_verifier_provider = signature_binding_verifier_provider extractor\<rparr> (peer_verifiers c)\<rparr>) b))"

definition add_peer_verifier_with_key_extractor_ref ::
  "session_config_builder \<Rightarrow> string \<Rightarrow> attestation_verifier \<Rightarrow> key_extractor \<Rightarrow> (session_config_builder, error) result" where
  "add_peer_verifier_with_key_extractor_ref b i verifier extractor =
     (if \<not> peer_verification_allowed b then Panic
      else Ok (update_attestation (\<lambda>c. c\<lparr>peer_verifiers := btm_insert i
             \<lparr>pav_verifier = verifier, binding_verifier_provider = signature_binding_verifier_provider extractor\<rparr> (peer_verifiers c)\<rparr>) b))"

definition add_peer_verifier_with_binding_verifier_provider ::
  "session_config_builder \<Rightarrow> string \<Rightarrow> attestation_verifier \<Rightarrow> session_binding_verifier_provider \<Rightarrow> (session_config_builder, error) result" where
  "add_peer_verifier_with_binding_verifier_provider b i verifier provider =
     (if \<not> peer_verification_allowed b then Panic
      else Ok (update_attestation (\<lambda>c. c\<lparr>peer_verifiers := btm_insert i
             \<lparr>pav_verifier = verifier, binding_verifier_provider = provider\<rparr> (peer_verifiers c)\<rparr>) b))"

definition add_peer_verifier_with_binding_verifier_provider_ref ::
  "session_config_builder \<Rightarrow> string \<Rightarrow> attestation_verifier \<Rightarrow> session_binding_verifier_provider \<Rightarrow> (session_config_builder, error) result" where
  "add_peer_verifier_with_binding_verifier_provider_ref b i verifier provider =
     (if \<not> peer_verification_allowed b then Panic
      else Ok (update_attestation (\<lambda>c. c\<lparr>peer_verifiers := btm_insert i
             \<lparr>pav_verifier = verifier, binding_verifier_provider = provider\<rparr> (peer_verifiers c)\<rparr>) b))"

definition add_peer_assertion_verifier ::
  "session_config_builder \<Rightarrow> string \<Rightarrow> bound_assertion_verifier \<Rightarrow> (session_config_builder, error) result" where
  "add_peer_assertion_verifier b i verifier =
     (if \<not> peer_verification_allowed b then Panic
      else Ok (update_attestation (\<lambda>c. c\<lparr>peer_assertion_verifiers :=
             btm_insert i verifier (peer_assertion_verifiers c)\<rparr>) b))"

definition add_peer_assertion_verifier_ref ::
  "session_config_builder \<Rightarrow> string \<Rightarrow> bound_assertion_verifier \<Rightarrow> (session_config_builder, error) result" where
  "add_peer_assertion_verifier_ref b i verifier =
     (if \<not> peer_verification_allowed b then Panic
      else Ok (update_attestation (\<lambda>c. c\<lparr>peer_assertion_verifiers :=
             btm_insert i verifier (peer_assertion_verifiers c)\<rparr>) b))"

definition set_self_static_private_key ::
  "session_config_builder \<Rightarrow> identity_key_handle \<Rightarrow> (session_config_builder, error) result" where
  "set_self_static_private_key b key =
     (if hc_self_static_private_key (config_handshake (builder_config b)) = None
      then Ok (update_handshake (\<lambda>c. c\<lparr>hc_self_static_private_key := Some key\<rparr>) b)
      else Panic)"

definition set_peer_static_public_key :: "session_config_builder \<Rightarrow> bytes \<Rightarrow> (session_config_builder, error) result" where
  "set_peer_static_public_key b public_key =
     (if hc_peer_static_public_key (config_handshake (builder_config b)) = None
      then Ok (update_handshake (\<lambda>c. c\<lparr>hc_peer_static_public_key := Some public_key\<rparr>) b)
      else Panic)"

definition set_encryption_provider :: "session_config_builder \<Rightarrow> encryptor_provider \<Rightarrow> session_config_builder" where
  "set_encryption_provider b provider =
     SessionConfigBuilder ((builder_config b)\<lparr>config_encryptor_provider := provider\<rparr>)"

definition add_session_binder :: "session_config_builder \<Rightarrow> string \<Rightarrow> session_binder \<Rightarrow> (session_config_builder, error) result" where
  "add_session_binder b i bnd =
     (if \<not> self_attestation_allowed b then Panic
      else Ok (update_handshake (\<lambda>c. c\<lparr>hc_session_binders := btm_insert i bnd (hc_session_binders c)\<rparr>) b))"

definition add_session_binder_ref :: "session_config_builder \<Rightarrow> string \<Rightarrow> session_binder \<Rightarrow> (session_config_builder, error) result" where
  "add_session_binder_ref b i bnd =
     (if \<not> self_attestation_allowed b then Panic
      else Ok (update_handshake (\<lambda>c. c\<lparr>hc_session_binders := btm_insert i bnd (hc_session_binders c)\<rparr>) b))"

definition set_legacy_attestation_results_aggregator :: "session_config_builder \<Rightarrow> legacy_aggregator \<Rightarrow> session_config_builder" where
  "set_legacy_attestation_results_aggregator b aggregator =
     update_attestation (\<lambda>c. c\<lparr>legacy_attestation_results_aggregator := aggregator\<rparr>) b"

definition set_assertion_attestation_aggregator :: "session_config_builder \<Rightarrow> assertion_results_aggregator \<Rightarrow> session_config_builder" where
  "set_assertion_attestation_aggregator b aggregator =
     update_attestation (\<lambda>c. c\<lparr>assertion_attestation_aggregator := aggregator\<rparr>) b"

definition build :: "session_config_builder \<Rightarrow> (session_config, error) result" where
  "build b =
     (let c = config_attestation (builder_config b) in
      if is_compatible_with_configuration (assertion_attestation_aggregator c) (peer_assertion_verifiers c)
      then Ok (builder_config b) else Panic)"


subsection \<open>Configurations that can be built\<close>

text \<open>A chain of builder calls.\<close>

inductive built_by :: "'x session_lib_scheme \<Rightarrow> session_config_builder \<Rightarrow> bool" for L where
  start: "built_by L (builder at ht)"
| publisher: "built_by L b \<Longrightarrow> built_by L (add_attestation_publisher b)"
| encryption_provider: "built_by L b \<Longrightarrow> built_by L (set_encryption_provider b provider)"
| legacy_aggregator: "built_by L b \<Longrightarrow> built_by L (set_legacy_attestation_results_aggregator b agg)"
| assertion_aggregator: "built_by L b \<Longrightarrow> built_by L (set_assertion_attestation_aggregator b agg')"
| attester: "built_by L b \<Longrightarrow> add_self_attester b i attester = Ok b' \<or> add_self_attester_ref b i attester = Ok b' \<Longrightarrow> built_by L b'"
| endorser: "built_by L b \<Longrightarrow> add_self_endorser b i endorser = Ok b' \<or> add_self_endorser_ref b i endorser = Ok b' \<Longrightarrow> built_by L b'"
| generator: "built_by L b \<Longrightarrow> add_self_assertion_generator b i gen = Ok b' \<or>
    add_self_assertion_generator_ref b i gen = Ok b' \<Longrightarrow> built_by L b'"
| peer_verifier: "built_by L b \<Longrightarrow> add_peer_verifier L b i v = Ok b' \<or> add_peer_verifier_ref L b i v = Ok b' \<Longrightarrow> built_by L b'"
| peer_verifier_extractor: "built_by L b \<Longrightarrow> add_peer_verifier_with_key_extractor b i v ke = Ok b' \<or>
    add_peer_verifier_with_key_extractor_ref b i v ke = Ok b' \<Longrightarrow> built_by L b'"
| peer_verifier_provider: "built_by L b \<Longrightarrow> add_peer_verifier_with_binding_verifier_provider b i v pr = Ok b' \<or>
    add_peer_verifier_with_binding_verifier_provider_ref b i v pr = Ok b' \<Longrightarrow> built_by L b'"
| assertion_verifier: "built_by L b \<Longrightarrow> add_peer_assertion_verifier b i bv = Ok b' \<or>
    add_peer_assertion_verifier_ref b i bv = Ok b' \<Longrightarrow> built_by L b'"
| private_key: "built_by L b \<Longrightarrow> set_self_static_private_key b k = Ok b' \<Longrightarrow> built_by L b'"
| public_key: "built_by L b \<Longrightarrow> set_peer_static_public_key b pk = Ok b' \<Longrightarrow> built_by L b'"
| bnd: "built_by L b \<Longrightarrow> add_session_binder b i sb = Ok b' \<or> add_session_binder_ref b i sb = Ok b' \<Longrightarrow> built_by L b'"

text \<open>What the attestation type excludes.\<close>

definition config_wf :: "session_config \<Rightarrow> bool" where
  "config_wf c \<longleftrightarrow>
     (config_attestation_type c \<in> {PeerUnidirectional, Unattested} \<longrightarrow>
        self_attesters (config_attestation c) = btm_empty \<and>
        self_endorsers (config_attestation c) = btm_empty \<and>
        self_assertion_generators (config_attestation c) = btm_empty \<and>
        hc_session_binders (config_handshake c) = btm_empty) \<and>
     (config_attestation_type c \<in> {SelfUnidirectional, Unattested} \<longrightarrow>
        peer_verifiers (config_attestation c) = btm_empty \<and>
        peer_assertion_verifiers (config_attestation c) = btm_empty)"

lemmas builder_defs = builder_def builder_new_def default_attestation_handler_config_def
  update_attestation_def update_handshake_def self_attestation_allowed_def peer_verification_allowed_def
  add_self_attester_def add_self_attester_ref_def add_self_endorser_def add_self_endorser_ref_def
  add_self_assertion_generator_def add_self_assertion_generator_ref_def add_attestation_publisher_def
  add_peer_verifier_def add_peer_verifier_ref_def add_peer_verifier_with_key_extractor_def
  add_peer_verifier_with_key_extractor_ref_def add_peer_verifier_with_binding_verifier_provider_def
  add_peer_verifier_with_binding_verifier_provider_ref_def add_peer_assertion_verifier_def
  add_peer_assertion_verifier_ref_def set_self_static_private_key_def set_peer_static_public_key_def
  set_encryption_provider_def add_session_binder_def add_session_binder_ref_def
  set_legacy_attestation_results_aggregator_def set_assertion_attestation_aggregator_def

lemma config_wf_update_self:
  assumes "self_attestation_allowed b" "config_wf (builder_config b)"
    and "\<And>c. peer_verifiers (f c) = peer_verifiers c" "\<And>c. peer_assertion_verifiers (f c) = peer_assertion_verifiers c"
  shows "config_wf (builder_config (update_attestation f b))" "config_wf (builder_config (update_handshake g b))"
  using assms by (auto simp: config_wf_def update_attestation_def update_handshake_def self_attestation_allowed_def)

lemma config_wf_update_peer:
  assumes "peer_verification_allowed b" "config_wf (builder_config b)"
    and "\<And>c. self_attesters (f c) = self_attesters c" "\<And>c. self_endorsers (f c) = self_endorsers c"
    and "\<And>c. self_assertion_generators (f c) = self_assertion_generators c"
  shows "config_wf (builder_config (update_attestation f b))"
  using assms by (auto simp: config_wf_def update_attestation_def peer_verification_allowed_def)

lemma built_by_wf: "built_by L b \<Longrightarrow> config_wf (builder_config b)"
proof (induction rule: built_by.induct)
  case (start at ht)
  then show ?case by (simp add: config_wf_def builder_def builder_new_def default_attestation_handler_config_def)
next
  case (attester b i attester b')
  then show ?case
    by (auto simp: add_self_attester_def add_self_attester_ref_def split: if_splits intro!: config_wf_update_self)
next
  case (endorser b i endorser b')
  then show ?case
    by (auto simp: add_self_endorser_def add_self_endorser_ref_def split: if_splits intro!: config_wf_update_self)
next
  case (generator b i gen b')
  then show ?case
    by (auto simp: add_self_assertion_generator_def add_self_assertion_generator_ref_def
        split: if_splits intro!: config_wf_update_self)
next
  case (peer_verifier b i v b')
  then show ?case
    by (auto simp: add_peer_verifier_def add_peer_verifier_ref_def split: if_splits intro!: config_wf_update_peer)
next
  case (peer_verifier_extractor b i v ke b')
  then show ?case
    by (auto simp: add_peer_verifier_with_key_extractor_def add_peer_verifier_with_key_extractor_ref_def
        split: if_splits intro!: config_wf_update_peer)
next
  case (peer_verifier_provider b i v pr b')
  then show ?case
    by (auto simp: add_peer_verifier_with_binding_verifier_provider_def
        add_peer_verifier_with_binding_verifier_provider_ref_def split: if_splits intro!: config_wf_update_peer)
next
  case (assertion_verifier b i bv b')
  then show ?case
    by (auto simp: add_peer_assertion_verifier_def add_peer_assertion_verifier_ref_def
        split: if_splits intro!: config_wf_update_peer)
next
  case (bnd b i sb b')
  then show ?case
    by (auto simp: add_session_binder_def add_session_binder_ref_def split: if_splits
        intro!: config_wf_update_self(2) [where f = "\<lambda>c. c"])
next
  case (private_key b k b')
  then have "b' = update_handshake (\<lambda>c. c\<lparr>hc_self_static_private_key := Some k\<rparr>) b"
    by (simp add: set_self_static_private_key_def split: if_splits)
  with private_key.IH show ?case by (simp add: update_handshake_def config_wf_def)
next
  case (public_key b pk b')
  then have "b' = update_handshake (\<lambda>c. c\<lparr>hc_peer_static_public_key := Some pk\<rparr>) b"
    by (simp add: set_peer_static_public_key_def split: if_splits)
  with public_key.IH show ?case by (simp add: update_handshake_def config_wf_def)
qed (simp_all add: config_wf_def add_attestation_publisher_def set_encryption_provider_def update_attestation_def
    set_legacy_attestation_results_aggregator_def set_assertion_attestation_aggregator_def)

text \<open>
  C27. A configuration that can be built respects its attestation type: an unattested or
  peer-attested configuration never attests itself, an unattested or self-attested one never
  verifies the peer, and the aggregator fits the configured assertion verifiers.
\<close>

theorem built_configuration_wf:
  assumes "built_by L b" "build b = Ok c"
  shows "config_wf c \<and> is_compatible_with_configuration
    (assertion_attestation_aggregator (config_attestation c)) (peer_assertion_verifiers (config_attestation c))"
  using assms built_by_wf [OF assms(1)] by (auto simp: build_def Let_def split: if_splits)

theorem built_configuration_wf_witness:
  "\<exists>b c. add_self_attester (builder SelfUnidirectional NoiseNN) ''tee'' (Ok (Evidence [1])) = Ok b \<and>
     build b = Ok c \<and> config_wf c"
proof -
  let ?b = "update_attestation (\<lambda>c. c\<lparr>self_attesters := btm_insert ''tee'' (Ok (Evidence [1])) (self_attesters c)\<rparr>)
    (builder SelfUnidirectional NoiseNN)"
  have b: "add_self_attester (builder SelfUnidirectional NoiseNN) ''tee'' (Ok (Evidence [1])) = Ok ?b"
    by (simp add: add_self_attester_def self_attestation_allowed_def builder_def builder_new_def)
  have c: "build ?b = Ok (builder_config ?b)"
    by (simp add: build_def builder_defs Empty_def Empty_compatible_def)
  from b have "built_by example_lib ?b" by (blast intro: built_by.intros)
  from built_configuration_wf [OF this c] b c show ?thesis by blast
qed

end
