(* ===== verification/Session_Machine.thy ===== *)
theory Session_Machine
  imports Session_Config
begin

section \<open>The session state machine\<close>

text \<open>
  Models \<^verbatim>\<open>oak_session/src/{session,channel}.rs\<close>: the steps of a session (attestation,
  handshake, open), the transitions between them, the client and the server session with
  their message queues, and the convenience traits \<open>SessionChannel\<close> and
  \<open>SessionInitializer\<close>. Calls of an attestation publisher are recorded in the session.
\<close>

definition DEFAULT_MAX_MESSAGE_QUEUE_LEN :: nat where "DEFAULT_MAX_MESSAGE_QUEUE_LEN = 1000"
definition DEFAULT_MAX_ATTESTATION_SIZE :: nat where "DEFAULT_MAX_ATTESTATION_SIZE = 5 * 1024 * 1024"

datatype session_binding_token = SessionBindingToken (token_bytes: bytes)

definition session_binding_token_new :: "'x crypto_scheme \<Rightarrow> bytes \<Rightarrow> bytes \<Rightarrow> session_binding_token" where
  "session_binding_token_new C tok info = SessionBindingToken (session_binding_token_hash C tok info)"

record attestation_evidence =
  ae_evidence :: "endorsed_evidence btree_map"
  ae_evidence_bindings :: "session_binding btree_map"
  ae_assertions :: "assertion btree_map"
  ae_assertion_bindings :: "session_binding btree_map"
  ae_handshake_hash :: bytes

definition new_from_state :: "attestation_state \<Rightarrow> handshake_state \<Rightarrow> attestation_evidence" where
  "new_from_state ast hs =
     \<lparr>ae_evidence = btm_filter_map
        (\<lambda>_ r. case r of VerifierSuccess ee _ \<Rightarrow> Some ee | VerifierFailure ee _ \<Rightarrow> Some ee
           | VerifierUnverified ee \<Rightarrow> Some ee | VerifierMissing \<Rightarrow> None)
        (get_legacy_verification_results (peer_attestation_verdict ast)),
      ae_evidence_bindings = peer_session_bindings hs,
      ae_assertions = btm_filter_map
        (\<lambda>_ r. case r of BoundSuccess v \<Rightarrow> Some (vba_assertion v) | BoundFailure a _ \<Rightarrow> Some a
           | BoundUnverified a \<Rightarrow> Some a | BoundMissing \<Rightarrow> None)
        (get_assertion_verification_results (peer_attestation_verdict ast)),
      ae_assertion_bindings = peer_assertion_bindings hs,
      ae_handshake_hash = handshake_binding_token hs\<rparr>"


subsection \<open>Verification of bindings\<close>

text \<open>A \<open>for\<close> loop whose body ends with \<open>?\<close>.\<close>

fun for_each :: "('a \<Rightarrow> (unit, 'e) result) \<Rightarrow> 'a list \<Rightarrow> (unit, 'e) result" where
  "for_each f [] = Ok ()"
| "for_each f (x # xs) = bind_result (f x) (\<lambda>_. for_each f xs)"

definition verify_session_binding ::
  "session_binding_verifier btree_map \<Rightarrow> session_binding btree_map \<Rightarrow> bytes \<Rightarrow> (unit, error) result" where
  "verify_session_binding binding_verifiers bindings tok =
     for_each (\<lambda>(i, verify).
         bind_result (ok_or (MsgWith ''peer hasn't sent a session binding for ID '' (FmtStr i)) (btm_get bindings i))
           (\<lambda>b. verify tok (binding b)))
       (entries binding_verifiers)"

definition verify_assertion_session_binding ::
  "'x crypto_scheme \<Rightarrow> bound_assertion_verifier_result btree_map \<Rightarrow> session_binding btree_map \<Rightarrow> bytes \<Rightarrow> bytes \<Rightarrow>
     (unit, error) result" where
  "verify_assertion_session_binding C results bindings att_token hash =
     (let bound_data = create_session_binding_token C att_token hash in
      for_each (\<lambda>(i, r).
          case r of
            BoundSuccess v \<Rightarrow>
              bind_result (ok_or (MsgWith ''peer hasn't sent an assertion binding for ID '' (FmtStr i)) (btm_get bindings i))
                (\<lambda>b. context_err ''couldn't verify the assertion binding for ID {id}''
                       (map_err from_verification_error (vba_verify_binding v bound_data b)))
          | _ \<Rightarrow> Ok ())
        (entries results))"


subsection \<open>Steps\<close>

datatype ('a, 'h) step =
    StepAttestation 'a handshake_handler_config encryptor_provider bool
  | StepHandshake 'h encryptor_provider bool
  | StepOpen encryptor attestation_state handshake_state
  | StepError "attestation_state option" "handshake_state option"
  | StepInvalid

text \<open>
  \<open>Step::next\<close>, generic in the handlers: the result is the new step, what was published,
  and the outcome. The step is invalid while the transition runs, and stays so when the
  encryptor provider fails.
\<close>

definition step_next ::
  "'x crypto_scheme \<Rightarrow> ('a \<Rightarrow> (attestation_state, error) result) \<Rightarrow>
   (handshake_handler_config \<Rightarrow> bool \<Rightarrow> attestation_state \<Rightarrow> ('h, error) result) \<Rightarrow>
   ('h \<Rightarrow> (handshake_result \<times> attestation_state, error) result) \<Rightarrow>
   ('a, 'h) step \<Rightarrow> ('a, 'h) step \<times> attestation_evidence list \<times> (unit, error) result" where
  "step_next C take_attestation mk_handler take_result st =
     (case st of
        StepAttestation attester config ep publisher \<Rightarrow>
          (case take_attestation attester of
             Err e \<Rightarrow> (StepError None None, [], Err (Ctx ''retrieving attestation state failed'' e))
           | Panic \<Rightarrow> (StepInvalid, [], Panic)
           | Ok ast \<Rightarrow>
               (case peer_attestation_verdict ast of
                  AttestationFailed reason _ _ \<Rightarrow>
                    (StepError (Some ast) None,
                     if publisher then [new_from_state ast default_handshake_state] else [],
                     bail ''attestation failed'')
                | AttestationPassed _ _ \<Rightarrow>
                    (case mk_handler config (needs_session_bindings (peer_attestation_verdict ast)) ast of
                       Ok handshaker \<Rightarrow> (StepHandshake handshaker ep publisher, [], Ok ())
                     | Err e \<Rightarrow> (StepError None None, [], Err e)
                     | Panic \<Rightarrow> (StepInvalid, [], Panic))))
      | StepHandshake handshaker ep publisher \<Rightarrow>
          (case take_result handshaker of
             Err e \<Rightarrow> (StepError None None, [], Err e)
           | Panic \<Rightarrow> (StepInvalid, [], Panic)
           | Ok (hr, ast) \<Rightarrow>
               let hs = hr_handshake_state hr;
                   published = (if publisher then [new_from_state ast hs] else []) in
               (case bind_result
                       (verify_session_binding (peer_session_binding_verifiers ast)
                          (peer_session_bindings hs) (handshake_binding_token hs)) (\<lambda>_.
                       verify_assertion_session_binding C
                         (get_assertion_verification_results (peer_attestation_verdict ast))
                         (peer_assertion_bindings hs) (attestation_binding_token ast) (handshake_binding_token hs)) of
                  Err e \<Rightarrow> (StepError (Some ast) (Some hs), published, Err e)
                | Panic \<Rightarrow> (StepInvalid, [], Panic)
                | Ok _ \<Rightarrow>
                    (case ep (hr_crypter hr) of
                       Ok encryptor \<Rightarrow> (StepOpen encryptor ast hs, published, Ok ())
                     | Err e \<Rightarrow> (StepInvalid, published, Err e)
                     | Panic \<Rightarrow> (StepInvalid, published, Panic))))
      | StepOpen _ _ _ \<Rightarrow> (StepInvalid, [], bail ''there is no next step when the session is open'')
      | StepInvalid \<Rightarrow> (StepInvalid, [], bail ''session is currently in an invalid state'')
      | StepError _ _ \<Rightarrow> (StepInvalid, [], bail ''session initialization already failed''))"

definition step_get_session_binding_token ::
  "'x crypto_scheme \<Rightarrow> ('a, 'h) step \<Rightarrow> bytes \<Rightarrow> (session_binding_token, error) result" where
  "step_get_session_binding_token C st info =
     (case st of
        StepOpen _ _ hs \<Rightarrow> Ok (session_binding_token_new C (handshake_binding_token hs) info)
      | _ \<Rightarrow> bail ''the session is not open'')"

definition step_get_peer_attestation_evidence :: "('a, 'h) step \<Rightarrow> (attestation_evidence, error) result" where
  "step_get_peer_attestation_evidence st =
     (case st of
        StepOpen _ ast hs \<Rightarrow> Ok (new_from_state ast hs)
      | StepError ast hs \<Rightarrow>
          bind_result (ok_or (Msg ''session initialization failed, and no attestation evidence is available'') ast)
            (\<lambda>ast. Ok (new_from_state ast (case hs of Some hs \<Rightarrow> hs | None \<Rightarrow> default_handshake_state)))
      | _ \<Rightarrow> bail ''the session is not open'')"


subsection \<open>The two sessions\<close>

text \<open>
  The client and the server session have the same shape: \<open>outgoing\<close> and \<open>incoming\<close> are
  \<open>outgoing_requests\<close> and \<open>incoming_responses\<close> of the client, \<open>outgoing_responses\<close> and
  \<open>incoming_requests\<close> of the server.
\<close>

record ('a, 'h) session =
  step :: "('a, 'h) step"
  outgoing :: "session_body option list"
  incoming :: "session_body option list"
  published :: "attestation_evidence list"

type_synonym client_session = "(attestation_handler, client_handshake_handler) session"
type_synonym server_session = "(attestation_handler, server_handshake_handler) session"

definition client_session_create :: "session_config \<Rightarrow> (client_session, error) result" where
  "client_session_create config =
     bind_result (client_attestation_create (config_attestation config)) (\<lambda>attester.
     Ok \<lparr>step = StepAttestation attester (config_handshake config) (config_encryptor_provider config) (config_publisher config),
         outgoing = [], incoming = [], published = []\<rparr>)"

definition server_session_create :: "session_config \<Rightarrow> (server_session, error) result" where
  "server_session_create config =
     bind_result (server_attestation_create (config_attestation config)) (\<lambda>attester.
     Ok \<lparr>step = StepAttestation attester (config_handshake config) (config_encryptor_provider config) (config_publisher config),
         outgoing = [], incoming = [], published = []\<rparr>)"

definition is_open :: "('a, 'h) session \<Rightarrow> bool" where
  "is_open s \<longleftrightarrow> (case step s of StepOpen _ _ _ \<Rightarrow> True | _ \<Rightarrow> False)"

definition session_write ::
  "'x crypto_scheme \<Rightarrow> ('a, 'h) session \<Rightarrow> plaintext_message \<Rightarrow> ('a, 'h) session \<times> (unit, error) result" where
  "session_write C s p =
     (case step s of
        StepOpen enc ast hs \<Rightarrow>
          if \<not> length (outgoing s) < DEFAULT_MAX_MESSAGE_QUEUE_LEN then (s, bail ''Message queue limit exceeded'')
          else (case encryptor_encrypt C enc (payload_from_plaintext p) of
                  (enc', r) \<Rightarrow>
                    bind_st (s\<lparr>step := StepOpen enc' ast hs\<rparr>,
                             context_err ''encrypting plaintext'' (map_ok encrypted_from_payload r)) (\<lambda>s m.
                    (s\<lparr>outgoing := outgoing s @ [Some (Encrypted m)]\<rparr>, Ok ())))
      | _ \<Rightarrow> (s, bail ''the session is not open''))"

text \<open>The text of the error differs between the two sessions.\<close>

definition session_read ::
  "string \<Rightarrow> 'x crypto_scheme \<Rightarrow> ('a, 'h) session \<Rightarrow> ('a, 'h) session \<times> (plaintext_message option, error) result" where
  "session_read unexpected C s =
     (case step s of
        StepOpen enc ast hs \<Rightarrow>
          (case incoming s of
             [] \<Rightarrow> (s, Ok None)
           | m # ms \<Rightarrow>
               let s1 = s\<lparr>incoming := ms\<rparr> in
               (case m of
                  Some (Encrypted em) \<Rightarrow>
                    (case encryptor_decrypt C enc (payload_from_encrypted em) of
                       (enc', r) \<Rightarrow>
                         bind_st (s1\<lparr>step := StepOpen enc' ast hs\<rparr>,
                                  context_err ''decrypting plaintext'' (map_ok plaintext_from_payload r)) (\<lambda>s p.
                         (s, Ok (Some p))))
                | _ \<Rightarrow> (s1, bail unexpected)))
      | _ \<Rightarrow> (s, bail ''the session is not open''))"

definition client_write ::
  "'x crypto_scheme \<Rightarrow> client_session \<Rightarrow> plaintext_message \<Rightarrow> client_session \<times> (unit, error) result" where
  "client_write = session_write"

definition server_write ::
  "'x crypto_scheme \<Rightarrow> server_session \<Rightarrow> plaintext_message \<Rightarrow> server_session \<times> (unit, error) result" where
  "server_write = session_write"

definition client_read ::
  "'x crypto_scheme \<Rightarrow> client_session \<Rightarrow> client_session \<times> (plaintext_message option, error) result" where
  "client_read = session_read ''unexpected content of SessionResponse: no encrypted message set''"

definition server_read ::
  "'x crypto_scheme \<Rightarrow> server_session \<Rightarrow> server_session \<times> (plaintext_message option, error) result" where
  "server_read = session_read ''unexpected content of SessionRequest: no encrypted message set''"

definition session_get_session_binding_token ::
  "'x crypto_scheme \<Rightarrow> ('a, 'h) session \<Rightarrow> bytes \<Rightarrow> (session_binding_token, error) result" where
  "session_get_session_binding_token C s info = step_get_session_binding_token C (step s) info"

definition session_get_peer_attestation_evidence :: "('a, 'h) session \<Rightarrow> (attestation_evidence, error) result" where
  "session_get_peer_attestation_evidence s = step_get_peer_attestation_evidence (step s)"

definition pop_outgoing :: "('a, 'h) session \<Rightarrow> ('a, 'h) session \<times> (session_body option option, error) result" where
  "pop_outgoing s =
     (case outgoing s of
        [] \<Rightarrow> (s, Ok None)
      | m # ms \<Rightarrow> (s\<lparr>outgoing := ms\<rparr>, Ok (Some m)))"

definition push_incoming :: "('a, 'h) session \<Rightarrow> session_body option \<Rightarrow> ('a, 'h) session \<times> (unit option, error) result" where
  "push_incoming s m =
     (if \<not> length (incoming s) < DEFAULT_MAX_MESSAGE_QUEUE_LEN then (s, bail ''Message queue limit exceeded'')
      else (s\<lparr>incoming := incoming s @ [m]\<rparr>, Ok (Some ())))"

definition advance ::
  "(('a, 'h) step \<Rightarrow> ('a, 'h) step \<times> attestation_evidence list \<times> (unit, error) result) \<Rightarrow>
   ('a, 'h) session \<Rightarrow> ('a, 'h) session \<times> (unit, error) result" where
  "advance next_step s =
     (case next_step (step s) of
        (st, pubs, r) \<Rightarrow> (s\<lparr>step := st, published := published s @ pubs\<rparr>, r))"


subsection \<open>The client\<close>

text \<open>The client's handshake handler is built from fresh random bytes.\<close>

definition client_next ::
  "'x crypto_scheme \<Rightarrow> bytes \<Rightarrow> client_session \<Rightarrow> client_session \<times> (unit, error) result" where
  "client_next C rand =
     advance (step_next C client_take_attestation_state
       (\<lambda>config b ast. client_handshake_build C config b ast rand) client_take_handshake_result)"

definition client_get_outgoing_message ::
  "'x session_lib_scheme \<Rightarrow> client_session \<Rightarrow> bytes \<Rightarrow> client_session \<times> (session_request option, error) result" where
  "client_get_outgoing_message L s rand =
     (case step s of
        StepAttestation attester config ep publisher \<Rightarrow>
          (case client_attestation_get_outgoing L attester of
             (attester', r) \<Rightarrow>
               bind_st (s\<lparr>step := StepAttestation attester' config ep publisher\<rparr>, r) (\<lambda>s om.
               case om of
                 Some m \<Rightarrow> (s, Ok (Some (Some (Attest m))))
               | None \<Rightarrow> (s, bail ''attestation not yet complete but there are no outgoing messages'')))
      | StepHandshake handshaker ep publisher \<Rightarrow>
          (case client_handshake_get_outgoing handshaker of
             (handshaker', r) \<Rightarrow>
               bind_st (s\<lparr>step := StepHandshake handshaker' ep publisher\<rparr>, r) (\<lambda>s om.
               case om of
                 Some m \<Rightarrow>
                   bind_st (if client_is_handshake_complete handshaker' then client_next L rand s else (s, Ok ())) (\<lambda>s _.
                   (s, Ok (Some (Some (Handshake m)))))
               | None \<Rightarrow> pop_outgoing s))
      | StepOpen _ _ _ \<Rightarrow> pop_outgoing s
      | StepInvalid \<Rightarrow> (s, bail ''session is in an invalid state'')
      | StepError _ _ \<Rightarrow> (s, bail ''session is in an invalid state''))"

text \<open>A string literal that runs over a line break keeps the break and the indentation.\<close>

definition literal_break :: string where "literal_break = CHR 0x0A # replicate 21 (CHR '' '')"

definition client_put_incoming_message ::
  "'x session_lib_scheme \<Rightarrow> client_session \<Rightarrow> session_response \<Rightarrow> bytes \<Rightarrow> client_session \<times> (unit option, error) result" where
  "client_put_incoming_message L s m rand =
     (case (m, step s) of
        (Some (Attest am), StepAttestation attester config ep publisher) \<Rightarrow>
          let message_size = attest_encoded_len L am in
          if \<not> message_size < DEFAULT_MAX_ATTESTATION_SIZE
          then (s, Err (MsgWith ''Max attest message size exceeded, actual size: '' (FmtNat message_size)))
          else (case client_attestation_put_incoming L attester am of
                  (attester', r) \<Rightarrow>
                    bind_st (s\<lparr>step := StepAttestation attester' config ep publisher\<rparr>, r) (\<lambda>s om.
                    bind_st (s, ok_or (Msg (''invalid session state: attest message received but attester doesn't expect'' @ literal_break @ ''any'')) om) (\<lambda>s _.
                    bind_st (client_next L rand s) (\<lambda>s _. (s, Ok (Some ()))))))
      | (Some (Handshake hm), StepHandshake handshaker ep publisher) \<Rightarrow>
          (case client_handshake_put_incoming L handshaker hm of
             (handshaker', r) \<Rightarrow>
               bind_st (s\<lparr>step := StepHandshake handshaker' ep publisher\<rparr>, r) (\<lambda>s om.
               bind_st (s, ok_or (Msg (''invalid session state: handshake message received but handshaker doesn't'' @ literal_break @ ''expect any'')) om) (\<lambda>s _.
               bind_st (if client_is_handshake_complete handshaker' then client_next L rand s else (s, Ok ())) (\<lambda>s _.
               (s, Ok (Some ()))))))
      | (Some (Encrypted em), StepOpen _ _ _) \<Rightarrow> push_incoming s m
      | _ \<Rightarrow> (s, bail ''unexpected content of session response''))"


subsection \<open>The server\<close>

definition server_next ::
  "'x crypto_scheme \<Rightarrow> server_session \<Rightarrow> server_session \<times> (unit, error) result" where
  "server_next C =
     advance (step_next C server_take_attestation_state server_handshake_build server_take_handshake_result)"

definition server_get_outgoing_message ::
  "'x session_lib_scheme \<Rightarrow> server_session \<Rightarrow> server_session \<times> (session_response option, error) result" where
  "server_get_outgoing_message L s =
     (case step s of
        StepAttestation attester config ep publisher \<Rightarrow>
          (case server_attestation_get_outgoing L attester of
             (attester', r) \<Rightarrow>
               bind_st (s\<lparr>step := StepAttestation attester' config ep publisher\<rparr>, r) (\<lambda>s om.
               case om of
                 Some m \<Rightarrow> bind_st (server_next L s) (\<lambda>s _. (s, Ok (Some (Some (Attest m)))))
               | None \<Rightarrow> (s, bail ''attestation not yet completed but there are no outgoing messages'')))
      | StepHandshake handshaker ep publisher \<Rightarrow>
          (case server_handshake_get_outgoing handshaker of
             (handshaker', r) \<Rightarrow>
               bind_st (s\<lparr>step := StepHandshake handshaker' ep publisher\<rparr>, r) (\<lambda>s response.
               bind_st (if server_is_handshake_complete handshaker' then server_next L s else (s, Ok ())) (\<lambda>s _.
               case response of
                 Some m \<Rightarrow> (s, Ok (Some (Some (Handshake m))))
               | None \<Rightarrow> (s, Ok None))))
      | StepOpen _ _ _ \<Rightarrow> pop_outgoing s
      | StepInvalid \<Rightarrow> (s, bail ''session is in an invalid state'')
      | StepError _ _ \<Rightarrow> (s, bail ''session is in an invalid state''))"

definition server_put_incoming_message ::
  "'x session_lib_scheme \<Rightarrow> server_session \<Rightarrow> session_request \<Rightarrow> bytes \<Rightarrow> server_session \<times> (unit option, error) result" where
  "server_put_incoming_message L s m rand =
     (case (m, step s) of
        (Some (Attest am), StepAttestation attester config ep publisher) \<Rightarrow>
          let message_size = attest_encoded_len L am in
          if \<not> message_size < DEFAULT_MAX_ATTESTATION_SIZE
          then (s, Err (MsgWith ''Max attest message size exceeded, actual size: '' (FmtNat message_size)))
          else (case server_attestation_put_incoming L attester am of
                  (attester', r) \<Rightarrow>
                    bind_st (s\<lparr>step := StepAttestation attester' config ep publisher\<rparr>, r) (\<lambda>s om.
                    bind_st (s, ok_or (Msg ''invalid session state: attest message received but attester doesn't expect any'') om) (\<lambda>s _.
                    (s, Ok (Some ())))))
      | (Some (Handshake hm), StepHandshake handshaker ep publisher) \<Rightarrow>
          (case server_handshake_put_incoming L handshaker hm rand of
             (handshaker', r) \<Rightarrow>
               bind_st (s\<lparr>step := StepHandshake handshaker' ep publisher\<rparr>, r) (\<lambda>s om.
               bind_st (s, ok_or (Msg (''invalid session state: handshake message received but handshaker doesn't'' @ literal_break @ ''expect any'')) om) (\<lambda>s _.
               (s, Ok (Some ())))))
      | (Some (Encrypted em), StepOpen _ _ _) \<Rightarrow> push_incoming s m
      | _ \<Rightarrow> (s, bail ''unexpected content of session request''))"


subsection \<open>Channels and initializers\<close>

text \<open>The provided methods of the traits, over the required methods of the implementing type.\<close>

definition channel_encrypt ::
  "('s \<Rightarrow> bool) \<Rightarrow> ('s \<Rightarrow> plaintext_message \<Rightarrow> 's \<times> (unit, error) result) \<Rightarrow> ('s \<Rightarrow> 's \<times> ('o option, error) result) \<Rightarrow>
   's \<Rightarrow> bytes \<Rightarrow> 's \<times> ('o, error) result" where
  "channel_encrypt opened write get_outgoing s p =
     (if \<not> opened s then (s, bail ''Session is not open'')
      else (case write s (PlaintextMessage p) of
        (s, r) \<Rightarrow> bind_st (s, context_err ''writing message for encryption'' r) (\<lambda>s _.
      (case get_outgoing s of
        (s, r) \<Rightarrow> bind_st (s, context_err ''getting outgoing message'' r) (\<lambda>s om.
        (s, ok_or (Msg ''(Library Error, please report) unexpectedly empty outgoing message'') om))))))"

definition channel_decrypt ::
  "('s \<Rightarrow> bool) \<Rightarrow> ('s \<Rightarrow> 'i \<Rightarrow> 's \<times> (unit option, error) result) \<Rightarrow>
   ('s \<Rightarrow> 's \<times> (plaintext_message option, error) result) \<Rightarrow> 's \<Rightarrow> 'i \<Rightarrow> 's \<times> (bytes, error) result" where
  "channel_decrypt opened put_incoming read s m =
     (if \<not> opened s then (s, bail ''Session is not open'')
      else (case put_incoming s m of
        (s, r) \<Rightarrow> bind_st (s, context_err ''putting incoming message'' r) (\<lambda>s _.
      (case read s of
        (s, r) \<Rightarrow> bind_st (s, context_err ''reading decrypted message'' r) (\<lambda>s op.
        (s, map_ok plaintext (ok_or (Msg ''(Library Error, please report) unexpectedly empty decrypted message'') op)))))))"

definition next_init_message ::
  "('s \<Rightarrow> bool) \<Rightarrow> ('s \<Rightarrow> 's \<times> ('o option, error) result) \<Rightarrow> 's \<Rightarrow> 's \<times> ('o, error) result" where
  "next_init_message opened get_outgoing s =
     (if opened s then (s, bail ''Session already open'')
      else (case get_outgoing s of
        (s, r) \<Rightarrow> bind_st (s, context_err ''getting next outgoing message'' r) (\<lambda>s om.
        (s, ok_or (Msg ''unexpected empty first init message'') om))))"

definition handle_init_message ::
  "('s \<Rightarrow> bool) \<Rightarrow> ('s \<Rightarrow> 'i \<Rightarrow> 's \<times> (unit option, error) result) \<Rightarrow> 's \<Rightarrow> 'i \<Rightarrow> 's \<times> (unit, error) result" where
  "handle_init_message opened put_incoming s m =
     (if opened s then (s, bail ''Session already open'')
      else (case put_incoming s m of
        (s, r) \<Rightarrow> bind_st (s, context_err ''putting incoming message'' r) (\<lambda>s _. (s, Ok ()))))"


subsection \<open>Vocabulary\<close>

text \<open>
  The attestation state of a session that may open: the verdict passed, the configuration
  justifies it, and each verified evidence has the binding verifier its provider created.
\<close>

definition attestation_state_ok :: "attestation_handler_config \<Rightarrow> attestation_state \<Rightarrow> bool" where
  "attestation_state_ok config ast \<longleftrightarrow>
     (\<exists>l a. peer_attestation_verdict ast = AttestationPassed l a) \<and>
     verdict_sound config (peer_attestation_verdict ast) \<and>
     (\<forall>k ee res. btm_get (get_legacy_verification_results (peer_attestation_verdict ast)) k = Some (VerifierSuccess ee res) \<longrightarrow>
        (\<exists>pv bv. btm_get (peer_verifiers config) k = Some pv \<and> binding_verifier_provider pv res = Ok bv \<and>
           btm_get (peer_session_binding_verifiers ast) k = Some bv))"

text \<open>Every binding the peer owes has arrived and verifies over this session's handshake.\<close>

definition bindings_verified :: "'x crypto_scheme \<Rightarrow> attestation_state \<Rightarrow> handshake_state \<Rightarrow> bool" where
  "bindings_verified C ast hs \<longleftrightarrow>
     (\<forall>k bv. btm_get (peer_session_binding_verifiers ast) k = Some bv \<longrightarrow>
        (\<exists>b. btm_get (peer_session_bindings hs) k = Some b \<and> bv (handshake_binding_token hs) (binding b) = Ok ())) \<and>
     (\<forall>k v. btm_get (get_assertion_verification_results (peer_attestation_verdict ast)) k = Some (BoundSuccess v) \<longrightarrow>
        (\<exists>b. btm_get (peer_assertion_bindings hs) k = Some b \<and>
           vba_verify_binding v
             (create_session_binding_token C (attestation_binding_token ast) (handshake_binding_token hs)) b = Ok ()))"

definition step_inv ::
  "'x crypto_scheme \<Rightarrow> attestation_handler_config \<Rightarrow> bool \<Rightarrow> ('h \<Rightarrow> attestation_state) \<Rightarrow>
   (attestation_handler, 'h) step \<Rightarrow> attestation_evidence list \<Rightarrow> bool" where
  "step_inv C config pub ast_of st pubs \<longleftrightarrow>
     (case st of
        StepAttestation ah _ _ p \<Rightarrow> handler_sound ah \<and> ah_config ah = config \<and> p = pub \<and> pubs = []
      | StepHandshake hh _ p \<Rightarrow> attestation_state_ok config (ast_of hh) \<and> p = pub \<and> pubs = []
      | StepOpen _ ast hs \<Rightarrow> attestation_state_ok config ast \<and> bindings_verified C ast hs \<and>
          pubs = (if pub then [new_from_state ast hs] else [])
      | _ \<Rightarrow> length pubs \<le> 1)"

definition session_inv ::
  "'x crypto_scheme \<Rightarrow> attestation_handler_config \<Rightarrow> bool \<Rightarrow> ('h \<Rightarrow> attestation_state) \<Rightarrow>
   (attestation_handler, 'h) session \<Rightarrow> bool" where
  "session_inv C config pub ast_of s \<longleftrightarrow>
     step_inv C config pub ast_of (step s) (published s) \<and>
     length (outgoing s) \<le> DEFAULT_MAX_MESSAGE_QUEUE_LEN \<and> length (incoming s) \<le> DEFAULT_MAX_MESSAGE_QUEUE_LEN \<and>
     (\<forall>m \<in> set (outgoing s) \<union> set (incoming s). \<exists>em. m = Some (Encrypted em)) \<and>
     (\<not> is_open s \<longrightarrow> (case step s of StepInvalid \<Rightarrow> True | StepError _ _ \<Rightarrow> True | _ \<Rightarrow> outgoing s = [] \<and> incoming s = []))"

text \<open>How far a session has come; the error steps are last.\<close>

fun rank :: "('a, 'h) step \<Rightarrow> nat" where
  "rank (StepAttestation _ _ _ _) = 0"
| "rank (StepHandshake _ _ _) = 1"
| "rank (StepOpen _ _ _) = 2"
| "rank (StepError _ _) = 3"
| "rank StepInvalid = 4"


subsection \<open>Transitions\<close>

lemma for_each_Ok_iff: "for_each f xs = Ok u \<longleftrightarrow> (\<forall>x \<in> set xs. f x = Ok ())"
  by (induction xs) (auto simp: result_simps)

lemma verify_session_binding_Ok:
  assumes "verify_session_binding vs bs tok = Ok u" "btm_get vs k = Some bv"
  shows "\<exists>b. btm_get bs k = Some b \<and> bv tok (binding b) = Ok ()"
  using assms by (auto simp: verify_session_binding_def for_each_Ok_iff btm.get_iter_Some_iff result_simps
      dest!: bspec [of _ _ "(k, bv)"])

lemma verify_assertion_session_binding_Ok:
  assumes "verify_assertion_session_binding C rs bs att hash = Ok u" "btm_get rs k = Some (BoundSuccess v)"
  shows "\<exists>b. btm_get bs k = Some b \<and> vba_verify_binding v (create_session_binding_token C att hash) b = Ok ()"
  using assms by (auto simp: verify_assertion_session_binding_def Let_def for_each_Ok_iff btm.get_iter_Some_iff result_simps
      dest!: bspec [of _ _ "(k, BoundSuccess v)"])

lemma bindings_verified_intro:
  assumes "bind_result (verify_session_binding (peer_session_binding_verifiers ast)
      (peer_session_bindings hs) (handshake_binding_token hs)) (\<lambda>_.
      verify_assertion_session_binding C (get_assertion_verification_results (peer_attestation_verdict ast))
        (peer_assertion_bindings hs) (attestation_binding_token ast) (handshake_binding_token hs)) = Ok u"
  shows "bindings_verified C ast hs"
  using assms
  by (auto simp: bindings_verified_def result_simps
      intro: verify_session_binding_Ok verify_assertion_session_binding_Ok)

lemma taken_state_ok:
  assumes "handler_sound ah" "ah_config ah = config" "client_take_attestation_state ah = Ok ast"
    and "peer_attestation_verdict ast = AttestationPassed l a"
  shows "attestation_state_ok config ast"
  using assms take_attestation_state_Ok [OF assms(3)]
  by (auto simp: attestation_state_ok_def handler_sound_def)

text \<open>What the transition function needs of a pair of handshake handlers.\<close>

locale session_role =
  fixes ast_of :: "'h \<Rightarrow> attestation_state"
    and mk_handler :: "handshake_handler_config \<Rightarrow> bool \<Rightarrow> attestation_state \<Rightarrow> ('h, error) result"
    and take_result :: "'h \<Rightarrow> (handshake_result \<times> attestation_state, error) result"
  assumes mk_handler_state: "mk_handler config b ast = Ok hh \<Longrightarrow> ast_of hh = ast"
    and take_result_state: "take_result hh = Ok (hr, ast) \<Longrightarrow> ast = ast_of hh"
begin

lemma step_next_inv:
  assumes "step_inv C config pub ast_of st pubs"
    and "step_next C client_take_attestation_state mk_handler take_result st = (st', new, r)"
    and "rank st < 2"
  shows "step_inv C config pub ast_of st' (pubs @ new) \<and> rank st < rank st'"
proof (cases st)
  case (StepAttestation ah hc ep p)
  with assms show ?thesis
    by (auto simp: step_next_def step_inv_def mk_handler_state taken_state_ok
        split: result.splits peer_attestation_verdict.splits)
next
  case (StepHandshake hh ep p)
  with assms show ?thesis
    by (auto simp: step_next_def step_inv_def Let_def
        dest!: take_result_state intro!: bindings_verified_intro [OF sym]
        split: result.splits prod.splits)
qed (use assms(3) in auto)

lemma advance_inv:
  assumes "session_inv C config pub ast_of s" "rank (step s) < 2"
    and "advance (step_next C client_take_attestation_state mk_handler take_result) s = (s', r)"
  shows "session_inv C config pub ast_of s' \<and> rank (step s) < rank (step s')"
proof -
  obtain st' new where n: "step_next C client_take_attestation_state mk_handler take_result (step s) = (st', new, r)"
    and s': "s' = s\<lparr>step := st', published := published s @ new\<rparr>"
    using assms(3) by (auto simp: advance_def split: prod.splits)
  have "outgoing s = []" "incoming s = []"
    using assms(1,2) by (cases "step s"; auto simp: session_inv_def is_open_def)+
  with step_next_inv [OF _ n assms(2)] assms(1) show ?thesis
    by (auto simp: session_inv_def s' split: step.splits)
qed

end

interpretation client_role: session_role ch_attestation_state "\<lambda>config b ast. client_handshake_build C config b ast rand"
  client_take_handshake_result for C rand
  by unfold_locales
    (auto simp: client_handshake_build_def client_handshake_create_def client_take_handshake_result_def result_simps
      case_prod_unfold)

interpretation server_role: session_role sh_attestation_state server_handshake_build server_take_handshake_result
  by unfold_locales
    (auto simp: server_handshake_build_def server_handshake_new_def server_take_handshake_result_def result_simps)

lemma client_next_inv:
  assumes "session_inv C config pub ch_attestation_state s" "rank (step s) < 2" "client_next C rand s = (s', r)"
  shows "session_inv C config pub ch_attestation_state s'" "rank (step s) < rank (step s')"
  using client_role.advance_inv [OF assms(1,2) assms(3) [unfolded client_next_def]] by auto

lemma server_next_inv:
  assumes "session_inv C config pub sh_attestation_state s" "rank (step s) < 2" "server_next C s = (s', r)"
  shows "session_inv C config pub sh_attestation_state s'" "rank (step s) < rank (step s')"
  using server_role.advance_inv [OF assms(1,2) assms(3) [unfolded server_next_def server_attestation_eq]] by auto


subsection \<open>The operations keep the invariant\<close>

lemma is_open_rank: "is_open s \<longleftrightarrow> rank (step s) = 2"
  by (cases "step s") (auto simp: is_open_def)

lemma write_inv:
  assumes "session_inv C config pub ast_of s" "session_write C' s p = (s', r)"
  shows "session_inv C config pub ast_of s' \<and> rank (step s') = rank (step s)"
  using assms
  by (cases "step s") (auto simp: session_write_def session_inv_def step_inv_def is_open_def bind_st_def
      split: if_splits prod.splits result.splits)

lemma read_inv:
  assumes "session_inv C config pub ast_of s" "session_read t C' s = (s', r)"
  shows "session_inv C config pub ast_of s' \<and> rank (step s') = rank (step s)"
  using assms
  by (cases "step s") (auto simp: session_read_def session_inv_def step_inv_def is_open_def bind_st_def Let_def
      split: if_splits prod.splits result.splits list.splits option.splits session_body.splits)

lemma pop_inv:
  assumes "session_inv C config pub ast_of s" "pop_outgoing s = (s', r)"
  shows "session_inv C config pub ast_of s' \<and> step s' = step s"
  using assms
  by (auto simp: pop_outgoing_def session_inv_def is_open_def split: list.splits step.splits)

lemma push_inv:
  assumes "session_inv C config pub ast_of s" "push_incoming s (Some (Encrypted em)) = (s', r)" "is_open s"
  shows "session_inv C config pub ast_of s' \<and> step s' = step s"
  using assms
  by (auto simp: push_incoming_def session_inv_def is_open_def split: if_splits)

lemma client_handshake_state_kept:
  "client_handshake_get_outgoing hh = (hh', r) \<Longrightarrow> ch_attestation_state hh' = ch_attestation_state hh"
  "client_handshake_put_incoming C hh m = (hh', r') \<Longrightarrow> ch_attestation_state hh' = ch_attestation_state hh"
  by (auto simp: client_handshake_get_outgoing_def client_handshake_put_incoming_def bind_st_def Let_def
      split: option.splits prod.splits result.splits if_splits)

lemma server_handshake_state_kept:
  "server_handshake_get_outgoing hh = (hh', r) \<Longrightarrow> sh_attestation_state hh' = sh_attestation_state hh"
  "server_handshake_put_incoming C hh m rand = (hh', r') \<Longrightarrow> sh_attestation_state hh' = sh_attestation_state hh"
  by (auto simp: server_handshake_get_outgoing_def server_handshake_put_incoming_def bind_st_def Let_def
      split: option.splits prod.splits result.splits if_splits)

text \<open>Replacing the handler of a step that has not opened yet.\<close>

lemma set_attester_inv:
  assumes "session_inv C config pub ast_of s" "step s = StepAttestation ah hc ep p"
    and "handler_sound ah' \<and> ah_config ah' = ah_config ah"
  shows "session_inv C config pub ast_of (s\<lparr>step := StepAttestation ah' hc ep p\<rparr>)"
  using assms by (auto simp: session_inv_def step_inv_def is_open_def)

lemma set_handshaker_inv:
  assumes "session_inv C config pub ast_of s" "step s = StepHandshake hh ep p" "ast_of hh' = ast_of hh"
  shows "session_inv C config pub ast_of (s\<lparr>step := StepHandshake hh' ep p\<rparr>)"
  using assms by (auto simp: session_inv_def step_inv_def is_open_def)

lemma handshaker_sound: "session_inv C config pub ast_of s \<Longrightarrow> step s = StepAttestation ah hc ep p \<Longrightarrow> handler_sound ah"
  by (simp add: session_inv_def step_inv_def)

lemma client_get_inv:
  assumes "session_inv L config pub ch_attestation_state s" "client_get_outgoing_message L s rand = (s', r)"
  shows "session_inv L config pub ch_attestation_state s' \<and> rank (step s) \<le> rank (step s')"
proof (cases "step s")
  case (StepAttestation ah hc ep p)
  obtain ah' om where g: "client_attestation_get_outgoing L ah = (ah', Ok om)"
    by (simp add: client_attestation_get_outgoing_def)
  let ?s = "s\<lparr>step := StepAttestation ah' hc ep p\<rparr>"
  have "session_inv L config pub ch_attestation_state ?s"
    using set_attester_inv [OF assms(1) StepAttestation client_get_outgoing_sound [OF handshaker_sound [OF assms(1) StepAttestation] g]] .
  with StepAttestation assms(2) g show ?thesis
    by (auto simp: client_get_outgoing_message_def split: option.splits)
next
  case (StepHandshake hh ep p)
  obtain hh' om where g: "client_handshake_get_outgoing hh = (hh', Ok om)"
    by (cases "ch_initial_message hh") (auto simp: client_handshake_get_outgoing_def)
  let ?s = "s\<lparr>step := StepHandshake hh' ep p\<rparr>"
  have inv: "session_inv L config pub ch_attestation_state ?s"
    using set_handshaker_inv [OF assms(1) StepHandshake client_handshake_state_kept(1) [OF g]] .
  obtain s1 r1 where n: "client_next L rand ?s = (s1, r1)" by fastforce
  note n_inv = client_next_inv [OF inv _ n]
  show ?thesis
    using StepHandshake assms(2) g inv n n_inv pop_inv [OF inv]
    by (auto simp: client_get_outgoing_message_def bind_st_def split: option.splits if_splits result.splits)
next
  case (StepOpen enc ast hs)
  with assms pop_inv [OF assms(1)] show ?thesis by (auto simp: client_get_outgoing_message_def)
qed (use assms in \<open>auto simp: client_get_outgoing_message_def\<close>)

lemma client_put_inv:
  assumes "merge_join_correct L" "session_inv L config pub ch_attestation_state s"
    and "client_put_incoming_message L s m rand = (s', r)"
  shows "session_inv L config pub ch_attestation_state s' \<and> rank (step s) \<le> rank (step s')"
proof (cases "step s")
  case (StepAttestation ah hc ep p)
  show ?thesis
  proof (cases "\<exists>am. m = Some (Attest am)")
    case True
    then obtain am where m: "m = Some (Attest am)" by blast
    obtain ah' om where g: "client_attestation_put_incoming L ah am = (ah', om)" by fastforce
    let ?s = "s\<lparr>step := StepAttestation ah' hc ep p\<rparr>"
    have inv: "session_inv L config pub ch_attestation_state ?s"
      using set_attester_inv [OF assms(2) StepAttestation
          client_put_incoming_sound [OF assms(1) handshaker_sound [OF assms(2) StepAttestation] g]] .
    obtain s1 r1 where n: "client_next L rand ?s = (s1, r1)" by fastforce
    note n_inv = client_next_inv [OF inv _ n]
    show ?thesis
      using StepAttestation assms(2,3) g inv m n n_inv
      by (auto simp: client_put_incoming_message_def Let_def bind_st_def split: option.splits if_splits result.splits)
  qed (use StepAttestation assms(2,3) in \<open>auto simp: client_put_incoming_message_def split: option.splits session_body.splits\<close>)
next
  case (StepHandshake hh ep p)
  show ?thesis
  proof (cases "\<exists>hm. m = Some (Handshake hm)")
    case True
    then obtain hm where m: "m = Some (Handshake hm)" by blast
    obtain hh' om where g: "client_handshake_put_incoming L hh hm = (hh', om)" by fastforce
    let ?s = "s\<lparr>step := StepHandshake hh' ep p\<rparr>"
    have inv: "session_inv L config pub ch_attestation_state ?s"
      using set_handshaker_inv [OF assms(2) StepHandshake client_handshake_state_kept(2) [OF g]] .
    obtain s1 r1 where n: "client_next L rand ?s = (s1, r1)" by fastforce
    note n_inv = client_next_inv [OF inv _ n]
    show ?thesis
      using StepHandshake assms(2,3) g inv m n n_inv
      by (auto simp: client_put_incoming_message_def bind_st_def split: option.splits if_splits result.splits)
  qed (use StepHandshake assms(2,3) in \<open>auto simp: client_put_incoming_message_def split: option.splits session_body.splits\<close>)
next
  case (StepOpen enc ast hs)
  then have "is_open s" by (simp add: is_open_def)
  with StepOpen assms push_inv [OF assms(2)] show ?thesis
    by (auto simp: client_put_incoming_message_def split: option.splits session_body.splits)
qed (use assms in \<open>auto simp: client_put_incoming_message_def split: option.splits session_body.splits\<close>)

lemma server_get_inv:
  assumes "session_inv L config pub sh_attestation_state s" "server_get_outgoing_message L s = (s', r)"
  shows "session_inv L config pub sh_attestation_state s' \<and> rank (step s) \<le> rank (step s')"
proof (cases "step s")
  case (StepAttestation ah hc ep p)
  obtain ah' om where g: "server_attestation_get_outgoing L ah = (ah', Ok om)"
    by (simp add: server_attestation_get_outgoing_def)
  let ?s = "s\<lparr>step := StepAttestation ah' hc ep p\<rparr>"
  have inv: "session_inv L config pub sh_attestation_state ?s"
    using set_attester_inv [OF assms(1) StepAttestation client_get_outgoing_sound
        [OF handshaker_sound [OF assms(1) StepAttestation] g [unfolded server_attestation_eq]]] .
  obtain s1 r1 where n: "server_next L ?s = (s1, r1)" by fastforce
  note n_inv = server_next_inv [OF inv _ n]
  show ?thesis
    using StepAttestation assms(2) g inv n n_inv
    by (auto simp: server_get_outgoing_message_def bind_st_def split: option.splits result.splits)
next
  case (StepHandshake hh ep p)
  obtain hh' om where g: "server_handshake_get_outgoing hh = (hh', Ok om)"
    by (simp add: server_handshake_get_outgoing_def)
  let ?s = "s\<lparr>step := StepHandshake hh' ep p\<rparr>"
  have inv: "session_inv L config pub sh_attestation_state ?s"
    using set_handshaker_inv [OF assms(1) StepHandshake server_handshake_state_kept(1) [OF g]] .
  obtain s1 r1 where n: "server_next L ?s = (s1, r1)" by fastforce
  note n_inv = server_next_inv [OF inv _ n]
  show ?thesis
    using StepHandshake assms(2) g inv n n_inv
    by (auto simp: server_get_outgoing_message_def bind_st_def split: option.splits if_splits result.splits)
next
  case (StepOpen enc ast hs)
  with assms pop_inv [OF assms(1)] show ?thesis by (auto simp: server_get_outgoing_message_def)
qed (use assms in \<open>auto simp: server_get_outgoing_message_def\<close>)

lemma server_put_inv:
  assumes "merge_join_correct L" "session_inv L config pub sh_attestation_state s"
    and "server_put_incoming_message L s m rand = (s', r)"
  shows "session_inv L config pub sh_attestation_state s' \<and> rank (step s) \<le> rank (step s')"
proof (cases "step s")
  case (StepAttestation ah hc ep p)
  show ?thesis
  proof (cases "\<exists>am. m = Some (Attest am)")
    case True
    then obtain am where m: "m = Some (Attest am)" by blast
    obtain ah' om where g: "server_attestation_put_incoming L ah am = (ah', om)" by fastforce
    have "session_inv L config pub sh_attestation_state (s\<lparr>step := StepAttestation ah' hc ep p\<rparr>)"
      using set_attester_inv [OF assms(2) StepAttestation client_put_incoming_sound
          [OF assms(1) handshaker_sound [OF assms(2) StepAttestation] g [unfolded server_attestation_eq]]] .
    with StepAttestation assms(2,3) g m show ?thesis
      by (auto simp: server_put_incoming_message_def Let_def bind_st_def split: option.splits if_splits result.splits)
  qed (use StepAttestation assms(2,3) in \<open>auto simp: server_put_incoming_message_def split: option.splits session_body.splits\<close>)
next
  case (StepHandshake hh ep p)
  show ?thesis
  proof (cases "\<exists>hm. m = Some (Handshake hm)")
    case True
    then obtain hm where m: "m = Some (Handshake hm)" by blast
    obtain hh' om where g: "server_handshake_put_incoming L hh hm rand = (hh', om)" by fastforce
    have "session_inv L config pub sh_attestation_state (s\<lparr>step := StepHandshake hh' ep p\<rparr>)"
      using set_handshaker_inv [OF assms(2) StepHandshake server_handshake_state_kept(2) [OF g]] .
    with StepHandshake assms(2,3) g m show ?thesis
      by (auto simp: server_put_incoming_message_def bind_st_def split: option.splits if_splits result.splits)
  qed (use StepHandshake assms(2,3) in \<open>auto simp: server_put_incoming_message_def split: option.splits session_body.splits\<close>)
next
  case (StepOpen enc ast hs)
  then have "is_open s" by (simp add: is_open_def)
  with StepOpen assms push_inv [OF assms(2)] show ?thesis
    by (auto simp: server_put_incoming_message_def split: option.splits session_body.splits)
qed (use assms in \<open>auto simp: server_put_incoming_message_def split: option.splits session_body.splits\<close>)


subsection \<open>Reachable sessions\<close>

text \<open>One call of a method of the session, with any argument.\<close>

inductive client_step :: "'x session_lib_scheme \<Rightarrow> client_session \<Rightarrow> client_session \<Rightarrow> bool" for L where
  client_gets: "client_get_outgoing_message L s rand = (s', r) \<Longrightarrow> client_step L s s'"
| client_puts: "client_put_incoming_message L s m rand = (s', r') \<Longrightarrow> client_step L s s'"
| client_writes: "client_write L s p = (s', w) \<Longrightarrow> client_step L s s'"
| client_reads: "client_read L s = (s', o') \<Longrightarrow> client_step L s s'"

inductive server_step :: "'x session_lib_scheme \<Rightarrow> server_session \<Rightarrow> server_session \<Rightarrow> bool" for L where
  server_gets: "server_get_outgoing_message L s = (s', r) \<Longrightarrow> server_step L s s'"
| server_puts: "server_put_incoming_message L s m rand = (s', r') \<Longrightarrow> server_step L s s'"
| server_writes: "server_write L s p = (s', w) \<Longrightarrow> server_step L s s'"
| server_reads: "server_read L s = (s', o') \<Longrightarrow> server_step L s s'"

inductive_cases client_stepE: "client_step L s s'"
inductive_cases server_stepE: "server_step L s s'"

definition client_reachable :: "'x session_lib_scheme \<Rightarrow> session_config \<Rightarrow> client_session \<Rightarrow> bool" where
  "client_reachable L config s \<longleftrightarrow> (\<exists>s0. client_session_create config = Ok s0 \<and> (client_step L)\<^sup>*\<^sup>* s0 s)"

definition server_reachable :: "'x session_lib_scheme \<Rightarrow> session_config \<Rightarrow> server_session \<Rightarrow> bool" where
  "server_reachable L config s \<longleftrightarrow> (\<exists>s0. server_session_create config = Ok s0 \<and> (server_step L)\<^sup>*\<^sup>* s0 s)"

lemma client_step_inv:
  assumes "merge_join_correct L" "session_inv L config pub ch_attestation_state s" "client_step L s s'"
  shows "session_inv L config pub ch_attestation_state s' \<and> rank (step s) \<le> rank (step s')"
  using assms(3)
  by (cases rule: client_stepE)
    (auto simp: client_write_def client_read_def dest: client_get_inv [OF assms(2)] client_put_inv [OF assms(1,2)]
      write_inv [OF assms(2)] read_inv [OF assms(2)])

lemma server_step_inv:
  assumes "merge_join_correct L" "session_inv L config pub sh_attestation_state s" "server_step L s s'"
  shows "session_inv L config pub sh_attestation_state s' \<and> rank (step s) \<le> rank (step s')"
  using assms(3)
  by (cases rule: server_stepE)
    (auto simp: server_write_def server_read_def dest: server_get_inv [OF assms(2)] server_put_inv [OF assms(1,2)]
      write_inv [OF assms(2)] read_inv [OF assms(2)])

lemma client_reachable_inv:
  assumes "merge_join_correct L" "client_reachable L config s"
  shows "session_inv L (config_attestation config) (config_publisher config) ch_attestation_state s"
proof -
  from assms(2) obtain s0 where c: "client_session_create config = Ok s0" and r: "(client_step L)\<^sup>*\<^sup>* s0 s"
    by (auto simp: client_reachable_def)
  from r show ?thesis
  proof (induction rule: rtranclp_induct)
    case base
    with c show ?case
      by (auto simp: client_session_create_def session_inv_def step_inv_def is_open_def result_simps
          dest: client_create_sound)
  next
    case (step y z)
    with client_step_inv [OF assms(1)] show ?case by blast
  qed
qed

lemma server_reachable_inv:
  assumes "merge_join_correct L" "server_reachable L config s"
  shows "session_inv L (config_attestation config) (config_publisher config) sh_attestation_state s"
proof -
  from assms(2) obtain s0 where c: "server_session_create config = Ok s0" and r: "(server_step L)\<^sup>*\<^sup>* s0 s"
    by (auto simp: server_reachable_def)
  from r show ?thesis
  proof (induction rule: rtranclp_induct)
    case base
    with c show ?case
      by (auto simp: server_session_create_def session_inv_def step_inv_def is_open_def result_simps server_attestation_eq
          dest: client_create_sound)
  next
    case (step y z)
    with server_step_inv [OF assms(1)] show ?case by blast
  qed
qed

lemma client_late_steps:
  assumes "2 \<le> rank (step s)" "client_step L s s'"
  shows "rank (step s') = rank (step s)"
  using assms(2)
  by (cases rule: client_stepE; cases "step s")
    (use assms(1) in \<open>auto simp: client_get_outgoing_message_def client_put_incoming_message_def client_write_def
      client_read_def session_write_def session_read_def pop_outgoing_def push_incoming_def bind_st_def Let_def
      split: option.splits session_body.splits list.splits if_splits prod.splits result.splits\<close>)

lemma server_late_steps:
  assumes "2 \<le> rank (step s)" "server_step L s s'"
  shows "rank (step s') = rank (step s)"
  using assms(2)
  by (cases rule: server_stepE; cases "step s")
    (use assms(1) in \<open>auto simp: server_get_outgoing_message_def server_put_incoming_message_def server_write_def
      server_read_def session_write_def session_read_def pop_outgoing_def push_incoming_def bind_st_def Let_def
      split: option.splits session_body.splits list.splits if_splits prod.splits result.splits\<close>)

end
