(* ===== verification/Session_Run.thy ===== *)
theory Session_Run
  imports Session_Machine
begin

section \<open>Honest runs of a session\<close>

text \<open>
  Two sessions that exchange their messages unchanged. The driver \<open>deliver_round\<close> is the
  loop an application writes around \<open>get_outgoing_message\<close> and \<open>put_incoming_message\<close>; the
  theorem shows that three rounds open both sessions, with crossed encryptors and equal
  binding tokens, whenever each side accepts what the other presents.
\<close>


subsection \<open>Rounds\<close>

text \<open>One message from a session to its peer, if there is one to send.\<close>

definition transfer ::
  "'s \<times> ('o option, error) result \<Rightarrow> ('r \<Rightarrow> 'o \<Rightarrow> 'r \<times> (unit option, error) result) \<Rightarrow> 'r \<Rightarrow> ('s \<times> 'r, error) result" where
  "transfer out put r =
     bind_result (snd out) (\<lambda>om.
       case om of
         None \<Rightarrow> Ok (fst out, r)
       | Some m \<Rightarrow> (case put r m of (r', x) \<Rightarrow> map_ok (\<lambda>_. (fst out, r')) x))"

text \<open>The client sends and the server receives, then the other way round.\<close>

definition deliver_round ::
  "'x session_lib_scheme \<Rightarrow> bytes \<Rightarrow> bytes \<Rightarrow> client_session \<times> server_session \<Rightarrow>
     (client_session \<times> server_session, error) result" where
  "deliver_round L client_rand server_rand cs =
     bind_result (transfer (client_get_outgoing_message L (fst cs) client_rand)
                    (\<lambda>s m. server_put_incoming_message L s m server_rand) (snd cs)) (\<lambda>(c, s).
     bind_result (transfer (server_get_outgoing_message L s)
                    (\<lambda>c m. client_put_incoming_message L c m client_rand) c) (\<lambda>(s, c).
     Ok (c, s)))"

fun deliver_rounds ::
  "nat \<Rightarrow> 'x session_lib_scheme \<Rightarrow> bytes \<Rightarrow> bytes \<Rightarrow> client_session \<times> server_session \<Rightarrow>
     (client_session \<times> server_session, error) result" where
  "deliver_rounds 0 L client_rand server_rand cs = Ok cs"
| "deliver_rounds (Suc n) L client_rand server_rand cs =
     bind_result (deliver_round L client_rand server_rand cs) (deliver_rounds n L client_rand server_rand)"

text \<open>
  A configuration accepts what its peer presents, and the peer's binders and bindable
  assertions are those the verifiers look for.
\<close>

definition trusts ::
  "'x session_lib_scheme \<Rightarrow> attestation_handler_config \<Rightarrow> attestation_handler \<Rightarrow> handshake_handler_config \<Rightarrow> bool" where
  "trusts L config peer peer_handshake \<longleftrightarrow>
     (\<exists>m l a. ah_attest_message peer = Some m \<and> attest_encoded_len L m < DEFAULT_MAX_ATTESTATION_SIZE \<and>
        combine_attestation_results L (peer_verifiers config) (endorsed_evidence m) = Ok l \<and>
        combine_assertion_results L (peer_assertion_verifiers config) (assertions m) = Ok a \<and>
        legacy_attestation_results_aggregator config l = Ok () \<and>
        process_assertion_results (assertion_attestation_aggregator config) a = Ok () \<and>
        (\<forall>k ee res pv. btm_get l k = Some (VerifierSuccess ee res) \<longrightarrow> btm_get (peer_verifiers config) k = Some pv \<longrightarrow>
           (\<exists>bv bnd. binding_verifier_provider pv res = Ok bv \<and> btm_get (hc_session_binders peer_handshake) k = Some bnd \<and>
              (\<forall>h. bv h (bnd h) = Ok ()))) \<and>
        (\<forall>k v. btm_get a k = Some (BoundSuccess v) \<longrightarrow>
           (\<exists>ba. btm_get (ah_bindable_assertions peer) k = Some ba \<and>
              (\<forall>d b. ba_bind ba d = Ok b \<longrightarrow> vba_verify_binding v d b = Ok ()))))"

text \<open>The bindings a peer sends for any handshake verify.\<close>

definition accountable ::
  "'x crypto_scheme \<Rightarrow> attestation_state \<Rightarrow> attestation_handler \<Rightarrow> handshake_handler_config \<Rightarrow> bool" where
  "accountable C ast peer peer_handshake \<longleftrightarrow>
     (\<forall>hash abds. bind_assertions (ah_bindable_assertions peer)
          (create_session_binding_token C (attestation_binding_token ast) hash) = Ok abds \<longrightarrow>
        bindings_verified C ast \<lparr>handshake_binding_token = hash,
          peer_session_bindings = bind_session (hc_session_binders peer_handshake) hash, peer_assertion_bindings = abds\<rparr>)"

text \<open>Two open sessions whose encryptors and tokens match, with nothing in flight.\<close>

definition sessions_paired :: "'x crypto_scheme \<Rightarrow> ('a, 'h) session \<Rightarrow> ('b, 'i) session \<Rightarrow> bool" where
  "sessions_paired C c s \<longleftrightarrow>
     (\<exists>ec cast chs es sast shs. step c = StepOpen ec cast chs \<and> step s = StepOpen es sast shs \<and>
        encryptors_paired C ec es \<and> encryptors_paired C es ec \<and>
        handshake_binding_token chs = handshake_binding_token shs \<and>
        attestation_binding_token cast = attestation_binding_token sast \<and>
        outgoing c = [] \<and> incoming c = [] \<and> outgoing s = [] \<and> incoming s = [])"


subsection \<open>The attestation step of an honest run\<close>

lemma put_trusted:
  assumes "trusts L config peer hs" "ah_attest_message peer = Some m"
    and "ah_config ah = config" "ah_attestation_result ah = None"
  obtains l a where
    "client_attestation_put_incoming L ah m = (ah\<lparr>ah_attestation_binding_token :=
         ah_attestation_binding_token ah @ serialize_assertions L (assertions m),
       ah_attestation_result := Some (AttestationPassed l a)\<rparr>, Ok (Some ()))"
    "combine_attestation_results L (peer_verifiers config) (endorsed_evidence m) = Ok l"
    "combine_assertion_results L (peer_assertion_verifiers config) (assertions m) = Ok a"
    "\<forall>k ee res pv. btm_get l k = Some (VerifierSuccess ee res) \<longrightarrow> btm_get (peer_verifiers config) k = Some pv \<longrightarrow>
       (\<exists>bv bnd. binding_verifier_provider pv res = Ok bv \<and> btm_get (hc_session_binders hs) k = Some bnd \<and>
         (\<forall>h. bv h (bnd h) = Ok ()))"
    "\<forall>k v. btm_get a k = Some (BoundSuccess v) \<longrightarrow>
       (\<exists>ba. btm_get (ah_bindable_assertions peer) k = Some ba \<and>
         (\<forall>d b. ba_bind ba d = Ok b \<longrightarrow> vba_verify_binding v d b = Ok ()))"
proof -
  from assms(1,2) obtain l a where t:
    "combine_attestation_results L (peer_verifiers config) (endorsed_evidence m) = Ok l"
    "combine_assertion_results L (peer_assertion_verifiers config) (assertions m) = Ok a"
    "legacy_attestation_results_aggregator config l = Ok ()"
    "process_assertion_results (assertion_attestation_aggregator config) a = Ok ()"
    "\<forall>k ee res pv. btm_get l k = Some (VerifierSuccess ee res) \<longrightarrow> btm_get (peer_verifiers config) k = Some pv \<longrightarrow>
       (\<exists>bv bnd. binding_verifier_provider pv res = Ok bv \<and> btm_get (hc_session_binders hs) k = Some bnd \<and>
         (\<forall>h. bv h (bnd h) = Ok ()))"
    "\<forall>k v. btm_get a k = Some (BoundSuccess v) \<longrightarrow>
       (\<exists>ba. btm_get (ah_bindable_assertions peer) k = Some ba \<and>
         (\<forall>d b. ba_bind ba d = Ok b \<longrightarrow> vba_verify_binding v d b = Ok ()))"
    unfolding trusts_def by fastforce
  show thesis
    by (rule that [OF _ t(1,2,5,6)]) (use assms(3,4) t(1-4) in \<open>simp_all add: client_attestation_put_incoming_def Let_def\<close>)
qed

lemma take_trusted:
  assumes "merge_join_correct L" "ah_config ah = config" "ah_attestation_result ah = Some (AttestationPassed l a)"
    and "combine_attestation_results L (peer_verifiers config) ev = Ok l"
    and prov: "\<And>k ee res pv. btm_get l k = Some (VerifierSuccess ee res) \<Longrightarrow> btm_get (peer_verifiers config) k = Some pv \<Longrightarrow>
       \<exists>bv. binding_verifier_provider pv res = Ok bv \<and> good k bv"
  obtains bvs where
    "client_take_attestation_state ah = Ok \<lparr>peer_attestation_verdict = AttestationPassed l a,
       self_assertions = ah_bindable_assertions ah, peer_session_binding_verifiers = bvs,
       attestation_binding_token = ah_attestation_binding_token ah\<rparr>"
    "\<And>k bv. btm_get bvs k = Some bv \<Longrightarrow> good k bv"
proof -
  let ?f = "\<lambda>i r. case r of VerifierSuccess _ res \<Rightarrow> Some (binding_verifier_of config i res) | _ \<Rightarrow> None"
  have pv: "\<exists>bv. binding_verifier_of config k res = Ok bv \<and> good k bv"
    if "btm_get l k = Some (VerifierSuccess ee res)" for k ee res
  proof -
    have "btm_get (peer_verifiers config) k \<noteq> None"
      using combine_attestation_results_get [OF assms(1,4), of k] that by (auto split: option.splits)
    then show ?thesis using prov [OF that] by (auto simp: binding_verifier_of_def)
  qed
  have "\<exists>bvs. btm_try_filter_map ?f l = Ok bvs"
    by (rule btm_try_filter_map_exists) (auto split: verifier_result.splits dest: pv)
  then obtain bvs where bvs: "btm_try_filter_map ?f l = Ok bvs" ..
  have "good k bv" if "btm_get bvs k = Some bv" for k bv
    using btm_try_filter_map_get [OF bvs, of k] that pv [of k]
    by (cases "btm_get l k") (force split: verifier_result.splits)+
  then show thesis
    using bvs assms(2,3) that by (simp add: client_take_attestation_state_def)
qed

lemma needs_session_bindings_iff:
  assumes "merge_join_correct L"
    and "combine_attestation_results L vs ev = Ok l" "combine_assertion_results L avs as = Ok a"
  shows "needs_session_bindings (AttestationPassed l a) \<longleftrightarrow> \<not> (btm_is_empty ev \<and> btm_is_empty as)"
proof -
  have "(\<exists>k r. btm_get l k = Some r \<and> r \<noteq> VerifierMissing) \<longleftrightarrow> \<not> btm_is_empty ev"
  proof -
    have "(\<exists>r. btm_get l k = Some r \<and> r \<noteq> VerifierMissing) \<longleftrightarrow> btm_get ev k \<noteq> None" for k
      using combine_attestation_results_get [OF assms(1,2), of k]
      by (auto simp: verify_endorsed_evidence_def split: option.splits result.splits attestation_status.splits)
    then show ?thesis by (auto simp: btm_is_empty_iff)
  qed
  moreover have "(\<exists>k r. btm_get a k = Some r \<and> r \<noteq> BoundMissing) \<longleftrightarrow> \<not> btm_is_empty as"
  proof -
    have "(\<exists>r. btm_get a k = Some r \<and> r \<noteq> BoundMissing) \<longleftrightarrow> btm_get as k \<noteq> None" for k
      using combine_assertion_results_get [OF assms(1,3), of k]
      by (auto simp: verify_peer_assertion_def split: option.splits result.splits)
    then show ?thesis by (auto simp: btm_is_empty_iff)
  qed
  moreover have "needs_session_bindings (AttestationPassed l a) \<longleftrightarrow>
      (\<exists>k r. btm_get a k = Some r \<and> r \<noteq> BoundMissing) \<or> (\<exists>k r. btm_get l k = Some r \<and> r \<noteq> VerifierMissing)"
    by (force simp: needs_session_bindings_def list_ex_iff btm.get_iter_Some_iff
        split: verifier_result.splits bound_assertion_verifier_result.splits)
  ultimately show ?thesis by blast
qed


subsection \<open>The handshake step of an honest run\<close>

lemma bindings_accepted:
  assumes "bindings_verified C ast hs"
  shows "bind_result (verify_session_binding (peer_session_binding_verifiers ast)
      (peer_session_bindings hs) (handshake_binding_token hs)) (\<lambda>_.
      verify_assertion_session_binding C (get_assertion_verification_results (peer_attestation_verdict ast))
        (peer_assertion_bindings hs) (attestation_binding_token ast) (handshake_binding_token hs)) = Ok ()"
proof -
  have "verify_session_binding (peer_session_binding_verifiers ast) (peer_session_bindings hs) (handshake_binding_token hs) = Ok ()"
    unfolding verify_session_binding_def for_each_Ok_iff
  proof (clarsimp simp: btm.get_iter_Some_iff [symmetric])
    fix k bv assume "btm_get (peer_session_binding_verifiers ast) k = Some bv"
    with assms show "bind_result (ok_or e (btm_get (peer_session_bindings hs) k))
        (\<lambda>b. bv (handshake_binding_token hs) (binding b)) = Ok ()" for e
      unfolding bindings_verified_def by fastforce
  qed
  moreover have "verify_assertion_session_binding C (get_assertion_verification_results (peer_attestation_verdict ast))
      (peer_assertion_bindings hs) (attestation_binding_token ast) (handshake_binding_token hs) = Ok ()"
    unfolding verify_assertion_session_binding_def Let_def for_each_Ok_iff
  proof (clarsimp simp: btm.get_iter_Some_iff [symmetric] split: bound_assertion_verifier_result.split)
    fix k v
    assume "btm_get (get_assertion_verification_results (peer_attestation_verdict ast)) k = Some (BoundSuccess v)"
    with assms show "bind_result (ok_or e (btm_get (peer_assertion_bindings hs) k)) (\<lambda>b. context_err t (map_err from_verification_error
        (vba_verify_binding v (create_session_binding_token C (attestation_binding_token ast) (handshake_binding_token hs)) b))) = Ok ()" for e t
      unfolding bindings_verified_def by fastforce
  qed
  ultimately show ?thesis by simp
qed

lemma honest_bindings_verified:
  assumes "\<And>k bv. btm_get (peer_session_binding_verifiers ast) k = Some bv \<Longrightarrow>
       \<exists>bnd. btm_get binders k = Some bnd \<and> (\<forall>h. bv h (bnd h) = Ok ())"
    and "\<And>k v. btm_get (get_assertion_verification_results (peer_attestation_verdict ast)) k = Some (BoundSuccess v) \<Longrightarrow>
       \<exists>ba. btm_get bas k = Some ba \<and> (\<forall>d b. ba_bind ba d = Ok b \<longrightarrow> vba_verify_binding v d b = Ok ())"
    and abds: "bind_assertions bas (create_session_binding_token C (attestation_binding_token ast) hash) = Ok abds"
  shows "bindings_verified C ast \<lparr>handshake_binding_token = hash, peer_session_bindings = bind_session binders hash,
    peer_assertion_bindings = abds\<rparr>"
proof -
  have "\<exists>b. btm_get abds k = Some b \<and> vba_verify_binding v
      (create_session_binding_token C (attestation_binding_token ast) hash) b = Ok ()"
    if v: "btm_get (get_assertion_verification_results (peer_attestation_verdict ast)) k = Some (BoundSuccess v)" for k v
  proof -
    from assms(2) [OF v] obtain ba where ba: "btm_get bas k = Some ba"
      "\<And>d b. ba_bind ba d = Ok b \<Longrightarrow> vba_verify_binding v d b = Ok ()" by blast
    obtain b where "btm_get abds k = Some b"
      using btm_try_map_get [OF abds [unfolded bind_assertions_def], of k] ba(1) by (cases "btm_get abds k") auto
    with ba bind_assertions_get [OF abds] show ?thesis by fastforce
  qed
  with assms(1) show ?thesis
    by (fastforce simp: bindings_verified_def bind_session_def)
qed

lemma bind_nothing: "bind_session btm_empty hash = btm_empty" "bind_assertions btm_empty d = Ok btm_empty"
  by (simp_all add: bind_session_def bind_assertions_def btm_map_def btm_try_map_def btm_collect_def btm_empty.rep_eq)

lemma client_opens:
  assumes "step c = StepHandshake hh ordered_channel_encryptor_provider pub" "ch_handshake_result hh = Some r"
    and "bindings_verified C (ch_attestation_state hh) (hr_handshake_state r)"
  shows "client_next C rand c = (c\<lparr>step := StepOpen (OrderedChannelEncryptor (hr_crypter r)) (ch_attestation_state hh) (hr_handshake_state r),
    published := published c @ (if pub then [new_from_state (ch_attestation_state hh) (hr_handshake_state r)] else [])\<rparr>, Ok ())"
  using assms(1,2) bindings_accepted [OF assms(3)]
  by (simp add: client_next_def advance_def step_next_def client_take_handshake_result_def Let_def
      ordered_channel_encryptor_provider_def ordered_channel_encryptor_try_from_def)

lemma server_opens:
  assumes "step s = StepHandshake hh ordered_channel_encryptor_provider pub" "sh_handshake_result hh = Some r"
    and "bindings_verified C (sh_attestation_state hh) (hr_handshake_state r)"
  shows "server_next C s = (s\<lparr>step := StepOpen (OrderedChannelEncryptor (hr_crypter r)) (sh_attestation_state hh) (hr_handshake_state r),
    published := published s @ (if pub then [new_from_state (sh_attestation_state hh) (hr_handshake_state r)] else [])\<rparr>, Ok ())"
  using assms(1,2) bindings_accepted [OF assms(3)]
  by (simp add: server_next_def advance_def step_next_def server_take_handshake_result_def Let_def
      ordered_channel_encryptor_provider_def ordered_channel_encryptor_try_from_def)

lemma round_attest:
  assumes "step c = StepAttestation ca hc epc pc" "step s = StepAttestation sa hs eps ps"
    and "ah_attest_message ca = Some cm" "attest_encoded_len L cm < DEFAULT_MAX_ATTESTATION_SIZE"
    and "server_attestation_put_incoming L sa cm = (sa1, Ok (Some ()))"
    and "ah_attest_message sa1 = Some sm" "attest_encoded_len L sm < DEFAULT_MAX_ATTESTATION_SIZE"
    and "server_take_attestation_state (fst (server_attestation_get_outgoing L sa1)) = Ok sast"
    and "peer_attestation_verdict sast = AttestationPassed sl sas"
    and "client_attestation_put_incoming L (fst (client_attestation_get_outgoing L ca)) sm = (ca2, Ok (Some ()))"
    and "client_take_attestation_state ca2 = Ok cast" "peer_attestation_verdict cast = AttestationPassed cl cas"
    and "client_handshake_create L hc cast ea = Ok ch"
  shows "deliver_round L ea eb (c, s) = Ok (c\<lparr>step := StepHandshake ch epc pc\<rparr>,
    s\<lparr>step := StepHandshake (server_handshake_new hs (needs_session_bindings (AttestationPassed sl sas)) sast) eps ps\<rparr>)"
  using assms
  by (cases c; cases s)
    (simp add: deliver_round_def transfer_def client_get_outgoing_message_def server_put_incoming_message_def
      server_get_outgoing_message_def client_put_incoming_message_def client_attestation_get_outgoing_def
      server_attestation_get_outgoing_def client_next_def server_next_def advance_def step_next_def
      client_handshake_build_def server_handshake_build_def)


lemma round_handshake:
  assumes "step c = StepHandshake ch epc pc" "step s = StepHandshake sh eps ps"
    and "ch_initial_message ch = Some req" "ch_handshake_result ch = None"
    and "server_handshake_put_incoming L sh req eb = (sh1, Ok (Some ()))" "sh_handshake_response sh1 = Some resp"
    and "client_handshake_put_incoming L (ch\<lparr>ch_initial_message := None\<rparr>) resp = (ch2, Ok (Some ()))"
    and "if b then sh_handshake_result sh1 = None \<and> s' = s\<lparr>step := StepHandshake (sh1\<lparr>sh_handshake_response := None\<rparr>) eps ps\<rparr>
      else sh_handshake_result sh1 \<noteq> None \<and>
        server_next L (s\<lparr>step := StepHandshake (sh1\<lparr>sh_handshake_response := None\<rparr>) eps ps\<rparr>) = (s', Ok ())"
    and "if b then ch_followup_message ch2 \<noteq> None \<and> c' = c\<lparr>step := StepHandshake ch2 epc pc\<rparr>
      else client_is_handshake_complete ch2 \<and> client_next L ea (c\<lparr>step := StepHandshake ch2 epc pc\<rparr>) = (c', Ok ())"
  shows "deliver_round L ea eb (c, s) = Ok (c', s')"
  using assms
  by (cases c; cases s; cases b)
    (auto simp: deliver_round_def transfer_def client_get_outgoing_message_def server_put_incoming_message_def
      server_get_outgoing_message_def client_put_incoming_message_def client_handshake_get_outgoing_def
      server_handshake_get_outgoing_def client_is_handshake_complete_def server_is_handshake_complete_def)

lemma round_followup:
  assumes "step c = StepHandshake ch epc pc" "step s = StepHandshake sh eps ps"
    and "ch_initial_message ch = None" "ch_followup_message ch = Some f" "ch_handshake_result ch \<noteq> None"
    and "client_next L ea (c\<lparr>step := StepHandshake (ch\<lparr>ch_followup_message := None\<rparr>) epc pc\<rparr>) = (c', Ok ())"
    and "sh_handshake_response sh = None" "server_handshake_put_incoming L sh f eb = (sh1, Ok (Some ()))"
    and "sh_handshake_response sh1 = None" "sh_handshake_result sh1 \<noteq> None"
    and "server_next L (s\<lparr>step := StepHandshake sh1 eps ps\<rparr>) = (s', Ok ())"
  shows "deliver_round L ea eb (c, s) = Ok (c', s')"
proof -
  have sh1: "sh1\<lparr>sh_handshake_response := None\<rparr> = sh1" using assms(9) by (cases sh1) simp
  show ?thesis
    using assms by (simp add: sh1 deliver_round_def transfer_def client_get_outgoing_message_def server_put_incoming_message_def
      server_get_outgoing_message_def client_handshake_get_outgoing_def
      server_handshake_get_outgoing_def client_is_handshake_complete_def server_is_handshake_complete_def)
qed

text \<open>Both ways a handshake ends: in the round of the responses, or with the client's follow-up.\<close>

definition opened :: "('a, 'h) session \<Rightarrow> bool \<Rightarrow> attestation_state \<Rightarrow> handshake_result \<Rightarrow> ('a, 'h) session" where
  "opened s pub ast r =
     s\<lparr>step := StepOpen (OrderedChannelEncryptor (hr_crypter r)) ast (hr_handshake_state r),
       published := published s @ (if pub then [new_from_state ast (hr_handshake_state r)] else [])\<rparr>"

lemma handshake_without_followup:
  assumes steps: "step c = StepHandshake ch ordered_channel_encryptor_provider pc"
      "step s = StepHandshake sh ordered_channel_encryptor_provider ps"
    and req: "ch_initial_message ch = Some req" "ch_handshake_result ch = None"
      "server_handshake_put_incoming L sh req eb = (sh1, Ok (Some ()))" "sh_handshake_response sh1 = Some resp"
    and resp: "client_handshake_put_incoming L (ch\<lparr>ch_initial_message := None\<rparr>) resp = (ch2, Ok (Some ()))"
    and "sh_handshake_result sh1 = Some rs" "bindings_verified L (sh_attestation_state sh1) (hr_handshake_state rs)"
    and "ch_handshake_result ch2 = Some rc" "ch_followup_message ch2 = None"
      "bindings_verified L (ch_attestation_state ch2) (hr_handshake_state rc)"
  shows "deliver_round L ea eb (c, s) =
    Ok (opened c pc (ch_attestation_state ch2) rc, opened s ps (sh_attestation_state sh1) rs)"
proof (rule round_handshake [where b = False, OF steps req resp])
  show "if False then sh_handshake_result sh1 = None \<and> opened s ps (sh_attestation_state sh1) rs =
        s\<lparr>step := StepHandshake (sh1\<lparr>sh_handshake_response := None\<rparr>) ordered_channel_encryptor_provider ps\<rparr>
      else sh_handshake_result sh1 \<noteq> None \<and> server_next L
        (s\<lparr>step := StepHandshake (sh1\<lparr>sh_handshake_response := None\<rparr>) ordered_channel_encryptor_provider ps\<rparr>) =
          (opened s ps (sh_attestation_state sh1) rs, Ok ())"
    using assms(8,9) by (simp add: server_opens [where r = rs] opened_def)
  show "if False then ch_followup_message ch2 \<noteq> None \<and> opened c pc (ch_attestation_state ch2) rc =
        c\<lparr>step := StepHandshake ch2 ordered_channel_encryptor_provider pc\<rparr>
      else client_is_handshake_complete ch2 \<and> client_next L ea
        (c\<lparr>step := StepHandshake ch2 ordered_channel_encryptor_provider pc\<rparr>) =
          (opened c pc (ch_attestation_state ch2) rc, Ok ())"
    using assms(10-) by (simp add: client_opens [where r = rc] opened_def client_is_handshake_complete_def)
qed

lemma handshake_with_followup:
  assumes steps: "step c = StepHandshake ch ordered_channel_encryptor_provider pc"
      "step s = StepHandshake sh ordered_channel_encryptor_provider ps"
    and req: "ch_initial_message ch = Some req" "ch_handshake_result ch = None"
      "server_handshake_put_incoming L sh req eb = (sh1, Ok (Some ()))" "sh_handshake_response sh1 = Some resp"
    and resp: "client_handshake_put_incoming L (ch\<lparr>ch_initial_message := None\<rparr>) resp = (ch2, Ok (Some ()))"
    and sh: "sh_noise_response sh1 = Some nr" "sh_handshake_result sh1 = None"
    and ch: "ch_initial_message ch2 = None" "ch_followup_message ch2 = Some f" "ch_handshake_result ch2 = Some rc"
    and rs: "rs = \<lparr>hr_crypter = response_crypter nr, hr_handshake_state = \<lparr>handshake_binding_token = response_hash nr,
      peer_session_bindings = attestation_bindings f, peer_assertion_bindings = assertion_bindings f\<rparr>\<rparr>"
    and bv: "bindings_verified L (sh_attestation_state sh1) (hr_handshake_state rs)"
      "bindings_verified L (ch_attestation_state ch2) (hr_handshake_state rc)"
  shows "deliver_rounds 2 L ea eb (c, s) =
    Ok (opened c pc (ch_attestation_state ch2) rc, opened s ps (sh_attestation_state sh1) rs)"
proof -
  let ?c1 = "c\<lparr>step := StepHandshake ch2 ordered_channel_encryptor_provider pc\<rparr>"
  let ?sh1 = "sh1\<lparr>sh_handshake_response := None\<rparr>" and ?sh2 = "sh1\<lparr>sh_handshake_response := None, sh_noise_response := None, sh_handshake_result := Some rs\<rparr>"
  let ?s1 = "s\<lparr>step := StepHandshake ?sh1 ordered_channel_encryptor_provider ps\<rparr>"
  have "deliver_round L ea eb (c, s) = Ok (?c1, ?s1)"
    by (rule round_handshake [where b = True, OF steps req resp]) (simp_all add: sh ch)
  moreover have "deliver_round L ea eb (?c1, ?s1) =
      Ok (opened c pc (ch_attestation_state ch2) rc, opened s ps (sh_attestation_state sh1) rs)"
  proof (rule round_followup [where ch = ch2 and sh = ?sh1 and ?sh1.0 = ?sh2, OF _ _ ch(1,2)])
    show "server_handshake_put_incoming L ?sh1 f eb = (?sh2, Ok (Some ()))"
      by (simp add: server_handshake_put_incoming_def sh rs)
    show "client_next L ea (?c1\<lparr>step := StepHandshake (ch2\<lparr>ch_followup_message := None\<rparr>) ordered_channel_encryptor_provider pc\<rparr>) =
        (opened c pc (ch_attestation_state ch2) rc, Ok ())"
      using ch(3) bv(2) by (simp add: client_opens [where r = rc] opened_def)
    show "server_next L (?s1\<lparr>step := StepHandshake ?sh2 ordered_channel_encryptor_provider ps\<rparr>) =
        (opened s ps (sh_attestation_state sh1) rs, Ok ())"
      using bv(1) by (simp add: server_opens [where r = rs] opened_def)
  qed (simp_all add: ch)
  ultimately show ?thesis by (simp add: numeral_2_eq_2)
qed

lemma round_open:
  assumes "sessions_paired C c s"
  shows "deliver_round L ea eb (c, s) = Ok (c, s)"
  using assms
  by (auto simp: sessions_paired_def deliver_round_def transfer_def client_get_outgoing_message_def
      server_get_outgoing_message_def pop_outgoing_def)

lemma created_message:
  assumes "client_attestation_create config = Ok ah" "ah_attest_message ah = Some m"
  shows "btm_is_empty (endorsed_evidence m) \<longleftrightarrow> btm_is_empty (self_attesters config)"
    and "assertions m = own_assertions ah"
    and "btm_is_empty (assertions m) \<longleftrightarrow> btm_is_empty (ah_bindable_assertions ah)"
proof -
  show "btm_is_empty (endorsed_evidence m) \<longleftrightarrow> btm_is_empty (self_attesters config)"
    using assms by (auto simp: client_attestation_create_def result_simps btm_is_empty_def dest!: btm_try_map_keys)
  show "assertions m = own_assertions ah"
    using client_create_message(2) [OF assms(1)] assms(2) by auto
  then show "btm_is_empty (assertions m) \<longleftrightarrow> btm_is_empty (ah_bindable_assertions ah)"
    by (simp add: own_assertions_def btm_is_empty_def)
qed


subsection \<open>Honest runs\<close>

text \<open>What a handler makes of the message of a peer its configuration trusts.\<close>

lemma trusted_peer:
  assumes mj: "merge_join_correct L" and t: "trusts L config peer hs" "ah_attest_message peer = Some m"
    and ah: "ah_config ah = config" "ah_attestation_result ah = None"
  obtains l a where
    "client_attestation_put_incoming L ah m = (ah\<lparr>ah_attestation_binding_token :=
         ah_attestation_binding_token ah @ serialize_assertions L (assertions m),
       ah_attestation_result := Some (AttestationPassed l a)\<rparr>, Ok (Some ()))"
    "needs_session_bindings (AttestationPassed l a) \<longleftrightarrow> \<not> (btm_is_empty (endorsed_evidence m) \<and> btm_is_empty (assertions m))"
    "\<forall>ah'. ah_config ah' = config \<and> ah_attestation_result ah' = Some (AttestationPassed l a) \<longrightarrow>
       (\<exists>ast. client_take_attestation_state ah' = Ok ast \<and> peer_attestation_verdict ast = AttestationPassed l a \<and>
          self_assertions ast = ah_bindable_assertions ah' \<and> attestation_binding_token ast = ah_attestation_binding_token ah' \<and>
          accountable L ast peer hs)"
proof -
  obtain l a where
    put: "client_attestation_put_incoming L ah m = (ah\<lparr>ah_attestation_binding_token :=
         ah_attestation_binding_token ah @ serialize_assertions L (assertions m),
       ah_attestation_result := Some (AttestationPassed l a)\<rparr>, Ok (Some ()))"
    and l: "combine_attestation_results L (peer_verifiers config) (endorsed_evidence m) = Ok l"
    and a: "combine_assertion_results L (peer_assertion_verifiers config) (assertions m) = Ok a"
    and s2: "\<forall>k ee res pv. btm_get l k = Some (VerifierSuccess ee res) \<longrightarrow> btm_get (peer_verifiers config) k = Some pv \<longrightarrow>
       (\<exists>bv bnd. binding_verifier_provider pv res = Ok bv \<and> btm_get (hc_session_binders hs) k = Some bnd \<and>
         (\<forall>h. bv h (bnd h) = Ok ()))"
    and s3: "\<forall>k v. btm_get a k = Some (BoundSuccess v) \<longrightarrow>
       (\<exists>ba. btm_get (ah_bindable_assertions peer) k = Some ba \<and>
         (\<forall>d b. ba_bind ba d = Ok b \<longrightarrow> vba_verify_binding v d b = Ok ()))"
    by (rule put_trusted [OF t ah])
  let ?good = "\<lambda>k bv. \<exists>bnd. btm_get (hc_session_binders hs) k = Some bnd \<and> (\<forall>h. bv h (bnd h) = Ok ())"
  have "\<exists>ast. client_take_attestation_state ah' = Ok ast \<and> peer_attestation_verdict ast = AttestationPassed l a \<and>
          self_assertions ast = ah_bindable_assertions ah' \<and> attestation_binding_token ast = ah_attestation_binding_token ah' \<and>
          accountable L ast peer hs"
    if ah': "ah_config ah' = config" "ah_attestation_result ah' = Some (AttestationPassed l a)" for ah'
  proof -
    have "\<exists>bv. binding_verifier_provider pv res = Ok bv \<and> ?good k bv"
      if "btm_get l k = Some (VerifierSuccess ee res)" "btm_get (peer_verifiers config) k = Some pv" for k ee res pv
      using s2 that by blast
    then obtain bvs where st: "client_take_attestation_state ah' = Ok \<lparr>peer_attestation_verdict = AttestationPassed l a,
       self_assertions = ah_bindable_assertions ah', peer_session_binding_verifiers = bvs,
       attestation_binding_token = ah_attestation_binding_token ah'\<rparr>" (is "_ = Ok ?ast")
      "\<And>k bv. btm_get bvs k = Some bv \<Longrightarrow> ?good k bv"
      using take_trusted [OF mj ah' l, where good = ?good] by blast
    have "bindings_verified L ?ast \<lparr>handshake_binding_token = hash,
        peer_session_bindings = bind_session (hc_session_binders hs) hash, peer_assertion_bindings = abds\<rparr>"
      if "bind_assertions (ah_bindable_assertions peer)
        (create_session_binding_token L (attestation_binding_token ?ast) hash) = Ok abds" for hash abds
      using honest_bindings_verified [OF _ _ that] st(2) s3 by simp
    with st(1) show ?thesis by (fastforce simp: accountable_def)
  qed
  then show thesis using that [OF put needs_session_bindings_iff [OF mj l a]] by blast
qed


text \<open>The first round takes both sessions to the handshake, with equal attestation tokens.\<close>

lemma honest_attestation_round:
  assumes mj: "merge_join_correct L"
    and ca: "client_attestation_create cc = Ok ca" and sa: "server_attestation_create sc = Ok sa"
    and ts: "trusts L sc ca hc" and tc: "trusts L cc sa hs"
    and c: "step c = StepAttestation ca hc epc pc" and s: "step s = StepAttestation sa hs eps ps"
  obtains cast sast b where
    "\<forall>ch. client_handshake_create L hc cast ea = Ok ch \<longrightarrow> deliver_round L ea eb (c, s) =
       Ok (c\<lparr>step := StepHandshake ch epc pc\<rparr>, s\<lparr>step := StepHandshake (server_handshake_new hs b sast) eps ps\<rparr>)"
    "self_assertions cast = ah_bindable_assertions ca" "self_assertions sast = ah_bindable_assertions sa"
    "attestation_binding_token cast = attestation_binding_token sast"
    "b \<longleftrightarrow> \<not> (btm_is_empty (self_attesters cc) \<and> btm_is_empty (ah_bindable_assertions ca))"
    "accountable L sast ca hc"
    "accountable L cast sa hs"
proof -
  obtain cm where cm: "ah_attest_message ca = Some cm" "attest_encoded_len L cm < DEFAULT_MAX_ATTESTATION_SIZE"
    using ts by (auto simp: trusts_def)
  obtain sm where sm: "ah_attest_message sa = Some sm" "attest_encoded_len L sm < DEFAULT_MAX_ATTESTATION_SIZE"
    using tc by (auto simp: trusts_def)
  note sa = sa [unfolded server_attestation_eq]
  note cs = client_create_sound [OF ca] and ss = client_create_sound [OF sa]
  note cmsg = created_message [OF ca cm(1)] and smsg = created_message [OF sa sm(1)]
  obtain sl sas where put_s: "client_attestation_put_incoming L sa cm = (sa\<lparr>ah_attestation_binding_token :=
         ah_attestation_binding_token sa @ serialize_assertions L (assertions cm),
       ah_attestation_result := Some (AttestationPassed sl sas)\<rparr>, Ok (Some ()))" (is "_ = (?sa1, _)")
    and needs: "needs_session_bindings (AttestationPassed sl sas) \<longleftrightarrow>
       \<not> (btm_is_empty (endorsed_evidence cm) \<and> btm_is_empty (assertions cm))"
    and take_s: "\<forall>ah'. ah_config ah' = sc \<and> ah_attestation_result ah' = Some (AttestationPassed sl sas) \<longrightarrow>
       (\<exists>ast. client_take_attestation_state ah' = Ok ast \<and> peer_attestation_verdict ast = AttestationPassed sl sas \<and>
          self_assertions ast = ah_bindable_assertions ah' \<and> attestation_binding_token ast = ah_attestation_binding_token ah' \<and>
          accountable L ast ca hc)"
    by (rule trusted_peer [OF mj ts cm(1)]) (use ss in auto)
  let ?ca1 = "fst (client_attestation_get_outgoing L ca)" and ?sa2 = "fst (client_attestation_get_outgoing L ?sa1)"
  have ca1: "ah_config ?ca1 = cc" "ah_attestation_result ?ca1 = None" "ah_bindable_assertions ?ca1 = ah_bindable_assertions ca"
    using cs by (simp_all add: client_attestation_get_outgoing_def)
  obtain cl cas where put_c: "client_attestation_put_incoming L ?ca1 sm = (?ca1\<lparr>ah_attestation_binding_token :=
         ah_attestation_binding_token ?ca1 @ serialize_assertions L (assertions sm),
       ah_attestation_result := Some (AttestationPassed cl cas)\<rparr>, Ok (Some ()))" (is "_ = (?ca2, _)")
    and take_c: "\<forall>ah'. ah_config ah' = cc \<and> ah_attestation_result ah' = Some (AttestationPassed cl cas) \<longrightarrow>
       (\<exists>ast. client_take_attestation_state ah' = Ok ast \<and> peer_attestation_verdict ast = AttestationPassed cl cas \<and>
          self_assertions ast = ah_bindable_assertions ah' \<and> attestation_binding_token ast = ah_attestation_binding_token ah' \<and>
          accountable L ast sa hs)"
    by (rule trusted_peer [OF mj tc sm(1) ca1(1,2)])
  have "ah_config ?ca2 = cc" "ah_attestation_result ?ca2 = Some (AttestationPassed cl cas)" using ca1 by simp_all
  with take_c obtain cast where cast: "client_take_attestation_state ?ca2 = Ok cast"
    "peer_attestation_verdict cast = AttestationPassed cl cas" "self_assertions cast = ah_bindable_assertions ?ca2"
    "attestation_binding_token cast = ah_attestation_binding_token ?ca2"
    "accountable L cast sa hs" by blast
  have "ah_config ?sa2 = sc" "ah_attestation_result ?sa2 = Some (AttestationPassed sl sas)"
    using ss by (simp_all add: client_attestation_get_outgoing_def)
  with take_s obtain sast where sast: "client_take_attestation_state ?sa2 = Ok sast"
    "peer_attestation_verdict sast = AttestationPassed sl sas" "self_assertions sast = ah_bindable_assertions ?sa2"
    "attestation_binding_token sast = ah_attestation_binding_token ?sa2"
    "accountable L sast ca hc" by blast
  have "attestation_binding_token cast = attestation_binding_token sast"
    using client_create_message(1) [OF ca] client_create_message(1) [OF sa] cmsg(2) smsg(2)
    by (simp add: cast sast client_attestation_get_outgoing_def own_assertions_def)
  moreover have "\<forall>ch. client_handshake_create L hc cast ea = Ok ch \<longrightarrow> deliver_round L ea eb (c, s) =
      Ok (c\<lparr>step := StepHandshake ch epc pc\<rparr>,
        s\<lparr>step := StepHandshake (server_handshake_new hs (needs_session_bindings (AttestationPassed sl sas)) sast) eps ps\<rparr>)"
    using round_attest [OF c s cm put_s [folded server_attestation_eq] _ sm(2) sast(1) [folded server_attestation_eq] sast(2) put_c cast(1,2)] sm(1)
    by simp
  ultimately show thesis
    using that [OF _ _ _ _ _ sast(5) cast(5)] needs cmsg ca1(3) cast(3) sast(3) by (simp add: client_attestation_get_outgoing_def)
qed


lemma honest_run:
  assumes prim: "primitives_correct L" and mj: "merge_join_correct L"
    and rand: "key_scalar L ea" "key_scalar L eb"
    and keys: "handshake_keys_match L (config_handshake cc) (config_handshake sc)"
    and ca: "client_attestation_create (config_attestation cc) = Ok ca"
    and sa: "server_attestation_create (config_attestation sc) = Ok sa"
    and ts: "trusts L (config_attestation sc) ca (config_handshake cc)"
    and tc: "trusts L (config_attestation cc) sa (config_handshake sc)"
    and bas: "assertions_bindable (ah_bindable_assertions ca)" "assertions_bindable (ah_bindable_assertions sa)"
    and ep: "config_encryptor_provider cc = ordered_channel_encryptor_provider"
      "config_encryptor_provider sc = ordered_channel_encryptor_provider"
    and binders: "btm_is_empty (hc_session_binders (config_handshake cc)) \<longleftrightarrow> btm_is_empty (self_attesters (config_attestation cc))"
  obtains c0 s0 c s k1 k2 cast chs sast shs where "client_session_create cc = Ok c0" "server_session_create sc = Ok s0"
    "deliver_rounds 3 L ea eb (c0, s0) = Ok (c, s)" "sessions_paired L c s"
    "step c = StepOpen (OrderedChannelEncryptor (ordered_new k2 k1)) cast chs"
    "step s = StepOpen (OrderedChannelEncryptor (ordered_new k1 k2)) sast shs"
proof -
  let ?hc = "config_handshake cc" and ?hs = "config_handshake sc" and ?pc = "config_publisher cc" and ?ps = "config_publisher sc"
  let ?ep = ordered_channel_encryptor_provider
  define c0 :: client_session where "c0 = \<lparr>step = StepAttestation ca ?hc ?ep ?pc, outgoing = [], incoming = [], published = []\<rparr>"
  define s0 :: server_session where "s0 = \<lparr>step = StepAttestation sa ?hs ?ep ?ps, outgoing = [], incoming = [], published = []\<rparr>"
  have create: "client_session_create cc = Ok c0" "server_session_create sc = Ok s0"
    by (simp_all add: client_session_create_def server_session_create_def ca sa ep c0_def s0_def)
  have steps: "step c0 = StepAttestation ca ?hc ?ep ?pc" "step s0 = StepAttestation sa ?hs ?ep ?ps"
    by (simp_all add: c0_def s0_def)
  obtain cast sast b where r1: "\<forall>ch. client_handshake_create L ?hc cast ea = Ok ch \<longrightarrow> deliver_round L ea eb (c0, s0) =
       Ok (c0\<lparr>step := StepHandshake ch ?ep ?pc\<rparr>, s0\<lparr>step := StepHandshake (server_handshake_new ?hs b sast) ?ep ?ps\<rparr>)"
    and self: "self_assertions cast = ah_bindable_assertions ca" "self_assertions sast = ah_bindable_assertions sa"
    and tok: "attestation_binding_token cast = attestation_binding_token sast"
    and b: "b \<longleftrightarrow> \<not> (btm_is_empty (self_attesters (config_attestation cc)) \<and> btm_is_empty (ah_bindable_assertions ca))"
    and acc: "accountable L sast ca ?hc" "accountable L cast sa ?hs"
    by (rule honest_attestation_round [OF mj ca sa ts tc steps])
  have bas': "assertions_bindable (self_assertions cast)" "assertions_bindable (self_assertions sast)"
    using bas self by simp_all
  obtain ch req sh1 resp ch2 k1 k2 hash sabs cabs nr where hs:
    "client_handshake_create L ?hc cast ea = Ok ch" "ch_handshake_result ch = None" "ch_initial_message ch = Some req"
    "server_handshake_put_incoming L (server_handshake_new ?hs b sast) req eb = (sh1, Ok (Some ()))"
    "sh_attestation_state sh1 = sast" "sh_handshake_response sh1 = Some resp"
    and abs_s: "bind_assertions (self_assertions sast) (create_session_binding_token L (attestation_binding_token sast) hash) = Ok sabs"
    and abs_c: "bind_assertions (self_assertions cast) (create_session_binding_token L (attestation_binding_token cast) hash) = Ok cabs"
    and resp: "attestation_bindings resp = bind_session (hc_session_binders ?hs) hash" "assertion_bindings resp = sabs"
    and put: "client_handshake_put_incoming L (ch\<lparr>ch_initial_message := None\<rparr>) resp = (ch2, Ok (Some ()))"
    and ch2: "ch_attestation_state ch2 = cast" "ch_initial_message ch2 = None"
      "ch_handshake_result ch2 = Some \<lparr>hr_crypter = ordered_new k2 k1,
        hr_handshake_state = \<lparr>handshake_binding_token = hash, peer_session_bindings = attestation_bindings resp,
          peer_assertion_bindings = assertion_bindings resp\<rparr>\<rparr>"
      "ch_followup_message ch2 = (if btm_is_empty (hc_session_binders ?hc) \<and> btm_is_empty (self_assertions cast) then None
        else Some \<lparr>noise_handshake_message = None, attestation_bindings = bind_session (hc_session_binders ?hc) hash,
          assertion_bindings = cabs\<rparr>)"
    and nr: "response_crypter nr = ordered_new k1 k2" "response_hash nr = hash"
    and res: "if b then sh_noise_response sh1 = Some nr \<and> sh_handshake_result sh1 = None
     else sh_handshake_result sh1 = Some \<lparr>hr_crypter = ordered_new k1 k2,
       hr_handshake_state = \<lparr>handshake_binding_token = hash, peer_session_bindings = btm_empty,
         peer_assertion_bindings = btm_empty\<rparr>\<rparr>"
    by (rule honest_handshake [OF prim rand keys bas'])
  have cv: "bindings_verified L cast \<lparr>handshake_binding_token = hash, peer_session_bindings = attestation_bindings resp,
      peer_assertion_bindings = assertion_bindings resp\<rparr>" (is "bindings_verified L cast ?chs")
    using acc(2) abs_s self tok resp by (simp add: accountable_def)
  have sv: "bindings_verified L sast \<lparr>handshake_binding_token = hash,
      peer_session_bindings = bind_session (hc_session_binders ?hc) hash, peer_assertion_bindings = cabs\<rparr>"
    (is "bindings_verified L sast ?shs")
    using acc(1) abs_c self tok by (simp add: accountable_def)
  define rc where "rc = \<lparr>hr_crypter = ordered_new k2 k1, hr_handshake_state = ?chs\<rparr>"
  define rs where "rs = \<lparr>hr_crypter = ordered_new k1 k2, hr_handshake_state = ?shs\<rparr>"
  let ?c = "opened (c0\<lparr>step := StepHandshake ch ?ep ?pc\<rparr>) ?pc cast rc"
  let ?s = "opened (s0\<lparr>step := StepHandshake (server_handshake_new ?hs b sast) ?ep ?ps\<rparr>) ?ps sast rs"
  have paired: "sessions_paired L ?c ?s"
    using prim tok
    by (simp add: sessions_paired_def opened_def c0_def s0_def rc_def rs_def encryptors_paired_new primitives_correct_def)
  have "deliver_rounds 2 L ea eb (c0\<lparr>step := StepHandshake ch ?ep ?pc\<rparr>,
      s0\<lparr>step := StepHandshake (server_handshake_new ?hs b sast) ?ep ?ps\<rparr>) = Ok (?c, ?s)"
  proof (cases b)
    case True
    with handshake_with_followup [OF _ _ hs(3,2,4,6) put, where rc = rc and rs = rs] res ch2 cv sv nr b binders self hs(5)
    show ?thesis by (simp add: rc_def rs_def)
  next
    case False
    with b binders self have empty: "hc_session_binders ?hc = btm_empty" "self_assertions cast = btm_empty"
      by (auto simp: btm_is_empty_eq)
    with abs_c have "cabs = btm_empty" by (simp add: bind_nothing)
    with empty handshake_without_followup [OF _ _ hs(3,2,4,6) put, where rc = rc and rs = rs] False res ch2 cv sv hs(5)
    have "deliver_round L ea eb (c0\<lparr>step := StepHandshake ch ?ep ?pc\<rparr>,
        s0\<lparr>step := StepHandshake (server_handshake_new ?hs b sast) ?ep ?ps\<rparr>) = Ok (?c, ?s)"
      by (simp add: rc_def rs_def bind_nothing btm_is_empty_eq)
    then show ?thesis by (simp add: numeral_2_eq_2 round_open [OF paired])
  qed
  with r1 hs(1) have "deliver_rounds 3 L ea eb (c0, s0) = Ok (?c, ?s)" by (simp add: numeral_3_eq_3 numeral_2_eq_2)
  from that [OF create this paired] show thesis by (simp add: opened_def rc_def rs_def)
qed

subsection \<open>Rounds are steps\<close>

lemma transfer_Ok:
  assumes "transfer out put r = Ok (s', r')"
  shows "s' = fst out \<and> (r' = r \<or> (\<exists>m x. put r m = (r', x)))"
  using assms by (auto simp: transfer_def result_simps case_prod_unfold split: option.splits) (metis prod.collapse)

lemma deliver_round_steps:
  assumes "deliver_round L ea eb (c, s) = Ok (c', s')"
  shows "(client_step L)\<^sup>*\<^sup>* c c' \<and> (server_step L)\<^sup>*\<^sup>* s s'"
proof -
  from assms obtain c1 s1 where t1: "transfer (client_get_outgoing_message L c ea)
      (\<lambda>s m. server_put_incoming_message L s m eb) s = Ok (c1, s1)"
    and t2: "transfer (server_get_outgoing_message L s1) (\<lambda>c m. client_put_incoming_message L c m ea) c1 = Ok (s', c')"
    by (auto simp: deliver_round_def result_simps)
  have "client_step L c c1" using transfer_Ok [OF t1] by (metis client_gets prod.collapse)
  moreover have "(server_step L)\<^sup>*\<^sup>* s s1" using transfer_Ok [OF t1] by (auto intro: server_puts)
  moreover have "server_step L s1 s'" using transfer_Ok [OF t2] by (metis server_gets prod.collapse)
  moreover have "(client_step L)\<^sup>*\<^sup>* c1 c'" using transfer_Ok [OF t2] by (auto intro: client_puts)
  ultimately show ?thesis by (auto intro: converse_rtranclp_into_rtranclp rtranclp.rtrancl_into_rtrancl)
qed

lemma deliver_rounds_steps:
  "deliver_rounds n L ea eb (c, s) = Ok (c', s') \<Longrightarrow> (client_step L)\<^sup>*\<^sup>* c c' \<and> (server_step L)\<^sup>*\<^sup>* s s'"
proof (induction n arbitrary: c s)
  case (Suc n)
  then obtain c1 s1 where "deliver_round L ea eb (c, s) = Ok (c1, s1)" "deliver_rounds n L ea eb (c1, s1) = Ok (c', s')"
    by (auto simp: result_simps)
  with deliver_round_steps Suc.IH show ?case by (meson rtranclp_trans)
qed simp


subsection \<open>An example run\<close>

definition example_config :: session_config where
  "example_config =
     \<lparr>config_attestation_type = Bidirectional,
      config_attestation = example_handler_config,
      config_handshake = \<lparr>hc_handshake_type = NoiseNN, hc_self_static_private_key = None,
        hc_peer_static_public_key = None,
        hc_session_binders = btm_insert ''tee'' (signature_binder_bind (signature_binder_new (\<lambda>m. [7] @ m))) btm_empty\<rparr>,
      config_encryptor_provider = ordered_channel_encryptor_provider,
      config_publisher = True\<rparr>"

lemma example_trusts: "trusts example_lib example_handler_config example_handler (config_handshake example_config)"
proof -
  let ?l = "get_legacy_verification_results example_verdict" and ?a = "get_assertion_verification_results example_verdict"
  have "combine_attestation_results example_lib (peer_verifiers example_handler_config) (endorsed_evidence example_message) = Ok ?l"
    and "combine_assertion_results example_lib (peer_assertion_verifiers example_handler_config) (assertions example_message) = Ok ?a"
    and "legacy_attestation_results_aggregator example_handler_config ?l = Ok ()"
    and "process_assertion_results (assertion_attestation_aggregator example_handler_config) ?a = Ok ()"
    by (rule example_combined)+
  moreover have "\<exists>bv bnd. binding_verifier_provider pv res = Ok bv \<and>
      btm_get (hc_session_binders (config_handshake example_config)) k = Some bnd \<and> (\<forall>h. bv h (bnd h) = Ok ())"
    if "btm_get ?l k = Some (VerifierSuccess ee res)" "btm_get (peer_verifiers example_handler_config) k = Some pv" for k ee res pv
    using that
    by (auto simp: example_verdict_def example_handler_config_def example_config_def btm.get_insert btm.get_empty
        signature_binding_verifier_provider_def default_signing_key_extractor_def verifying_key_from_sec1_bytes_def
        signature_verify_binding_def verifying_key_verify_def signature_binder_bind_def signature_binder_new_def
        example_results_def split: if_splits)
  moreover have "\<exists>ba. btm_get (ah_bindable_assertions example_handler) k = Some ba \<and>
      (\<forall>d b. ba_bind ba d = Ok b \<longrightarrow> vba_verify_binding v d b = Ok ())"
    if "btm_get ?a k = Some (BoundSuccess v)" for k v
    using that
    by (auto simp: example_verdict_def example_handler_def example_verified_def example_bindable_def btm.get_insert btm.get_empty
        session_key_bind_def session_key_verify_binding_def split: if_splits)
  ultimately show ?thesis
    unfolding trusts_def by (fastforce simp: example_handler_def DEFAULT_MAX_ATTESTATION_SIZE_def)
qed

lemma example_bindable: "assertions_bindable (ah_bindable_assertions example_handler)"
  by (auto simp: assertions_bindable_def example_handler_def example_bindable_def btm.get_insert btm.get_empty
      session_key_bind_def split: if_splits)

lemma example_config_ready:
  "config_attestation example_config = example_handler_config"
  "config_encryptor_provider example_config = ordered_channel_encryptor_provider"
  "handshake_keys_match example_lib (config_handshake example_config) (config_handshake example_config)"
  "btm_is_empty (hc_session_binders (config_handshake example_config)) \<longleftrightarrow> btm_is_empty (self_attesters example_handler_config)"
  "key_scalar example_lib (replicate 32 n)"
  using example_key_scalar [of n]
  by (simp_all add: example_config_def example_handler_config_def handshake_keys_match_def btm_is_empty_def key_scalar_def)


subsection \<open>What an honest run establishes\<close>

text \<open>
  C4. Honest sessions open: if each side's configuration accepts what the other presents
  and the static keys of the Noise pattern belong together, then three rounds of unchanged
  messages open both sessions, for every pattern the crate implements and with or without
  bindings from the client. What either side encrypts the other can decrypt, and both export
  the same session binding token for every \<open>info\<close>.
\<close>

theorem honest_sessions_open:
  assumes "primitives_correct L" "merge_join_correct L" "key_scalar L ea" "key_scalar L eb"
    and "handshake_keys_match L (config_handshake cc) (config_handshake sc)"
    and "client_attestation_create (config_attestation cc) = Ok ca"
    and "server_attestation_create (config_attestation sc) = Ok sa"
    and "trusts L (config_attestation sc) ca (config_handshake cc)"
    and "trusts L (config_attestation cc) sa (config_handshake sc)"
    and "assertions_bindable (ah_bindable_assertions ca)" "assertions_bindable (ah_bindable_assertions sa)"
    and "config_encryptor_provider cc = ordered_channel_encryptor_provider"
    and "config_encryptor_provider sc = ordered_channel_encryptor_provider"
    and "btm_is_empty (hc_session_binders (config_handshake cc)) \<longleftrightarrow> btm_is_empty (self_attesters (config_attestation cc))"
  shows "\<exists>c0 s0 c s. client_session_create cc = Ok c0 \<and> server_session_create sc = Ok s0 \<and>
    deliver_rounds 3 L ea eb (c0, s0) = Ok (c, s) \<and> is_open c \<and> is_open s \<and> sessions_paired L c s \<and>
    (\<forall>info. \<exists>t. session_get_session_binding_token L c info = Ok t \<and> session_get_session_binding_token L s info = Ok t)"
proof -
  obtain c0 s0 c s where r: "client_session_create cc = Ok c0" "server_session_create sc = Ok s0"
    "deliver_rounds 3 L ea eb (c0, s0) = Ok (c, s)" "sessions_paired L c s"
    by (rule honest_run [OF assms])
  from r(4) have "is_open c" "is_open s"
    "\<exists>t. session_get_session_binding_token L c info = Ok t \<and> session_get_session_binding_token L s info = Ok t" for info
    by (auto simp: sessions_paired_def is_open_def session_get_session_binding_token_def step_get_session_binding_token_def)
  with r show ?thesis by blast
qed

theorem honest_sessions_open_witness:
  "\<exists>c0 s0 c s. client_session_create example_config = Ok c0 \<and> server_session_create example_config = Ok s0 \<and>
    deliver_rounds 3 example_lib (replicate 32 1) (replicate 32 2) (c0, s0) = Ok (c, s) \<and> is_open c \<and> is_open s"
  using honest_sessions_open [of example_lib "replicate 32 1" "replicate 32 2" example_config example_config
      example_handler example_handler] example_lib_correct example_config_ready example_create example_trusts example_bindable
  by (auto simp: server_attestation_eq)

text \<open>The example sessions, open, for the witnesses of other theorems.\<close>

lemma example_open:
  obtains c s k1 k2 cast chs where "client_reachable example_lib example_config c" "server_reachable example_lib example_config s"
    "sessions_paired example_lib c s" "step c = StepOpen (OrderedChannelEncryptor (ordered_new k1 k2)) cast chs"
proof -
  obtain c0 s0 c s k1 k2 cast chs where r: "client_session_create example_config = Ok c0" "server_session_create example_config = Ok s0"
    "deliver_rounds 3 example_lib (replicate 32 1) (replicate 32 2) (c0, s0) = Ok (c, s)" "sessions_paired example_lib c s"
    "step c = StepOpen (OrderedChannelEncryptor (ordered_new k2 k1)) cast chs"
    by (rule honest_run [of example_lib "replicate 32 1" "replicate 32 2" example_config example_config example_handler example_handler])
      (simp_all add: example_lib_correct example_config_ready example_create example_trusts example_bindable server_attestation_eq)
  with deliver_rounds_steps [OF r(3)] that show thesis
    by (auto simp: client_reachable_def server_reachable_def)
qed

end
