(* ===== verification/Session_Channel.thy ===== *)
theory Session_Channel
  imports Session_Run
begin

section \<open>Messages over an open session\<close>

text \<open>
  Models the methods that \<^verbatim>\<open>oak_session/src/channel.rs\<close> provides for the two sessions, and
  what they guarantee. A locale states what a two-way channel is: sending and receiving at
  one endpoint do not disturb each other. It is interpreted on the encryptors, and carries
  the theorem that a conversation between two open sessions is reliable and in order for
  every interleaving of its steps.
\<close>


subsection \<open>Two-way channels\<close>

text \<open>The receiver will get exactly these messages out of what is under way.\<close>

definition in_flight ::
  "('s \<Rightarrow> 'c \<Rightarrow> 's \<times> ('q, 'f) result) \<Rightarrow> ('s \<Rightarrow> 's \<Rightarrow> bool) \<Rightarrow> ('p \<Rightarrow> 'q) \<Rightarrow> 's \<Rightarrow> 's \<Rightarrow> 'c list \<Rightarrow> 'p list \<Rightarrow> bool" where
  "in_flight recv paired delivered s r cs ps \<longleftrightarrow>
     (\<exists>r'. run_all recv r cs = (r', Ok (map delivered ps)) \<and> paired s r')"

text \<open>
  An endpoint that sends and receives: what it sends does not disturb what it receives,
  and the other way round.
\<close>

locale duplex_channel = ordered_channel send recv paired delivered
  for send :: "'s \<Rightarrow> 'p \<Rightarrow> 's \<times> ('c, 'e) result"
    and recv :: "'s \<Rightarrow> 'c \<Rightarrow> 's \<times> ('q, 'f) result"
    and paired :: "'s \<Rightarrow> 's \<Rightarrow> bool"
    and delivered :: "'p \<Rightarrow> 'q" +
  assumes recv_keeps_paired: "paired s r \<Longrightarrow> recv s c = (s', x) \<Longrightarrow> paired s' r"
    and send_keeps_paired: "paired s r \<Longrightarrow> send r p = (r', y) \<Longrightarrow> paired s r'"
    and recv_after_send: "recv r c = (r1, Ok q) \<Longrightarrow> send r p = (r2, y) \<Longrightarrow>
      \<exists>r3. recv r2 c = (r3, Ok q) \<and> send r1 p = (r3, y)"
begin

lemma in_flight_empty: "in_flight recv paired delivered s r [] [] \<longleftrightarrow> paired s r"
  by (simp add: in_flight_def)

lemma in_flight_send:
  assumes "in_flight recv paired delivered s r cs ps" "send s p = (s', Ok c)"
  shows "in_flight recv paired delivered s' r (cs @ [c]) (ps @ [p])"
proof -
  from assms(1) obtain r' where r': "run_all recv r cs = (r', Ok (map delivered ps))" "paired s r'"
    by (auto simp: in_flight_def)
  from deliver [OF r'(2) assms(2)] obtain r'' where "recv r' c = (r'', Ok (delivered p))" "paired s' r''" by blast
  with run_all_snoc [OF r'(1)] show ?thesis by (fastforce simp: in_flight_def)
qed

lemma in_flight_recv:
  assumes "in_flight recv paired delivered s r (c # cs) ps"
  obtains p ps' r' where "ps = p # ps'" "recv r c = (r', Ok (delivered p))" "in_flight recv paired delivered s r' cs ps'"
  using assms by (cases ps) (auto simp: in_flight_def run_all_Cons_Ok simp del: run_all.simps(2))

lemma run_all_after_send:
  assumes "run_all recv r cs = (r1, Ok qs)" "send r p = (r2, y)"
  shows "\<exists>r3. run_all recv r2 cs = (r3, Ok qs) \<and> send r1 p = (r3, y)"
  using assms
proof (induction cs arbitrary: r r2 qs)
  case (Cons c cs)
  from Cons.prems(1) obtain r' q qs' where "recv r c = (r', Ok q)" "run_all recv r' cs = (r1, Ok qs')" "qs = q # qs'"
    by (auto simp: run_all_Cons_Ok simp del: run_all.simps(2))
  with recv_after_send [OF _ Cons.prems(2)] Cons.IH show ?case
    by (fastforce simp: run_all_Cons_Ok simp del: run_all.simps(2))
qed auto

lemma in_flight_receiver_sends:
  assumes "in_flight recv paired delivered s r cs ps" "send r p = (r', y)"
  shows "in_flight recv paired delivered s r' cs ps"
  using assms run_all_after_send send_keeps_paired unfolding in_flight_def by metis

lemma in_flight_sender_receives:
  assumes "in_flight recv paired delivered s r cs ps" "recv s c = (s', x)"
  shows "in_flight recv paired delivered s' r cs ps"
  using assms recv_keeps_paired unfolding in_flight_def by metis

end

lemma ordered_commute:
  assumes "ordered_decrypt C c ct = (c1, x)" "ordered_encrypt C c p = (c2, y)"
  shows "\<exists>c3. ordered_decrypt C c2 ct = (c3, x) \<and> ordered_encrypt C c1 p = (c3, y)"
  using assms by (auto simp: ordered_decrypt_def ordered_encrypt_def split: prod.splits)

lemma unordered_decrypt_write_frame:
  "unordered_decrypt C (c\<lparr>u_write_nonce := n\<rparr>) iv ct =
     ((fst (unordered_decrypt C c iv ct))\<lparr>u_write_nonce := n\<rparr>, snd (unordered_decrypt C c iv ct))"
  "u_write_nonce (fst (unordered_decrypt C c iv ct)) = u_write_nonce c"
  "u_write_key (fst (unordered_decrypt C c iv ct)) = u_write_key c"
  by (simp_all add: unordered_decrypt_def Let_def get_lowest_acceptable_read_nonce_def split: result.splits)

lemma unordered_commute:
  assumes "unordered_decrypt C c iv ct = (c1, x)" "unordered_encrypt C c p = (c2, y)"
  shows "\<exists>c3. unordered_decrypt C c2 iv ct = (c3, x) \<and> unordered_encrypt C c1 p = (c3, y)"
  using assms unordered_decrypt_write_frame(2,3) [of C c iv ct]
  by (auto simp: unordered_encrypt_def unordered_decrypt_write_frame(1) split: prod.splits)

interpretation encryptor_duplex: duplex_channel
  "encryptor_encrypt C" "encryptor_decrypt C" "encryptors_paired C" "\<lambda>pl. payload_from_message (p_message pl)" for C
proof unfold_locales
  fix s r s' x c assume "encryptors_paired C s r" "encryptor_decrypt C s c = (s', x)"
  then show "encryptors_paired C s' r"
    by (auto simp: encryptors_paired_def ordered_paired_def ordered_channel_decrypt_def ordered_decrypt_def split: prod.splits)
next
  fix s r r' y p assume "encryptors_paired C s r" "encryptor_encrypt C r p = (r', y)"
  then show "encryptors_paired C s r'"
    by (auto simp: encryptors_paired_def ordered_paired_def ordered_channel_encrypt_def ordered_encrypt_def split: prod.splits)
next
  fix r c r1 q p r2 y assume "encryptor_decrypt C r c = (r1, Ok q)" "encryptor_encrypt C r p = (r2, y)"
  then show "\<exists>r3. encryptor_decrypt C r2 c = (r3, Ok q) \<and> encryptor_encrypt C r1 p = (r3, y)"
    by (cases r) (auto simp: ordered_channel_encrypt_def ordered_channel_decrypt_def unordered_channel_encrypt_def
      unordered_channel_decrypt_def split: prod.splits option.splits if_splits
      dest: ordered_commute unordered_commute)
qed



subsection \<open>The channel methods of the two sessions\<close>

definition client_encrypt ::
  "'x session_lib_scheme \<Rightarrow> bytes \<Rightarrow> client_session \<Rightarrow> bytes \<Rightarrow> client_session \<times> (session_request, error) result" where
  "client_encrypt L rand = channel_encrypt is_open (client_write L) (\<lambda>s. client_get_outgoing_message L s rand)"

definition client_decrypt ::
  "'x session_lib_scheme \<Rightarrow> bytes \<Rightarrow> client_session \<Rightarrow> session_response \<Rightarrow> client_session \<times> (bytes, error) result" where
  "client_decrypt L rand = channel_decrypt is_open (\<lambda>s m. client_put_incoming_message L s m rand) (client_read L)"

definition server_encrypt ::
  "'x session_lib_scheme \<Rightarrow> server_session \<Rightarrow> bytes \<Rightarrow> server_session \<times> (session_response, error) result" where
  "server_encrypt L = channel_encrypt is_open (server_write L) (server_get_outgoing_message L)"

definition server_decrypt ::
  "'x session_lib_scheme \<Rightarrow> bytes \<Rightarrow> server_session \<Rightarrow> session_request \<Rightarrow> server_session \<times> (bytes, error) result" where
  "server_decrypt L rand = channel_decrypt is_open (\<lambda>s m. server_put_incoming_message L s m rand) (server_read L)"

text \<open>On an open session with empty queues they are the encryptor's methods.\<close>

lemma channel_encrypt_Ok_iff:
  assumes "step s = StepOpen e ast hs" "outgoing s = []"
    and get: "\<And>s'. step s' = StepOpen e' ast hs \<Longrightarrow> get s' = pop_outgoing s'"
    and e: "encryptor_encrypt C e (payload_from_plaintext (PlaintextMessage p)) = (e', r)"
  shows "channel_encrypt is_open (session_write C) get s p = (s', Ok m) \<longleftrightarrow>
    (\<exists>pl. r = Ok pl \<and> m = Some (Encrypted (encrypted_from_payload pl)) \<and> s' = s\<lparr>step := StepOpen e' ast hs\<rparr>)"
proof (cases r)
  case (Ok pl)
  have "s\<lparr>step := StepOpen e' ast hs, outgoing := []\<rparr> = s\<lparr>step := StepOpen e' ast hs\<rparr>"
    using assms(2) by (cases s) simp
  with Ok assms show ?thesis
    by (auto simp: channel_encrypt_def session_write_def is_open_def DEFAULT_MAX_MESSAGE_QUEUE_LEN_def pop_outgoing_def)
qed (use assms in \<open>auto simp: channel_encrypt_def session_write_def is_open_def DEFAULT_MAX_MESSAGE_QUEUE_LEN_def context_err_def\<close>)

lemma channel_decrypt_Ok_iff:
  assumes "step s = StepOpen e ast hs" "incoming s = []"
    and put: "put s (Some (Encrypted em)) = push_incoming s (Some (Encrypted em))"
    and e: "encryptor_decrypt C e (payload_from_encrypted em) = (e', r)"
  shows "channel_decrypt is_open put (session_read t C) s (Some (Encrypted em)) = (s', Ok p) \<longleftrightarrow>
    (\<exists>pl. r = Ok pl \<and> p = p_message pl \<and> s' = s\<lparr>step := StepOpen e' ast hs\<rparr>)"
proof -
  have s: "s\<lparr>step := StepOpen e' ast hs, incoming := []\<rparr> = s\<lparr>step := StepOpen e' ast hs\<rparr>"
    using assms(2) by (cases s) simp
  show ?thesis
    using assms s by (cases r) (auto simp: channel_decrypt_def session_read_def push_incoming_def is_open_def Let_def
      DEFAULT_MAX_MESSAGE_QUEUE_LEN_def plaintext_from_payload_def context_err_def)
qed



subsection \<open>A conversation\<close>

text \<open>Two sessions, what is under way between them, and what each side has sent and received.\<close>

record conversation =
  conv_client :: client_session
  conv_server :: server_session
  to_server :: "session_request list"
  to_client :: "session_response list"
  client_sent :: "bytes list"
  server_sent :: "bytes list"
  client_received :: "bytes list"
  server_received :: "bytes list"

inductive conversation_step :: "'x session_lib_scheme \<Rightarrow> conversation \<Rightarrow> conversation \<Rightarrow> bool" for L where
  client_sends: "client_encrypt L rand (conv_client n) p = (c, Ok m) \<Longrightarrow>
    conversation_step L n (n\<lparr>conv_client := c, to_server := to_server n @ [m], client_sent := client_sent n @ [p]\<rparr>)"
| server_sends: "server_encrypt L (conv_server n) p = (s, Ok m) \<Longrightarrow>
    conversation_step L n (n\<lparr>conv_server := s, to_client := to_client n @ [m], server_sent := server_sent n @ [p]\<rparr>)"
| server_receives: "to_server n = m # ms \<Longrightarrow> server_decrypt L rand (conv_server n) m = (s, Ok p) \<Longrightarrow>
    conversation_step L n (n\<lparr>conv_server := s, to_server := ms, server_received := server_received n @ [p]\<rparr>)"
| client_receives: "to_client n = m # ms \<Longrightarrow> client_decrypt L rand (conv_client n) m = (c, Ok p) \<Longrightarrow>
    conversation_step L n (n\<lparr>conv_client := c, to_client := ms, client_received := client_received n @ [p]\<rparr>)"

definition conversation_start :: "client_session \<Rightarrow> server_session \<Rightarrow> conversation" where
  "conversation_start c s =
     \<lparr>conv_client = c, conv_server = s, to_server = [], to_client = [], client_sent = [], server_sent = [],
      client_received = [], server_received = []\<rparr>"

abbreviation payloads_in_flight :: "'x crypto_scheme \<Rightarrow> encryptor \<Rightarrow> encryptor \<Rightarrow> payload list \<Rightarrow> payload list \<Rightarrow> bool" where
  "payloads_in_flight C \<equiv> in_flight (encryptor_decrypt C) (encryptors_paired C) (\<lambda>pl. payload_from_message (p_message pl))"

text \<open>
  One direction: the sender and the receiver are open, nothing waits in their queues, and
  what is under way decrypts to what was sent and not yet received.
\<close>

definition direction_ok ::
  "'x crypto_scheme \<Rightarrow> ('a, 'h) session \<Rightarrow> ('b, 'i) session \<Rightarrow> session_body option list \<Rightarrow> bytes list \<Rightarrow> bytes list \<Rightarrow> bool" where
  "direction_ok C s r ms sent got \<longleftrightarrow>
     (\<exists>e ast hs e' ast' hs' pls ps. step s = StepOpen e ast hs \<and> step r = StepOpen e' ast' hs' \<and>
        outgoing s = [] \<and> incoming r = [] \<and>
        ms = map (\<lambda>pl. Some (Encrypted (encrypted_from_payload pl))) pls \<and>
        payloads_in_flight C e e' pls (map (\<lambda>p. payload_from_plaintext (PlaintextMessage p)) ps) \<and>
        sent = got @ ps)"

definition conversation_ok :: "'x crypto_scheme \<Rightarrow> conversation \<Rightarrow> bool" where
  "conversation_ok C n \<longleftrightarrow>
     direction_ok C (conv_client n) (conv_server n) (to_server n) (client_sent n) (server_received n) \<and>
     direction_ok C (conv_server n) (conv_client n) (to_client n) (server_sent n) (client_received n)"

lemma conversation_start_ok: "sessions_paired C c s \<Longrightarrow> conversation_ok C (conversation_start c s)"
  by (auto simp: sessions_paired_def conversation_ok_def direction_ok_def conversation_start_def
      encryptor_duplex.in_flight_empty)


lemma direction_send:
  assumes "direction_ok C s r ms sent got" "step s = StepOpen e ast hs"
    and "encryptor_encrypt C e (payload_from_plaintext (PlaintextMessage p)) = (e', Ok pl)"
  shows "direction_ok C (s\<lparr>step := StepOpen e' ast hs\<rparr>) r (ms @ [Some (Encrypted (encrypted_from_payload pl))]) (sent @ [p]) got"
proof -
  from assms(1,2) obtain er ast' hs' pls ps where "step r = StepOpen er ast' hs'" "outgoing s = []" "incoming r = []"
    and ms: "ms = map (\<lambda>pl. Some (Encrypted (encrypted_from_payload pl))) pls"
    and fl: "payloads_in_flight C e er pls (map (\<lambda>p. payload_from_plaintext (PlaintextMessage p)) ps)"
    and "sent = got @ ps"
    by (auto simp: direction_ok_def)
  moreover from encryptor_duplex.in_flight_send [OF fl assms(3)]
  have "payloads_in_flight C e' er (pls @ [pl]) (map (\<lambda>p. payload_from_plaintext (PlaintextMessage p)) (ps @ [p]))"
    by simp
  ultimately show ?thesis
    unfolding direction_ok_def by (intro exI [of _ "pls @ [pl]"] exI [of _ "ps @ [p]"] exI conjI) auto
qed

lemma direction_receive:
  assumes "direction_ok C s r (m # ms) sent got"
  obtains e ast hs em e' pl where "step r = StepOpen e ast hs" "incoming r = []" "m = Some (Encrypted em)"
    "encryptor_decrypt C e (payload_from_encrypted em) = (e', Ok pl)"
    "length got < length sent" "p_message pl = sent ! length got"
    "direction_ok C s (r\<lparr>step := StepOpen e' ast hs\<rparr>) ms sent (got @ [p_message pl])"
proof -
  from assms obtain es ast' hs' e ast hs pl pls ps where d: "step s = StepOpen es ast' hs'" "step r = StepOpen e ast hs"
      "outgoing s = []" "incoming r = []"
    and m: "m = Some (Encrypted (encrypted_from_payload pl))"
    and ms: "ms = map (\<lambda>pl. Some (Encrypted (encrypted_from_payload pl))) pls"
    and fl: "payloads_in_flight C es e (pl # pls) (map (\<lambda>p. payload_from_plaintext (PlaintextMessage p)) ps)"
    and sent: "sent = got @ ps"
    by (auto simp: direction_ok_def Cons_eq_map_conv)
  obtain q qs e' where q: "map (\<lambda>p. payload_from_plaintext (PlaintextMessage p)) ps = q # qs"
    "encryptor_decrypt C e pl = (e', Ok (payload_from_message (p_message q)))" "payloads_in_flight C es e' pls qs"
    by (rule encryptor_duplex.in_flight_recv [OF fl])
  from q(1) obtain p ps' where ps: "ps = p # ps'" "q = payload_from_plaintext (PlaintextMessage p)"
    "qs = map (\<lambda>p. payload_from_plaintext (PlaintextMessage p)) ps'" by (cases ps) auto
  have "direction_ok C s (r\<lparr>step := StepOpen e' ast hs\<rparr>) ms sent (got @ [p])"
    unfolding direction_ok_def using d ms q(3) ps sent by (intro exI [of _ pls] exI [of _ ps'] exI conjI) auto
  with that [OF d(2,4) m] q(2) ps sent show thesis
    by (auto simp: payload_from_message_def payload_from_plaintext_def)
qed

lemma direction_receiver_sends:
  assumes "direction_ok C s r ms sent got" "step r = StepOpen e ast hs" "encryptor_encrypt C e p = (e', x)"
  shows "direction_ok C s (r\<lparr>step := StepOpen e' ast hs\<rparr>) ms sent got"
  using assms encryptor_duplex.in_flight_receiver_sends [OF _ assms(3)] unfolding direction_ok_def by fastforce

lemma direction_sender_receives:
  assumes "direction_ok C s r ms sent got" "step s = StepOpen e ast hs" "encryptor_decrypt C e m = (e', x)"
  shows "direction_ok C (s\<lparr>step := StepOpen e' ast hs\<rparr>) r ms sent got"
  using assms encryptor_duplex.in_flight_sender_receives [OF _ assms(3)] unfolding direction_ok_def by fastforce

text \<open>The methods of the two sessions.\<close>

lemma client_encrypt_Ok:
  assumes "step c = StepOpen e ast hs" "outgoing c = []" "client_encrypt L rand c p = (c', Ok m)"
  obtains e' pl where "encryptor_encrypt L e (payload_from_plaintext (PlaintextMessage p)) = (e', Ok pl)"
    "m = Some (Encrypted (encrypted_from_payload pl))" "c' = c\<lparr>step := StepOpen e' ast hs\<rparr>"
proof -
  obtain e' r where e: "encryptor_encrypt L e (payload_from_plaintext (PlaintextMessage p)) = (e', r)" by fastforce
  from channel_encrypt_Ok_iff [OF assms(1,2) _ e, of "\<lambda>s. client_get_outgoing_message L s rand" c' m] assms(3) e that
  show thesis by (auto simp: client_encrypt_def client_write_def client_get_outgoing_message_def)
qed

lemma server_encrypt_Ok:
  assumes "step s = StepOpen e ast hs" "outgoing s = []" "server_encrypt L s p = (s', Ok m)"
  obtains e' pl where "encryptor_encrypt L e (payload_from_plaintext (PlaintextMessage p)) = (e', Ok pl)"
    "m = Some (Encrypted (encrypted_from_payload pl))" "s' = s\<lparr>step := StepOpen e' ast hs\<rparr>"
proof -
  obtain e' r where e: "encryptor_encrypt L e (payload_from_plaintext (PlaintextMessage p)) = (e', r)" by fastforce
  from channel_encrypt_Ok_iff [OF assms(1,2) _ e, of "server_get_outgoing_message L" s' m] assms(3) e that
  show thesis by (auto simp: server_encrypt_def server_write_def server_get_outgoing_message_def)
qed

lemma client_decrypt_eq:
  assumes "step c = StepOpen e ast hs" "incoming c = []" "encryptor_decrypt L e (payload_from_encrypted em) = (e', Ok pl)"
  shows "client_decrypt L rand c (Some (Encrypted em)) = (c\<lparr>step := StepOpen e' ast hs\<rparr>, Ok (p_message pl))"
  using channel_decrypt_Ok_iff [OF assms(1,2) _ assms(3), of "\<lambda>s m. client_put_incoming_message L s m rand"] assms(1)
  by (simp add: client_decrypt_def client_read_def client_put_incoming_message_def)

lemma server_decrypt_eq:
  assumes "step s = StepOpen e ast hs" "incoming s = []" "encryptor_decrypt L e (payload_from_encrypted em) = (e', Ok pl)"
  shows "server_decrypt L rand s (Some (Encrypted em)) = (s\<lparr>step := StepOpen e' ast hs\<rparr>, Ok (p_message pl))"
  using channel_decrypt_Ok_iff [OF assms(1,2) _ assms(3), of "\<lambda>s m. server_put_incoming_message L s m rand"] assms(1)
  by (simp add: server_decrypt_def server_read_def server_put_incoming_message_def)


lemma direction_endpoints:
  assumes "direction_ok C s r ms sent got"
  obtains e ast hs e' ast' hs' where "step s = StepOpen e ast hs" "outgoing s = []" "step r = StepOpen e' ast' hs'" "incoming r = []"
  using assms by (auto simp: direction_ok_def)

lemma conversation_step_ok:
  assumes "conversation_ok L n" "conversation_step L n n'"
  shows "conversation_ok L n'"
proof -
  from assms(1) have up: "direction_ok L (conv_client n) (conv_server n) (to_server n) (client_sent n) (server_received n)"
    and down: "direction_ok L (conv_server n) (conv_client n) (to_client n) (server_sent n) (client_received n)"
    by (simp_all add: conversation_ok_def)
  obtain e ast hs e' ast' hs' where c: "step (conv_client n) = StepOpen e ast hs" "outgoing (conv_client n) = []"
    and s: "step (conv_server n) = StepOpen e' ast' hs'"
    by (rule direction_endpoints [OF up])
  obtain s_out: "outgoing (conv_server n) = []" by (rule direction_endpoints [OF down])
  from assms(2) show ?thesis
  proof (cases rule: conversation_step.cases)
    case (client_sends rand p c' m)
    obtain e1 pl where "encryptor_encrypt L e (payload_from_plaintext (PlaintextMessage p)) = (e1, Ok pl)"
      "m = Some (Encrypted (encrypted_from_payload pl))" "c' = conv_client n\<lparr>step := StepOpen e1 ast hs\<rparr>"
      by (rule client_encrypt_Ok [OF c client_sends(2)])
    with client_sends(1) direction_send [OF up c(1)] direction_receiver_sends [OF down c(1)] show ?thesis
      by (auto simp: conversation_ok_def)
  next
    case (server_sends p s' m)
    obtain e1 pl where "encryptor_encrypt L e' (payload_from_plaintext (PlaintextMessage p)) = (e1, Ok pl)"
      "m = Some (Encrypted (encrypted_from_payload pl))" "s' = conv_server n\<lparr>step := StepOpen e1 ast' hs'\<rparr>"
      by (rule server_encrypt_Ok [OF s s_out server_sends(2)])
    with server_sends(1) direction_send [OF down s] direction_receiver_sends [OF up s] show ?thesis
      by (auto simp: conversation_ok_def)
  next
    case (server_receives m ms rand s' p)
    obtain e0 ast0 hs0 em e1 pl where r: "step (conv_server n) = StepOpen e0 ast0 hs0" "incoming (conv_server n) = []"
      "m = Some (Encrypted em)" "encryptor_decrypt L e0 (payload_from_encrypted em) = (e1, Ok pl)"
      and d: "direction_ok L (conv_client n) (conv_server n\<lparr>step := StepOpen e1 ast0 hs0\<rparr>) ms (client_sent n)
        (server_received n @ [p_message pl])"
      by (rule direction_receive [OF up [unfolded server_receives(2)]])
    from server_receives(3) r(3) server_decrypt_eq [OF r(1,2,4)]
    have "s' = conv_server n\<lparr>step := StepOpen e1 ast0 hs0\<rparr>" "p = p_message pl" by auto
    with server_receives(1) d direction_sender_receives [OF down r(1,4)] show ?thesis by (simp add: conversation_ok_def)
  next
    case (client_receives m ms rand c' p)
    obtain e0 ast0 hs0 em e1 pl where r: "step (conv_client n) = StepOpen e0 ast0 hs0" "incoming (conv_client n) = []"
      "m = Some (Encrypted em)" "encryptor_decrypt L e0 (payload_from_encrypted em) = (e1, Ok pl)"
      and d: "direction_ok L (conv_server n) (conv_client n\<lparr>step := StepOpen e1 ast0 hs0\<rparr>) ms (server_sent n)
        (client_received n @ [p_message pl])"
      by (rule direction_receive [OF down [unfolded client_receives(2)]])
    from client_receives(3) r(3) client_decrypt_eq [OF r(1,2,4)]
    have "c' = conv_client n\<lparr>step := StepOpen e1 ast0 hs0\<rparr>" "p = p_message pl" by auto
    with client_receives(1) d direction_sender_receives [OF up r(1,4)] show ?thesis by (simp add: conversation_ok_def)
  qed
qed

lemma conversation_reachable_ok:
  assumes "sessions_paired L c s" "(conversation_step L)\<^sup>*\<^sup>* (conversation_start c s) n"
  shows "conversation_ok L n"
  using assms(2)
  by (induction rule: rtranclp_induct) (auto intro: conversation_start_ok [OF assms(1)] conversation_step_ok)

lemma direction_pending:
  assumes "direction_ok C s r ms sent got"
  shows "\<exists>pending. sent = got @ pending \<and> length pending = length ms"
  using assms run_all_length unfolding direction_ok_def in_flight_def by fastforce


subsection \<open>What an open channel guarantees\<close>

text \<open>
  C5. A conversation over paired sessions is reliable and in order, in both directions and
  for every interleaving: whatever the two sides send, also while messages are under way,
  each side has received a prefix of what the other sent, the rest is exactly what is under
  way, and the next message under way decrypts to the next one sent.
\<close>

theorem conversation_in_order:
  assumes "sessions_paired L c s" "(conversation_step L)\<^sup>*\<^sup>* (conversation_start c s) n"
  shows "(\<exists>pending. client_sent n = server_received n @ pending \<and> length pending = length (to_server n)) \<and>
    (\<exists>pending. server_sent n = client_received n @ pending \<and> length pending = length (to_client n)) \<and>
    (\<forall>m ms rand. to_server n = m # ms \<longrightarrow>
       (\<exists>s'. server_decrypt L rand (conv_server n) m = (s', Ok (client_sent n ! length (server_received n))))) \<and>
    (\<forall>m ms rand. to_client n = m # ms \<longrightarrow>
       (\<exists>c'. client_decrypt L rand (conv_client n) m = (c', Ok (server_sent n ! length (client_received n)))))"
proof -
  from conversation_reachable_ok [OF assms]
  have up: "direction_ok L (conv_client n) (conv_server n) (to_server n) (client_sent n) (server_received n)"
    and down: "direction_ok L (conv_server n) (conv_client n) (to_client n) (server_sent n) (client_received n)"
    by (simp_all add: conversation_ok_def)
  have "\<exists>s'. server_decrypt L rand (conv_server n) m = (s', Ok (client_sent n ! length (server_received n)))"
    if "to_server n = m # ms" for m ms rand
    using up [unfolded that] by (rule direction_receive) (auto simp: server_decrypt_eq)
  moreover have "\<exists>c'. client_decrypt L rand (conv_client n) m = (c', Ok (server_sent n ! length (client_received n)))"
    if "to_client n = m # ms" for m ms rand
    using down [unfolded that] by (rule direction_receive) (auto simp: client_decrypt_eq)
  ultimately show ?thesis using direction_pending [OF up] direction_pending [OF down] by blast
qed


lemma ordered_encryptor_total:
  assumes "aead_total C" "length p \<le> 2 ^ 28" "unat (nonce (write_nonce cr)) \<le> 2 ^ 24"
  shows "\<exists>cr' ct. encryptor_encrypt C (OrderedChannelEncryptor cr) (payload_from_plaintext (PlaintextMessage p)) =
    (OrderedChannelEncryptor cr', Ok (payload_from_message ct))"
proof -
  obtain cr' ct where "ordered_encrypt C cr p = (cr', Ok ct)"
    using ordered_run_total [of C "[p]" cr] assms by (fastforce simp: run_all_Cons_Ok simp del: run_all.simps(2))
  then show ?thesis by (auto simp: ordered_channel_encrypt_def payload_from_plaintext_def)
qed

lemma client_encrypt_total:
  assumes "aead_total L" "step c = StepOpen (OrderedChannelEncryptor cr) ast hs" "outgoing c = []"
    and "length p \<le> 2 ^ 28" "unat (nonce (write_nonce cr)) \<le> 2 ^ 24"
  shows "\<exists>c' m. client_encrypt L rand c p = (c', Ok m)"
proof -
  obtain cr' ct where e: "encryptor_encrypt L (OrderedChannelEncryptor cr) (payload_from_plaintext (PlaintextMessage p)) =
    (OrderedChannelEncryptor cr', Ok (payload_from_message ct))"
    using ordered_encryptor_total [OF assms(1,4,5)] by blast
  from channel_encrypt_Ok_iff [OF assms(2,3) _ e, of "\<lambda>s. client_get_outgoing_message L s rand"]
  show ?thesis by (auto simp: client_encrypt_def client_write_def client_get_outgoing_message_def)
qed

theorem conversation_in_order_witness:
  "\<exists>c s n m s'. sessions_paired example_lib c s \<and>
     (conversation_step example_lib)\<^sup>*\<^sup>* (conversation_start c s) n \<and> to_server n = [m] \<and>
     server_decrypt example_lib [] (conv_server n) m = (s', Ok [42])"
proof -
  obtain c :: client_session and s :: server_session and k1 k2 cast chs where p: "sessions_paired example_lib c s"
    and c: "step c = StepOpen (OrderedChannelEncryptor (ordered_new k1 k2)) cast chs"
    by (rule example_open)
  have "outgoing c = []" using p by (auto simp: sessions_paired_def)
  moreover have "aead_total example_lib" using example_lib_correct(1) by (simp add: primitives_correct_def)
  ultimately obtain c' m where m: "client_encrypt example_lib [] c [42] = (c', Ok m)"
    using client_encrypt_total [OF _ c] by (fastforce simp: ordered_new_def)
  let ?n = "(conversation_start c s)\<lparr>conv_client := c', to_server := [m], client_sent := [[42]]\<rparr>"
  have "conversation_step example_lib (conversation_start c s) ?n"
    using client_sends [of example_lib "[]" "conversation_start c s" "[42]" c' m] m by (simp add: conversation_start_def)
  then have n: "(conversation_step example_lib)\<^sup>*\<^sup>* (conversation_start c s) ?n" by blast
  with conversation_in_order [OF p n] p show ?thesis by (fastforce simp: conversation_start_def)
qed


subsection \<open>Opening a session with the initializer methods\<close>

text \<open>
  C32. The server loop documented with \<open>SessionInitializer\<close> does not survive a client that
  sends bindings: once the client's follow-up message is handled the session is still not
  open, so the loop asks for the next message; that call opens the session and fails with
  ``unexpected empty first init message''.
\<close>

theorem server_initializer_fails_on_followup:
  assumes "step s = StepHandshake hh ordered_channel_encryptor_provider pub"
    and "sh_handshake_result hh = None" "sh_noise_response hh = Some nr" "sh_handshake_response hh = None"
    and "bindings_verified L (sh_attestation_state hh) \<lparr>handshake_binding_token = response_hash nr,
      peer_session_bindings = attestation_bindings f, peer_assertion_bindings = assertion_bindings f\<rparr>"
  shows "\<exists>s1 s2. handle_init_message is_open (\<lambda>s m. server_put_incoming_message L s m rand) s (Some (Handshake f)) = (s1, Ok ()) \<and>
    \<not> is_open s1 \<and> is_open s2 \<and>
    next_init_message is_open (server_get_outgoing_message L) s1 = (s2, bail ''unexpected empty first init message'')"
proof -
  let ?r = "\<lparr>hr_crypter = response_crypter nr, hr_handshake_state = \<lparr>handshake_binding_token = response_hash nr,
    peer_session_bindings = attestation_bindings f, peer_assertion_bindings = assertion_bindings f\<rparr>\<rparr>"
  let ?hh = "hh\<lparr>sh_noise_response := None, sh_handshake_result := Some ?r\<rparr>"
  let ?s1 = "s\<lparr>step := StepHandshake ?hh ordered_channel_encryptor_provider pub\<rparr>"
  have "handle_init_message is_open (\<lambda>s m. server_put_incoming_message L s m rand) s (Some (Handshake f)) = (?s1, Ok ())"
    using assms(1-3) by (simp add: handle_init_message_def is_open_def server_put_incoming_message_def server_handshake_put_incoming_def)
  moreover have hh: "?hh\<lparr>sh_handshake_response := None\<rparr> = ?hh" using assms(4) by (cases hh) simp
  have "next_init_message is_open (server_get_outgoing_message L) ?s1 =
      (opened ?s1 pub (sh_attestation_state hh) ?r, bail ''unexpected empty first init message'')"
    using server_opens [of ?s1 ?hh pub ?r L] assms(4,5)
    by (simp add: hh [simplified] next_init_message_def is_open_def server_get_outgoing_message_def server_handshake_get_outgoing_def
        server_is_handshake_complete_def opened_def bail_def)
  ultimately show ?thesis by (fastforce simp: is_open_def opened_def)
qed


text \<open>A server that has answered the client's first message and waits for its bindings.\<close>

definition example_response :: noise_response where
  "example_response = \<lparr>response_crypter = ordered_new [1] [2], response_hash = [3],
     response_message = \<lparr>ephemeral_public_key = [], noise_ciphertext = []\<rparr>\<rparr>"

definition example_waiting_handler :: server_handshake_handler where
  "example_waiting_handler =
     \<lparr>sh_handshake_type = NoiseNN, sh_self_identity_key = None, sh_peer_public_key = None,
      sh_session_binders = btm_empty, sh_client_binding_expected = True,
      sh_attestation_state = \<lparr>peer_attestation_verdict = example_verdict, self_assertions = btm_empty,
        peer_session_binding_verifiers = btm_insert ''tee'' (\<lambda>tok b. if b = 7 # tok then Ok () else bail ''signature error'') btm_empty,
        attestation_binding_token = []\<rparr>,
      sh_noise_response = Some example_response,
      sh_handshake_response = None, sh_handshake_result = None\<rparr>"

definition example_waiting :: server_session where
  "example_waiting =
     \<lparr>step = StepHandshake example_waiting_handler ordered_channel_encryptor_provider False,
      outgoing = [], incoming = [], published = []\<rparr>"

definition example_followup :: handshake_request where
  "example_followup =
     \<lparr>noise_handshake_message = None, attestation_bindings = btm_insert ''tee'' (SessionBinding [7, 3]) btm_empty,
      assertion_bindings = btm_insert ''key''
        (SessionBinding (9 # create_session_binding_token example_lib [] [3])) btm_empty\<rparr>"

theorem server_initializer_fails_on_followup_witness:
  "\<exists>s1 s2. handle_init_message is_open (\<lambda>s m. server_put_incoming_message example_lib s m []) example_waiting
      (Some (Handshake example_followup)) = (s1, Ok ()) \<and>
    \<not> is_open s1 \<and> is_open s2 \<and>
    next_init_message is_open (server_get_outgoing_message example_lib) s1 = (s2, bail ''unexpected empty first init message'')"
  by (rule server_initializer_fails_on_followup [where hh = example_waiting_handler and nr = example_response and pub = False])
    (simp_all add: example_waiting_def example_waiting_handler_def example_response_def bindings_verified_def
      example_followup_def example_verdict_def example_verified_def btm.get_insert btm.get_empty session_key_verify_binding_def)

end
