(* ===== verification/Channel_Frames.thy ===== *)
theory Channel_Frames
  imports Oak_Prelude
begin

unbundle bit_operations_syntax

section \<open>The channel between the host and the enclave\<close>

text \<open>
  Models \<^verbatim>\<open>oak_channel/src/{lib,frame,message,client,server,basic_framed}.rs\<close>: messages are
  split into frames and written to a transport, and read back from it. The transport is what
  the traits \<open>Read\<close> and \<open>Write\<close> promise: bytes that arrive, bytes that were written, how
  many more can be written before it fails, how many were flushed, and whether flushing still
  works. Timers, which only measure, are left out. The
  theorems show that what one side writes the other reads, in order; which frames make the
  reader panic; and that the simple format used at start-up delivers its payload.
\<close>

type_synonym channel_error = "unit anyhow"

record channel_io =
  io_in :: bytes
  io_out :: bytes
  io_room :: nat
  io_flushed :: nat
  io_up :: bool

text \<open>\<open>Read::read_exact\<close>: at the end of the input the call fails, with the rest consumed.\<close>

definition read_exact :: "channel_io \<Rightarrow> nat \<Rightarrow> channel_io \<times> (bytes, channel_error) result" where
  "read_exact io n =
     (if n \<le> length (io_in io) then (io\<lparr>io_in := drop n (io_in io)\<rparr>, Ok (take n (io_in io)))
      else (io\<lparr>io_in := []\<rparr>, bail ''failed to fill whole buffer''))"

definition write_all :: "channel_io \<Rightarrow> bytes \<Rightarrow> channel_io \<times> (unit, channel_error) result" where
  "write_all io bs =
     (if length bs \<le> io_room io
      then (io\<lparr>io_out := io_out io @ bs, io_room := io_room io - length bs\<rparr>, Ok ())
      else (io\<lparr>io_out := io_out io @ take (io_room io) bs, io_room := 0\<rparr>, bail ''failed to write whole buffer''))"

definition flush :: "channel_io \<Rightarrow> channel_io \<times> (unit, channel_error) result" where
  "flush io = (if io_up io then (io\<lparr>io_flushed := length (io_out io)\<rparr>, Ok ()) else (io, bail ''flush failed''))"

text \<open>
  What the frame layer uses of the crates bytes and bitflags: zero bytes appended to a
  growing buffer, and the operations on a set of flags.
\<close>

record channel_lib =
  put_bytes :: "bytes \<Rightarrow> nat \<Rightarrow> bytes"
    \<comment> \<open>\<open>BytesMut::put_bytes(0x00, n)\<close>\<close>
  from_bits_truncate :: "u16 \<Rightarrow> u16"
  flags_contains :: "u16 \<Rightarrow> u16 \<Rightarrow> bool"
  flags_set :: "u16 \<Rightarrow> u16 \<Rightarrow> bool \<Rightarrow> u16"

definition channel_lib_correct :: "'x channel_lib_scheme \<Rightarrow> bool" where
  "channel_lib_correct L \<longleftrightarrow>
     (\<forall>b n. put_bytes L b n = b @ replicate n 0) \<and>
     (\<forall>f. from_bits_truncate L f = f AND 3) \<and>
     (\<forall>f g. flags_contains L f g \<longleftrightarrow> f AND g = g) \<and>
     (\<forall>f g b. flags_set L f g b = (if b then f OR g else f AND NOT g))"

definition example_channel_lib :: channel_lib where
  "example_channel_lib =
     \<lparr>put_bytes = (\<lambda>b n. b @ replicate n 0), from_bits_truncate = (\<lambda>f. f AND 3),
      flags_contains = (\<lambda>f g. f AND g = g), flags_set = (\<lambda>f g b. if b then f OR g else f AND NOT g)\<rparr>"

lemma example_channel_lib_correct: "channel_lib_correct example_channel_lib"
  by (simp add: channel_lib_correct_def example_channel_lib_def)


subsection \<open>Frames\<close>

definition PADDING_SIZE :: nat where "PADDING_SIZE = 4"
definition FRAME_LENGTH_SIZE :: nat where "FRAME_LENGTH_SIZE = 2"
definition FLAGS_SIZE :: nat where "FLAGS_SIZE = 2"
definition FRAME_BODY_OFFSET :: nat where "FRAME_BODY_OFFSET = 8"
definition PADDING :: bytes where "PADDING = replicate PADDING_SIZE 0"
definition MAX_SIZE :: nat where "MAX_SIZE = 4000"
definition MAX_BODY_SIZE :: nat where "MAX_BODY_SIZE = MAX_SIZE - FRAME_BODY_OFFSET"

definition START :: u16 where "START = 1"
definition END :: u16 where "END = 2"

record frame =
  frame_flags :: u16
  frame_body :: bytes

definition frame_write :: "channel_io \<Rightarrow> frame \<Rightarrow> channel_io \<times> (unit, channel_error) result" where
  "frame_write io f =
     (let len = FRAME_BODY_OFFSET + length (frame_body f) in
      if \<not> len < 2 ^ 64 then (io, Panic)
      else if \<not> len < 2 ^ 16 then (io, bail ''could convert the frame length usize to \"u16\"'')
      else
        bind_st (write_all io PADDING) (\<lambda>io _.
        bind_st (write_all io (to_le_bytes (of_nat len :: u16))) (\<lambda>io _.
        bind_st (write_all io (to_le_bytes (frame_flags f))) (\<lambda>io _.
        write_all io (frame_body f)))))"

text \<open>
  The buffer of the message grows by the body of the frame; a step that only reads from the
  transport keeps it.
\<close>

definition keep_buf :: "bytes \<Rightarrow> channel_io \<times> 'r \<Rightarrow> (channel_io \<times> bytes) \<times> 'r" where
  "keep_buf buf p = ((fst p, buf), snd p)"

definition read_frame ::
  "'x channel_lib_scheme \<Rightarrow> channel_io \<Rightarrow> bytes \<Rightarrow> (channel_io \<times> bytes) \<times> (frame, channel_error) result" where
  "read_frame L io buf =
     bind_st (keep_buf buf (read_exact io PADDING_SIZE)) (\<lambda>(io, buf) _.
     bind_st (keep_buf buf (read_exact io FRAME_LENGTH_SIZE)) (\<lambda>(io, buf) length_bytes.
     let len = unat (from_le_bytes length_bytes :: u16) in
     if len \<le> FRAME_BODY_OFFSET then ((io, buf), bail ''frame is too small'')
     else if MAX_SIZE < len then ((io, buf), bail ''frame exceeds the maximum frame size'')
     else
       bind_st (keep_buf buf (read_exact io FLAGS_SIZE)) (\<lambda>(io, buf) flags_bytes.
       let flags = from_bits_truncate L (from_le_bytes flags_bytes);
           tail = length buf;
           buf = put_bytes L buf (len - FRAME_BODY_OFFSET) in
       bind_st (keep_buf buf (read_exact io (length buf - tail))) (\<lambda>(io, buf) body.
       ((io, take tail buf @ body), Ok \<lparr>frame_flags = flags, frame_body = body\<rparr>)))))"

definition write_frame :: "channel_io \<Rightarrow> frame \<Rightarrow> channel_io \<times> (unit, channel_error) result" where
  "write_frame io f = bind_st (frame_write io f) (\<lambda>io _. flush io)"

text \<open>\<open>first_mut\<close> and \<open>last_mut\<close> with the flag set; both exist, because the data is not empty.\<close>

definition bytes_into_frames :: "'x channel_lib_scheme \<Rightarrow> bytes \<Rightarrow> (frame list, channel_error) result" where
  "bytes_into_frames L data =
     (if data = [] then bail ''cannot convert empty payloads into frames''
      else
        let frames = map (\<lambda>b. \<lparr>frame_flags = 0, frame_body = b\<rparr>) (chunks MAX_BODY_SIZE data) in
        if frames = [] then Panic
        else
          let frames = frames[0 := (frames ! 0)\<lparr>frame_flags := flags_set L (frame_flags (frames ! 0)) START True\<rparr>];
              i = length frames - 1;
              frames = frames[i := (frames ! i)\<lparr>frame_flags := flags_set L (frame_flags (frames ! i)) END True\<rparr>] in
          Ok frames)"


subsection \<open>Messages\<close>

definition MSG_LENGTH_SIZE :: nat where "MSG_LENGTH_SIZE = 4"
definition LENGTH_OFFSET :: nat where "LENGTH_OFFSET = 0"
definition INVOCATION_ID_SIZE :: nat where "INVOCATION_ID_SIZE = 4"
definition INVOCATION_ID_OFFSET :: nat where "INVOCATION_ID_OFFSET = 4"
definition MSG_BODY_OFFSET :: nat where "MSG_BODY_OFFSET = 8"

record request_message =
  req_invocation_id :: u32
  req_body :: bytes

definition request_len :: "request_message \<Rightarrow> nat" where
  "request_len m = MSG_LENGTH_SIZE + INVOCATION_ID_SIZE + length (req_body m)"

definition request_encode :: "request_message \<Rightarrow> (bytes, channel_error) result" where
  "request_encode m =
     (let len = request_len m in
      if \<not> len < 2 ^ 32 then Panic
      else Ok (to_le_bytes (of_nat len :: u32) @ to_le_bytes (req_invocation_id m) @ req_body m))"

definition request_decode :: "bytes \<Rightarrow> (request_message, channel_error) result" where
  "request_decode encoded =
     bind_result (expect (slice_range INVOCATION_ID_OFFSET (INVOCATION_ID_OFFSET + INVOCATION_ID_SIZE) encoded)) (\<lambda>id_bytes.
     bind_result (expect (slice_range MSG_BODY_OFFSET (length encoded) encoded)) (\<lambda>b.
     Ok \<lparr>req_invocation_id = from_le_bytes id_bytes, req_body = b\<rparr>))"

record response_message =
  resp_invocation_id :: u32
  resp_body :: bytes

definition response_len :: "response_message \<Rightarrow> nat" where
  "response_len m = MSG_LENGTH_SIZE + INVOCATION_ID_SIZE + length (resp_body m)"

definition response_encode :: "response_message \<Rightarrow> (bytes, channel_error) result" where
  "response_encode m =
     (let len = response_len m in
      if \<not> len < 2 ^ 32 then Panic
      else Ok (to_le_bytes (of_nat len :: u32) @ to_le_bytes (resp_invocation_id m) @ resp_body m))"

definition response_decode :: "bytes \<Rightarrow> (response_message, channel_error) result" where
  "response_decode encoded =
     bind_result (expect (slice_range INVOCATION_ID_OFFSET (INVOCATION_ID_OFFSET + INVOCATION_ID_SIZE) encoded)) (\<lambda>id_bytes.
     bind_result (expect (slice_range MSG_BODY_OFFSET (length encoded) encoded)) (\<lambda>b.
     Ok \<lparr>resp_invocation_id = from_le_bytes id_bytes, resp_body = b\<rparr>))"


subsection \<open>The invocation channel\<close>

lemma read_exact_length: "read_exact io n = (io', r) \<Longrightarrow> length (io_in io') \<le> length (io_in io)"
  by (auto simp: read_exact_def split: if_splits)

lemma read_exact_Ok_iff:
  "read_exact io n = (io', Ok bs) \<longleftrightarrow>
     n \<le> length (io_in io) \<and> io' = io\<lparr>io_in := drop n (io_in io)\<rparr> \<and> bs = take n (io_in io)"
  by (auto simp: read_exact_def)

lemma keep_buf_Ok_iff: "keep_buf buf p = (st, Ok x) \<longleftrightarrow> (\<exists>io. p = (io, Ok x) \<and> st = (io, buf))"
  by (cases p) (auto simp: keep_buf_def)

lemma read_frame_Ok_shorter:
  assumes "read_frame L io buf = ((io', buf'), Ok f)"
  shows "length (io_in io') < length (io_in io)"
  using assms
  by (auto simp: read_frame_def bind_st_Ok_iff keep_buf_Ok_iff read_exact_Ok_iff Let_def PADDING_SIZE_def
      FRAME_LENGTH_SIZE_def split: if_splits)

text \<open>The loop over the frames after the first one; every frame takes bytes from the input.\<close>

function read_rest ::
  "'x channel_lib_scheme \<Rightarrow> channel_io \<Rightarrow> bytes \<Rightarrow> (channel_io \<times> bytes) \<times> (unit, channel_error) result" where
  "read_rest L io buf =
     (case read_frame L io buf of
        (st, Err e) \<Rightarrow> (st, Err (Ctx ''couldn't read frame'' e))
      | (st, Panic) \<Rightarrow> (st, Panic)
      | ((io', buf'), Ok f) \<Rightarrow>
          if flags_contains L (frame_flags f) START
          then ((io', buf'), bail ''received two frames with the START flag set'')
          else if flags_contains L (frame_flags f) END then ((io', buf'), Ok ())
          else read_rest L io' buf')"
  by pat_completeness auto
termination
  by (relation "measure (\<lambda>(L, io, buf). length (io_in io))") (auto dest: read_frame_Ok_shorter [OF sym])

declare read_rest.simps [simp del]


definition read_message ::
  "'x channel_lib_scheme \<Rightarrow> (bytes \<Rightarrow> ('m, channel_error) result) \<Rightarrow> channel_io \<Rightarrow> channel_io \<times> ('m, channel_error) result" where
  "read_message L decode io =
     (case read_frame L io [] of
        ((io, buf), Err e) \<Rightarrow> (io, Err (Ctx ''couldn't read frame'' e))
      | ((io, buf), Panic) \<Rightarrow> (io, Panic)
      | ((io, buf), Ok first) \<Rightarrow>
          if \<not> flags_contains L (frame_flags first) START
          then (io, bail ''expected a frame with the START flag set'')
          else if flags_contains L (frame_flags first) END
          then (if length buf < MSG_BODY_OFFSET then (io, bail ''message is smaller than the message header'')
                else (io, decode buf))
          else
            (case slice_range LENGTH_OFFSET (LENGTH_OFFSET + MSG_LENGTH_SIZE) (frame_body first) of
               None \<Rightarrow> (io, bail ''first frame too short for message length'')
             | Some length_bytes \<Rightarrow>
                 if unat (from_le_bytes length_bytes :: u32) < MAX_BODY_SIZE
                 then (io, bail ''message length is smaller than the first frame'')
                 else
                   (case read_rest L io buf of
                      ((io, buf), Ok _) \<Rightarrow> (io, decode buf)
                    | ((io, buf), Err e) \<Rightarrow> (io, Err e)
                    | ((io, buf), Panic) \<Rightarrow> (io, Panic))))"

fun write_frames :: "channel_io \<Rightarrow> frame list \<Rightarrow> channel_io \<times> (unit, channel_error) result" where
  "write_frames io [] = (io, Ok ())"
| "write_frames io (f # fs) =
     (case write_frame io f of
        (io, r) \<Rightarrow> bind_st (io, context_err ''couldn't write frame'' r) (\<lambda>io _. write_frames io fs))"

definition write_message ::
  "'x channel_lib_scheme \<Rightarrow> ('m \<Rightarrow> (bytes, channel_error) result) \<Rightarrow> channel_io \<Rightarrow> 'm \<Rightarrow> channel_io \<times> (unit, channel_error) result" where
  "write_message L encode io m =
     bind_st (io, encode m) (\<lambda>io encoded.
     bind_st (io, bytes_into_frames L encoded) (\<lambda>io frames.
     write_frames io frames))"

text \<open>The handles of the client and of the server.\<close>

definition write_request :: "'x channel_lib_scheme \<Rightarrow> channel_io \<Rightarrow> request_message \<Rightarrow> channel_io \<times> (unit, channel_error) result" where
  "write_request L = write_message L request_encode"

definition read_response :: "'x channel_lib_scheme \<Rightarrow> channel_io \<Rightarrow> channel_io \<times> (response_message, channel_error) result" where
  "read_response L = read_message L response_decode"

definition read_request :: "'x channel_lib_scheme \<Rightarrow> channel_io \<Rightarrow> channel_io \<times> (request_message, channel_error) result" where
  "read_request L = read_message L request_decode"

definition write_response :: "'x channel_lib_scheme \<Rightarrow> channel_io \<Rightarrow> response_message \<Rightarrow> channel_io \<times> (unit, channel_error) result" where
  "write_response L = write_message L response_encode"

text \<open>Requests are numbered by a wrapping counter, the state of the encoder.\<close>

definition next_invocation_id :: "u32 \<Rightarrow> u32 \<times> u32" where
  "next_invocation_id n = (n + 1, n)"

definition encode_request :: "u32 \<Rightarrow> bytes \<Rightarrow> u32 \<times> request_message" where
  "encode_request counter b =
     (case next_invocation_id counter of (counter', i) \<Rightarrow> (counter', \<lparr>req_invocation_id = i, req_body = b\<rparr>))"


subsection \<open>The basic framed format\<close>

definition BASIC_MAX_SIZE :: nat where "BASIC_MAX_SIZE = 4096"

definition read_chunk :: "channel_io \<Rightarrow> nat \<Rightarrow> channel_io \<times> (bytes, channel_error) result" where
  "read_chunk io n =
     (if \<not> n < 2 ^ 32 then (io, bail ''chunk too big'')
      else bind_st (read_exact io n) (\<lambda>io chunk.
           bind_st (write_all io (to_le_bytes (of_nat n :: u32))) (\<lambda>io _. (io, Ok chunk))))"

fun read_chunks :: "channel_io \<Rightarrow> nat list \<Rightarrow> channel_io \<times> (bytes, channel_error) result" where
  "read_chunks io [] = (io, Ok [])"
| "read_chunks io (n # ns) =
     bind_st (read_chunk io n) (\<lambda>io chunk.
     bind_st (read_chunks io ns) (\<lambda>io rest. (io, Ok (chunk @ rest))))"

definition receive_raw :: "channel_io \<Rightarrow> channel_io \<times> (bytes, channel_error) result" where
  "receive_raw io =
     bind_st (read_exact io 4) (\<lambda>io buf.
     let payload_len = unat (from_le_bytes buf :: u32) in
     read_chunks io (map length (chunks BASIC_MAX_SIZE (replicate payload_len (0 :: byte)))))"

definition write_chunk :: "channel_io \<Rightarrow> bytes \<Rightarrow> channel_io \<times> (unit, channel_error) result" where
  "write_chunk io chunk =
     bind_st (write_all io chunk) (\<lambda>io _.
     bind_st (read_exact io 4) (\<lambda>io ack.
     if unat (from_le_bytes ack :: u32) \<noteq> length chunk then (io, bail ''ack wasn't of correct length'')
     else (io, Ok ())))"

fun write_chunks :: "channel_io \<Rightarrow> bytes list \<Rightarrow> channel_io \<times> (unit, channel_error) result" where
  "write_chunks io [] = (io, Ok ())"
| "write_chunks io (c # cs) = bind_st (write_chunk io c) (\<lambda>io _. write_chunks io cs)"

definition send_raw :: "channel_io \<Rightarrow> bytes \<Rightarrow> channel_io \<times> (unit, channel_error) result" where
  "send_raw io pl =
     (case write_all io (to_le_bytes (of_nat (length pl) :: u32)) of
        (io, Ok _) \<Rightarrow> write_chunks io (chunks BASIC_MAX_SIZE pl)
      | (io, _) \<Rightarrow> (io, Panic))"


subsection \<open>Reading what was written\<close>

definition encode_frame :: "frame \<Rightarrow> bytes" where
  "encode_frame f = PADDING @ to_le_bytes (of_nat (FRAME_BODY_OFFSET + length (frame_body f)) :: u16) @
     to_le_bytes (frame_flags f) @ frame_body f"

lemmas frame_sizes = PADDING_SIZE_def FRAME_LENGTH_SIZE_def FLAGS_SIZE_def FRAME_BODY_OFFSET_def PADDING_def
  MAX_SIZE_def MAX_BODY_SIZE_def

lemma length_encode_frame: "length (encode_frame f) = 8 + length (frame_body f)"
  by (simp add: encode_frame_def frame_sizes)

lemma write_all_Ok_iff:
  "write_all io bs = (io', Ok u) \<longleftrightarrow>
     length bs \<le> io_room io \<and> io' = io\<lparr>io_out := io_out io @ bs, io_room := io_room io - length bs\<rparr>"
  by (auto simp: write_all_def)

lemma frame_write_Ok_iff:
  assumes "length (frame_body f) \<le> MAX_BODY_SIZE"
  shows "frame_write io f = (io', Ok u) \<longleftrightarrow> length (encode_frame f) \<le> io_room io \<and>
    io' = io\<lparr>io_out := io_out io @ encode_frame f, io_room := io_room io - length (encode_frame f)\<rparr>"
  using assms
  by (auto simp: frame_write_def Let_def bind_st_Ok_iff write_all_Ok_iff encode_frame_def frame_sizes)

lemma read_frame_encoded:
  assumes "channel_lib_correct L" "frame_body f \<noteq> []" "length (frame_body f) \<le> MAX_BODY_SIZE" "frame_flags f AND 3 = frame_flags f"
  shows "read_frame L (io\<lparr>io_in := encode_frame f @ rest\<rparr>) buf = ((io\<lparr>io_in := rest\<rparr>, buf @ frame_body f), Ok f)"
proof -
  let ?n = "FRAME_BODY_OFFSET + length (frame_body f)"
  have n: "?n < 2 ^ 16" "FRAME_BODY_OFFSET < ?n" "?n \<le> MAX_SIZE" using assms(2,3) by (auto simp: frame_sizes)
  have "unat (of_nat k :: u16) = k" if "k < 2 ^ 16" for k using that by (simp add: unat_of_nat)
  from this [OF n(1)] have "unat (of_nat ?n :: u16) = ?n" .
  with n assms show ?thesis
    by (simp add: read_frame_def keep_buf_def read_exact_def encode_frame_def channel_lib_correct_def Let_def frame_sizes)
qed

text \<open>The frames of a message: the first one starts it, the last one ends it.\<close>

fun tag_frames :: "bool \<Rightarrow> bytes list \<Rightarrow> frame list" where
  "tag_frames s [] = []"
| "tag_frames s [c] = [\<lparr>frame_flags = (if s then 3 else 2), frame_body = c\<rparr>]"
| "tag_frames s (c # d # cs) = \<lparr>frame_flags = (if s then 1 else 0), frame_body = c\<rparr> # tag_frames False (d # cs)"

lemma tag_frames_False:
  "cs \<noteq> [] \<Longrightarrow> tag_frames False cs = (map (\<lambda>b. \<lparr>frame_flags = 0, frame_body = b\<rparr>) cs)
     [length cs - 1 := \<lparr>frame_flags = 2, frame_body = last cs\<rparr>]"
  by (induction "False" cs rule: tag_frames.induct) auto

lemma tag_frames_Nil_iff [simp]: "tag_frames s cs = [] \<longleftrightarrow> cs = []"
  by (cases "(s, cs)" rule: tag_frames.cases) auto

lemma frame_bodies_tag: "map frame_body (tag_frames s cs) = cs"
  by (induction s cs rule: tag_frames.induct) auto

lemma bytes_into_frames_eq:
  assumes "channel_lib_correct L" "data \<noteq> []"
  shows "bytes_into_frames L data = Ok (tag_frames True (chunks MAX_BODY_SIZE data))"
proof -
  obtain c cs where c: "chunks MAX_BODY_SIZE data = c # cs"
    using assms(2) by (cases "chunks MAX_BODY_SIZE data") (auto simp: frame_sizes)
  show ?thesis
  proof (cases cs)
    case Nil
    with assms c show ?thesis by (simp add: bytes_into_frames_def channel_lib_correct_def START_def END_def)
  next
    case (Cons d ds)
    have "last cs = cs ! (length cs - 1)" using Cons by (simp add: last_conv_nth)
    with assms c Cons show ?thesis
      by (cases "length ds") (auto simp: bytes_into_frames_def channel_lib_correct_def START_def END_def tag_frames_False
          nth_Cons' Let_def)
  qed
qed


lemma tag_frames_ok:
  assumes "\<And>c. c \<in> set cs \<Longrightarrow> c \<noteq> [] \<and> length c \<le> MAX_BODY_SIZE" "f \<in> set (tag_frames s cs)"
  shows "frame_body f \<noteq> [] \<and> length (frame_body f) \<le> MAX_BODY_SIZE \<and> frame_flags f AND 3 = frame_flags f"
proof -
  have "frame_flags f \<in> {0, 1, 2, 3}"
    using assms(2) by (induction s cs rule: tag_frames.induct) (auto split: if_splits)
  moreover have "frame_body f \<in> set (map frame_body (tag_frames s cs))" using assms(2) by simp
  ultimately show ?thesis using assms(1) by (auto simp: frame_bodies_tag simp del: set_map)
qed

lemma tag_frames_flags:
  "i < length cs \<Longrightarrow>
     (frame_flags (tag_frames s cs ! i) AND 1 = 1 \<longleftrightarrow> s \<and> i = 0) \<and> (frame_flags (tag_frames s cs ! i) AND 2 = 2 \<longleftrightarrow> i = length cs - 1)"
  by (induction s cs arbitrary: i rule: tag_frames.induct) (auto simp: nth_Cons' split: if_splits)

lemma chunk_ok: "c \<in> set (chunks MAX_BODY_SIZE d) \<Longrightarrow> c \<noteq> [] \<and> length c \<le> MAX_BODY_SIZE"
  by (simp add: chunks_nonempty chunks_length_le)

text \<open>What a message looks like on the wire.\<close>

definition wire :: "bytes \<Rightarrow> bytes" where
  "wire d = concat (map encode_frame (tag_frames True (chunks MAX_BODY_SIZE d)))"

text \<open>The transport after \<open>bs\<close> was written and flushed.\<close>

definition sent :: "channel_io \<Rightarrow> bytes \<Rightarrow> channel_io" where
  "sent io bs = io\<lparr>io_out := io_out io @ bs, io_room := io_room io - length bs, io_flushed := length (io_out io @ bs)\<rparr>"

lemma sent_simps [simp]:
  "io_out (sent io bs) = io_out io @ bs" "io_room (sent io bs) = io_room io - length bs"
  "io_flushed (sent io bs) = length (io_out io) + length bs" "io_up (sent io bs) = io_up io" "io_in (sent io bs) = io_in io"
  "sent (sent io bs) cs = sent io (bs @ cs)"
  by (simp_all add: sent_def)

lemma write_frame_Ok_iff:
  assumes "length (frame_body f) \<le> MAX_BODY_SIZE"
  shows "write_frame io f = (io', Ok u) \<longleftrightarrow>
    io_up io \<and> length (encode_frame f) \<le> io_room io \<and> io' = sent io (encode_frame f)"
  using frame_write_Ok_iff [OF assms] by (auto simp: write_frame_def bind_st_Ok_iff flush_def sent_def)

lemma length_encode_frames: "length (concat (map encode_frame fs)) = 8 * length fs + length (concat (map frame_body fs))"
  by (induction fs) (simp_all add: length_encode_frame)

lemma length_tag_frames [simp]: "length (tag_frames s cs) = length cs"
  by (induction s cs rule: tag_frames.induct) auto

text \<open>How many bytes the channel needs for a message of \<open>n\<close> bytes.\<close>

definition channel_bytes :: "nat \<Rightarrow> nat" where
  "channel_bytes n = n + FRAME_BODY_OFFSET * ((n + MAX_BODY_SIZE - 1) div MAX_BODY_SIZE)"

lemma length_chunks: "0 < n \<Longrightarrow> length (chunks n xs) = (length xs + n - 1) div n"
proof (induction n xs rule: chunks.induct)
  case (1 n xs)
  show ?case
  proof (cases "length xs \<le> n")
    case True
    show ?thesis
    proof (cases xs)
      case (Cons y ys)
      with True le_div_geq [of n "length xs + n - 1"] 1(2) show ?thesis by (simp add: chunks_short)
    qed (use 1(2) in simp)
  next
    case False
    have "xs \<noteq> []" using False by auto
    from chunks_step [OF this 1(2)] have "length (chunks n xs) = Suc (length (chunks n (drop n xs)))" by simp
    also have "length (chunks n (drop n xs)) = (length xs - 1) div n"
      using 1 \<open>xs \<noteq> []\<close> False by simp
    also have "Suc \<dots> = (length xs + n - 1) div n"
      using le_div_geq [of n "length xs + n - 1"] 1(2) False by simp
    finally show ?thesis .
  qed
qed

lemma length_wire: "length (wire d) = channel_bytes (length d)"
  by (simp add: wire_def length_encode_frames frame_bodies_tag length_chunks channel_bytes_def frame_sizes del: length_concat)

lemma write_frames_Ok_iff:
  assumes "fs \<noteq> []" "\<And>f. f \<in> set fs \<Longrightarrow> length (frame_body f) \<le> MAX_BODY_SIZE"
  shows "write_frames io fs = (io', Ok ()) \<longleftrightarrow> io_up io \<and> length (concat (map encode_frame fs)) \<le> io_room io \<and>
    io' = sent io (concat (map encode_frame fs))"
  using assms
proof (induction fs arbitrary: io)
  case (Cons f fs)
  have f: "write_frame io f = (io', Ok u) \<longleftrightarrow> io_up io \<and> length (encode_frame f) \<le> io_room io \<and> io' = sent io (encode_frame f)"
    for io' u using write_frame_Ok_iff Cons.prems by simp
  obtain io1 r where w: "write_frame io f = (io1, r)" by fastforce
  show ?case
  proof (cases "r = Ok ()")
    case True
    with w f have "io1 = sent io (encode_frame f)" "io_up io" "length (encode_frame f) \<le> io_room io" by auto
    with w True Cons.IH [of io1] Cons.prems show ?thesis by (cases "fs = []") auto
  next
    case False
    with w f have "\<not> (io_up io \<and> length (encode_frame f) \<le> io_room io)" by auto
    with w False show ?thesis by (cases r) (auto simp: context_err_def)
  qed
qed simp

lemma read_rest_encoded:
  assumes L: "channel_lib_correct L" and "cs \<noteq> []" "\<And>c. c \<in> set cs \<Longrightarrow> c \<noteq> [] \<and> length c \<le> MAX_BODY_SIZE"
  shows "read_rest L (io\<lparr>io_in := concat (map encode_frame (tag_frames False cs)) @ rest\<rparr>) buf =
    ((io\<lparr>io_in := rest\<rparr>, buf @ concat cs), Ok ())"
  using assms(2,3)
proof (induction cs arbitrary: buf)
  case (Cons c cs)
  show ?case
  proof (cases cs)
    case Nil
    let ?f = "\<lparr>frame_flags = 2, frame_body = c\<rparr>"
    have "read_frame L (io\<lparr>io_in := encode_frame ?f @ rest\<rparr>) buf = ((io\<lparr>io_in := rest\<rparr>, buf @ c), Ok ?f)"
      using read_frame_encoded [OF L, of ?f] Cons.prems by simp
    with Nil L show ?thesis
      by (subst read_rest.simps) (simp add: channel_lib_correct_def START_def END_def)
  next
    case (Cons d ds)
    let ?f = "\<lparr>frame_flags = 0, frame_body = c\<rparr>" and ?w = "concat (map encode_frame (tag_frames False cs))"
    have "read_frame L (io\<lparr>io_in := encode_frame ?f @ ?w @ rest\<rparr>) buf = ((io\<lparr>io_in := ?w @ rest\<rparr>, buf @ c), Ok ?f)"
      using read_frame_encoded [OF L, of ?f] Cons.prems by simp
    with Cons Cons.prems Cons.IH [of "buf @ c"] L show ?thesis
      by (subst read_rest.simps) (simp add: channel_lib_correct_def START_def END_def)
  qed
qed simp

text \<open>What the channel relies on of a type of messages.\<close>

locale message_codec =
  fixes encode :: "'m \<Rightarrow> (bytes, channel_error) result" and decode :: "bytes \<Rightarrow> ('m, channel_error) result"
  assumes decode_encode: "encode m = Ok d \<Longrightarrow> decode d = Ok m"
    and encode_header: "encode m = Ok d \<Longrightarrow> MSG_BODY_OFFSET \<le> length d \<and> length d < 2 ^ 32 \<and>
      take MSG_LENGTH_SIZE d = to_le_bytes (of_nat (length d) :: u32)"
begin

lemma write_message_Ok_iff:
  assumes "channel_lib_correct L" "encode m = Ok d"
  shows "write_message L encode io m = (io', Ok ()) \<longleftrightarrow> io_up io \<and> length (wire d) \<le> io_room io \<and> io' = sent io (wire d)"
proof -
  have "d \<noteq> []" using encode_header [OF assms(2)] by (auto simp: MSG_BODY_OFFSET_def)
  with assms show ?thesis
    using tag_frames_ok [OF chunk_ok] tag_frames_Nil_iff
    by (simp add: write_message_def bytes_into_frames_eq write_frames_Ok_iff wire_def frame_sizes)
qed

lemma read_message_encoded:
  assumes L: "channel_lib_correct L" and m: "encode m = Ok d"
  shows "read_message L decode (io\<lparr>io_in := wire d @ rest\<rparr>) = (io\<lparr>io_in := rest\<rparr>, Ok m)"
proof -
  note h = encode_header [OF m] and dec = decode_encode [OF m]
  have "0 < MAX_BODY_SIZE" by (simp add: frame_sizes)
  moreover have "d \<noteq> []" using h by (auto simp: MSG_BODY_OFFSET_def)
  ultimately have c: "chunks MAX_BODY_SIZE d = take MAX_BODY_SIZE d # chunks MAX_BODY_SIZE (drop MAX_BODY_SIZE d)"
    by (simp add: chunks_step)
  let ?c = "take MAX_BODY_SIZE d" and ?cs = "chunks MAX_BODY_SIZE (drop MAX_BODY_SIZE d)"
  have ok: "?c \<noteq> []" "length ?c \<le> MAX_BODY_SIZE" using c chunk_ok [of ?c d] by auto
  show ?thesis
  proof (cases "length d \<le> MAX_BODY_SIZE")
    case True
    let ?f = "\<lparr>frame_flags = 3, frame_body = d\<rparr>"
    have "read_frame L (io\<lparr>io_in := encode_frame ?f @ rest\<rparr>) [] = ((io\<lparr>io_in := rest\<rparr>, d), Ok ?f)"
      using read_frame_encoded [OF L, where f = ?f and buf = "[]"] True \<open>d \<noteq> []\<close> by simp
    with True c h dec L show ?thesis
      by (simp add: read_message_def wire_def channel_lib_correct_def START_def END_def)
  next
    case False
    let ?f = "\<lparr>frame_flags = 1, frame_body = ?c\<rparr>" and ?w = "concat (map encode_frame (tag_frames False ?cs))"
    obtain e es where cs: "?cs = e # es" using False by (cases ?cs) (auto simp: frame_sizes)
    have "read_frame L (io\<lparr>io_in := encode_frame ?f @ ?w @ rest\<rparr>) [] = ((io\<lparr>io_in := ?w @ rest\<rparr>, ?c), Ok ?f)"
      using read_frame_encoded [OF L, where f = ?f and buf = "[]"] ok by simp
    moreover have "read_rest L (io\<lparr>io_in := ?w @ rest\<rparr>) ?c = ((io\<lparr>io_in := rest\<rparr>, ?c @ concat ?cs), Ok ())"
      using read_rest_encoded [OF L, of ?cs] chunk_ok cs by (metis list.distinct(1))
    moreover have "?c @ concat ?cs = d" by (simp add: frame_sizes)
    moreover have "slice_range LENGTH_OFFSET (LENGTH_OFFSET + MSG_LENGTH_SIZE) ?c = Some (to_le_bytes (of_nat (length d) :: u32))"
      using h False by (simp add: slice_range_def LENGTH_OFFSET_def MSG_LENGTH_SIZE_def frame_sizes)
    moreover have "unat (of_nat (length d) :: u32) = length d" using h by (simp add: unat_of_nat)
    ultimately show ?thesis
      using c cs dec L False by (simp add: read_message_def wire_def channel_lib_correct_def START_def END_def)
  qed
qed

lemma write_message_Ok_encodes: "write_message L encode io m = (io', Ok u) \<Longrightarrow> \<exists>d. encode m = Ok d"
  by (auto simp: write_message_def bind_st_Ok_iff)

lemma messages_in_order:
  assumes L: "channel_lib_correct L" and "run_all (write_message L encode) io ms = (io', Ok us)"
  shows "\<exists>w. io_out io' = io_out io @ w \<and> (ms \<noteq> [] \<longrightarrow> io_flushed io' = length (io_out io')) \<and>
    run_all (\<lambda>io _. read_message L decode io) (rio\<lparr>io_in := w @ rest\<rparr>) us = (rio\<lparr>io_in := rest\<rparr>, Ok ms)"
  using assms(2)
proof (induction ms arbitrary: io us)
  case (Cons m ms)
  from Cons.prems obtain io1 us' where m: "write_message L encode io m = (io1, Ok ())"
    and ms: "run_all (write_message L encode) io1 ms = (io', Ok us')" and us: "us = () # us'"
    by (auto simp: run_all_Cons_Ok simp del: run_all.simps(2))
  from write_message_Ok_encodes [OF m] obtain d where d: "encode m = Ok d" ..
  have io1: "io1 = sent io (wire d)" using m write_message_Ok_iff [OF L d] by simp
  from Cons.IH [OF ms] obtain w where w: "io_out io' = io_out io1 @ w" "ms \<noteq> [] \<longrightarrow> io_flushed io' = length (io_out io')"
    "run_all (\<lambda>io _. read_message L decode io) (rio\<lparr>io_in := w @ rest\<rparr>) us' = (rio\<lparr>io_in := rest\<rparr>, Ok ms)" by blast
  have "read_message L decode (rio\<lparr>io_in := (wire d @ w) @ rest\<rparr>) = (rio\<lparr>io_in := w @ rest\<rparr>, Ok m)"
    using read_message_encoded [OF L d, where io = rio and rest = "w @ rest"] by simp
  with w us io1 ms show ?case
    by (intro exI [of _ "wire d @ w"]) (cases ms, auto)
qed (auto intro!: exI [of _ "[]"])

lemma messages_succeed:
  assumes L: "channel_lib_correct L" and "io_up io" "\<And>m. m \<in> set ms \<Longrightarrow> encode m = Ok (enc m)"
    "(\<Sum>m\<leftarrow>ms. length (wire (enc m))) \<le> io_room io"
  shows "\<exists>io' us. run_all (write_message L encode) io ms = (io', Ok us)"
  using assms(2-4)
proof (induction ms arbitrary: io)
  case (Cons m ms)
  have "write_message L encode io m = (sent io (wire (enc m)), Ok ())"
    using write_message_Ok_iff [OF L Cons.prems(2) [of m]] Cons.prems by simp
  moreover have "(\<Sum>m\<leftarrow>ms. length (wire (enc m))) \<le> io_room (sent io (wire (enc m)))"
    using Cons.prems(3) by simp
  then obtain io' us where "run_all (write_message L encode) (sent io (wire (enc m))) ms = (io', Ok us)"
    using Cons.IH [of "sent io (wire (enc m))"] Cons.prems by auto
  ultimately show ?case by simp
qed simp

lemma messages_delivered:
  assumes "channel_lib_correct L" "io_up io" "\<forall>m \<in> set ms. encode m = Ok (enc m)"
    "(\<Sum>m\<leftarrow>ms. channel_bytes (length (enc m))) \<le> io_room io"
  obtains io' us where "run_all (write_message L encode) io ms = (io', Ok us)"
    "run_all (\<lambda>io _. read_message L decode io) (rio\<lparr>io_in := drop (length (io_out io)) (io_out io') @ rest\<rparr>) us =
      (rio\<lparr>io_in := rest\<rparr>, Ok ms)"
    "ms \<noteq> [] \<longrightarrow> io_flushed io' = length (io_out io')"
proof -
  have "(\<Sum>m\<leftarrow>ms. length (wire (enc m))) \<le> io_room io" using assms(4) by (simp add: length_wire)
  with messages_succeed [OF assms(1,2), of ms enc] assms(3) obtain io' us
    where "run_all (write_message L encode) io ms = (io', Ok us)" by auto
  with messages_in_order [OF assms(1) this, where rio = rio and rest = rest] that show ?thesis by fastforce
qed

end

lemmas message_sizes = MSG_LENGTH_SIZE_def LENGTH_OFFSET_def INVOCATION_ID_SIZE_def INVOCATION_ID_OFFSET_def
  MSG_BODY_OFFSET_def

interpretation requests: message_codec request_encode request_decode
  by unfold_locales
    (auto simp: request_encode_def request_decode_def request_len_def slice_range_def message_sizes Let_def add.commute split: if_splits)

interpretation responses: message_codec response_encode response_decode
  by unfold_locales
    (auto simp: response_encode_def response_decode_def response_len_def slice_range_def message_sizes Let_def add.commute split: if_splits)


lemma request_encode_Ok:
  "request_len m < 2 ^ 32 \<Longrightarrow>
     request_encode m = Ok (to_le_bytes (of_nat (request_len m) :: u32) @ to_le_bytes (req_invocation_id m) @ req_body m)"
  by (simp add: request_encode_def Let_def)

lemma response_encode_Ok:
  "response_len m < 2 ^ 32 \<Longrightarrow>
     response_encode m = Ok (to_le_bytes (of_nat (response_len m) :: u32) @ to_le_bytes (resp_invocation_id m) @ resp_body m)"
  by (simp add: response_encode_def Let_def)

text \<open>
  C33. Requests of less than four gigabytes that the client writes are read by the server,
  and such responses that the server writes are read by the client, in order, unchanged, and leaving
  what follows them in the transport. Writing succeeds and everything is flushed whenever the
  transport is up and has room for every message plus one header of eight bytes for each 3992 bytes
  of it.
\<close>

theorem channel_delivers_in_order:
  assumes L: "channel_lib_correct L" and up: "io_up client" "io_up server"
    and len: "\<forall>m \<in> set reqs. request_len m < 2 ^ 32" "\<forall>m \<in> set resps. response_len m < 2 ^ 32"
    and room: "(\<Sum>m\<leftarrow>reqs. channel_bytes (request_len m)) \<le> io_room client"
      "(\<Sum>m\<leftarrow>resps. channel_bytes (response_len m)) \<le> io_room server"
  shows "(\<exists>client' us. run_all (write_request L) client reqs = (client', Ok us) \<and>
      (reqs \<noteq> [] \<longrightarrow> io_flushed client' = length (io_out client')) \<and>
      run_all (\<lambda>io _. read_request L io) (server\<lparr>io_in := drop (length (io_out client)) (io_out client') @ rest\<rparr>) us =
        (server\<lparr>io_in := rest\<rparr>, Ok reqs)) \<and>
    (\<exists>server' us. run_all (write_response L) server resps = (server', Ok us) \<and>
      (resps \<noteq> [] \<longrightarrow> io_flushed server' = length (io_out server')) \<and>
      run_all (\<lambda>io _. read_response L io) (client\<lparr>io_in := drop (length (io_out server)) (io_out server') @ rest\<rparr>) us =
        (client\<lparr>io_in := rest\<rparr>, Ok resps))" (is "?req \<and> ?resp")
proof -
  let ?e = "\<lambda>m. to_le_bytes (of_nat (request_len m) :: u32) @ to_le_bytes (req_invocation_id m) @ req_body m"
  have e: "length (?e m) = request_len m" for m by (simp add: request_len_def message_sizes)
  have "\<forall>m \<in> set reqs. request_encode m = Ok (?e m)" using len(1) request_encode_Ok by blast
  moreover have "(\<Sum>m\<leftarrow>reqs. channel_bytes (length (?e m))) \<le> io_room client" using room(1) by (simp only: e)
  ultimately have ?req
    by (rule requests.messages_delivered [OF L up(1), where rio = server and rest = rest])
      (auto simp: write_request_def read_request_def)
  let ?d = "\<lambda>m. to_le_bytes (of_nat (response_len m) :: u32) @ to_le_bytes (resp_invocation_id m) @ resp_body m"
  have d: "length (?d m) = response_len m" for m by (simp add: response_len_def message_sizes)
  have "\<forall>m \<in> set resps. response_encode m = Ok (?d m)" using len(2) response_encode_Ok by blast
  moreover have "(\<Sum>m\<leftarrow>resps. channel_bytes (length (?d m))) \<le> io_room server" using room(2) by (simp only: d)
  ultimately have ?resp
    by (rule responses.messages_delivered [OF L up(2), where rio = client and rest = rest])
      (auto simp: write_response_def read_response_def)
  with \<open>?req\<close> show ?thesis ..
qed

definition example_io :: channel_io where
  "example_io = \<lparr>io_in = [], io_out = [], io_room = 100, io_flushed = 0, io_up = True\<rparr>"

theorem channel_delivers_in_order_witness:
  "(\<exists>client' us. run_all (write_request example_channel_lib) example_io [\<lparr>req_invocation_id = 7, req_body = [1, 2]\<rparr>, \<lparr>req_invocation_id = 8, req_body = []\<rparr>]
      = (client', Ok us) \<and> io_flushed client' = length (io_out client') \<and>
      run_all (\<lambda>io _. read_request example_channel_lib io) (example_io\<lparr>io_in := io_out client' @ [9]\<rparr>) us =
        (example_io\<lparr>io_in := [9]\<rparr>, Ok [\<lparr>req_invocation_id = 7, req_body = [1, 2]\<rparr>, \<lparr>req_invocation_id = 8, req_body = []\<rparr>]))"
  using channel_delivers_in_order [OF example_channel_lib_correct, of example_io example_io
      "[\<lparr>req_invocation_id = 7, req_body = [1, 2]\<rparr>, \<lparr>req_invocation_id = 8, req_body = []\<rparr>]" "[]" "[9]"]
  by (simp add: example_io_def request_len_def message_sizes channel_bytes_def frame_sizes)

text \<open>
  C34. A message is cut into frames that carry its bytes in order, none of them larger than
  the maximum size of a frame and none of them empty; the first frame and no other has the flag
  START, the last frame and no other the flag END.
\<close>

theorem message_frames:
  assumes "channel_lib_correct L" "bytes_into_frames L data = Ok fs"
  shows "concat (map frame_body fs) = data \<and>
    (\<forall>i < length fs. FRAME_BODY_OFFSET < length (encode_frame (fs ! i)) \<and> length (encode_frame (fs ! i)) \<le> MAX_SIZE \<and>
      (flags_contains L (frame_flags (fs ! i)) START \<longleftrightarrow> i = 0) \<and>
      (flags_contains L (frame_flags (fs ! i)) END \<longleftrightarrow> i = length fs - 1))"
proof -
  have data: "data \<noteq> []" using assms(2) by (auto simp: bytes_into_frames_def)
  with assms have fs: "fs = tag_frames True (chunks MAX_BODY_SIZE data)" using bytes_into_frames_eq by fastforce
  have "FRAME_BODY_OFFSET < length (encode_frame (fs ! i)) \<and> length (encode_frame (fs ! i)) \<le> MAX_SIZE"
    if "i < length fs" for i
    using tag_frames_ok [where cs = "chunks MAX_BODY_SIZE data" and f = "fs ! i" and s = True] chunk_ok that fs
    by (auto simp: length_encode_frame frame_sizes in_set_conv_nth)
  moreover have "concat (map frame_body fs) = data" by (simp add: fs frame_bodies_tag frame_sizes)
  ultimately show ?thesis using tag_frames_flags [of _ "chunks MAX_BODY_SIZE data" True] assms(1) fs
    by (simp add: channel_lib_correct_def START_def END_def)
qed

theorem message_frames_witness:
  "\<exists>fs. bytes_into_frames example_channel_lib [1, 2, 3] = Ok fs \<and> concat (map frame_body fs) = [1, 2, 3]"
  using message_frames [OF example_channel_lib_correct, of "[1, 2, 3]"]
    bytes_into_frames_eq [OF example_channel_lib_correct, of "[1, 2, 3]"] by blast

text \<open>
  C35. A message in two frames that together have fewer bytes than the header of a message makes
  the reader panic, when the first frame has at least the four bytes of the length and the length that
  they declare does not fit one frame: only a message in a single frame is checked against the size of
  the header, and the declared length is compared with nothing else.
\<close>

theorem short_message_panics:
  assumes L: "channel_lib_correct L" and "4 \<le> length c" "b \<noteq> []" "length (c @ b) < MSG_BODY_OFFSET"
    and big: "MAX_BODY_SIZE \<le> unat (from_le_bytes (take 4 c) :: u32)"
  shows "read_request L (io\<lparr>io_in := encode_frame \<lparr>frame_flags = START, frame_body = c\<rparr> @
      encode_frame \<lparr>frame_flags = END, frame_body = b\<rparr> @ rest\<rparr>) = (io\<lparr>io_in := rest\<rparr>, Panic)"
proof -
  let ?f = "\<lparr>frame_flags = START, frame_body = c\<rparr>" and ?g = "\<lparr>frame_flags = END, frame_body = b\<rparr>"
  have len: "length c \<le> MAX_BODY_SIZE" "length b \<le> MAX_BODY_SIZE" "c \<noteq> []"
    using assms by (auto simp: frame_sizes message_sizes)
  have "read_frame L (io\<lparr>io_in := encode_frame ?f @ encode_frame ?g @ rest\<rparr>) [] =
      ((io\<lparr>io_in := encode_frame ?g @ rest\<rparr>, c), Ok ?f)"
    using read_frame_encoded [OF L, where f = ?f and buf = "[]"] len by (simp add: START_def)
  moreover have "tag_frames False [b] = [?g]" by (simp add: END_def)
  then have "read_rest L (io\<lparr>io_in := encode_frame ?g @ rest\<rparr>) c = ((io\<lparr>io_in := rest\<rparr>, c @ b), Ok ())"
    using read_rest_encoded [OF L, of "[b]"] len(2) assms(3) by auto
  ultimately show ?thesis
    using assms by (simp add: read_request_def read_message_def channel_lib_correct_def START_def END_def slice_range_def
        request_decode_def message_sizes not_less)
qed

theorem short_message_panics_witness:
  "\<exists>io. read_request example_channel_lib io = (example_io, Panic)"
  using short_message_panics [OF example_channel_lib_correct, where c = "[0, 0, 0, 1]" and b = "[5]" and io = example_io and rest = "[]"]
  by (auto simp: example_io_def message_sizes frame_sizes from_le_bytes_def)


subsection \<open>The simple format delivers its payload\<close>

text \<open>The acknowledgements of the recipient: the size of every chunk.\<close>

definition acks :: "bytes \<Rightarrow> bytes" where
  "acks pl = concat (map (\<lambda>c. to_le_bytes (of_nat (length c) :: u32)) (chunks BASIC_MAX_SIZE pl))"

lemma map_length_chunks: "length xs = length ys \<Longrightarrow> map length (chunks n xs) = map length (chunks n ys)"
proof (induction n xs arbitrary: ys rule: chunks.induct)
  case (1 n xs)
  then show ?case
    by (cases "xs = [] \<or> n = 0") (auto simp: chunks.simps [of n xs] chunks.simps [of n ys])
qed

lemma unat_u32_length: "length c \<le> BASIC_MAX_SIZE \<Longrightarrow> unat (of_nat (length c) :: u32) = length c"
  by (simp add: unat_of_nat BASIC_MAX_SIZE_def)

lemma read_chunks_written:
  assumes "\<And>c. c \<in> set cs \<Longrightarrow> length c \<le> BASIC_MAX_SIZE" "4 * length cs \<le> io_room io"
  shows "read_chunks (io\<lparr>io_in := concat cs @ rest\<rparr>) (map length cs) =
    (io\<lparr>io_in := rest, io_out := io_out io @ concat (map (\<lambda>c. to_le_bytes (of_nat (length c) :: u32)) cs),
       io_room := io_room io - 4 * length cs\<rparr>, Ok (concat cs))"
  using assms
proof (induction cs arbitrary: io)
  case (Cons c cs)
  let ?io = "io\<lparr>io_out := io_out io @ to_le_bytes (of_nat (length c) :: u32), io_room := io_room io - 4\<rparr>"
  have "length c < 2 ^ 32" using Cons.prems(1) [of c] by (simp add: BASIC_MAX_SIZE_def)
  then have "read_chunk (io\<lparr>io_in := concat (c # cs) @ rest\<rparr>) (length c) = (?io\<lparr>io_in := concat cs @ rest\<rparr>, Ok c)"
    using Cons.prems(2) by (simp add: read_chunk_def read_exact_def write_all_def)
  with Cons.IH [of ?io] Cons.prems show ?case by simp
qed simp

lemma write_chunks_acked:
  assumes "\<And>c. c \<in> set cs \<Longrightarrow> length c \<le> BASIC_MAX_SIZE" "length (concat cs) \<le> io_room io"
  shows "write_chunks (io\<lparr>io_in := concat (map (\<lambda>c. to_le_bytes (of_nat (length c) :: u32)) cs) @ rest\<rparr>) cs =
    (io\<lparr>io_in := rest, io_out := io_out io @ concat cs, io_room := io_room io - length (concat cs)\<rparr>, Ok ())"
  using assms
proof (induction cs arbitrary: io)
  case (Cons c cs)
  let ?a = "concat (map (\<lambda>c. to_le_bytes (of_nat (length c) :: u32)) cs)"
  let ?io = "io\<lparr>io_out := io_out io @ c, io_room := io_room io - length c\<rparr>"
  have "write_chunk (io\<lparr>io_in := to_le_bytes (of_nat (length c) :: u32) @ ?a @ rest\<rparr>) c = (?io\<lparr>io_in := ?a @ rest\<rparr>, Ok ())"
    using Cons.prems unat_u32_length [of c] by (simp add: write_chunk_def read_exact_def write_all_def)
  with Cons.IH [of ?io] Cons.prems show ?case by (simp add: add.commute)
qed simp

text \<open>
  The simple format delivers a payload of less than four gigabytes: the recipient of
  the size and of the payload returns the payload and acknowledges every chunk, and the sender
  that receives those acknowledgements sends exactly the size and the payload and succeeds.
\<close>

theorem basic_framed_delivers:
  assumes "length pl < 2 ^ 32"
  shows "(4 * length (chunks BASIC_MAX_SIZE pl) \<le> io_room receiver \<longrightarrow>
      receive_raw (receiver\<lparr>io_in := to_le_bytes (of_nat (length pl) :: u32) @ pl @ rest\<rparr>) =
        (receiver\<lparr>io_in := rest, io_out := io_out receiver @ acks pl,
           io_room := io_room receiver - 4 * length (chunks BASIC_MAX_SIZE pl)\<rparr>, Ok pl)) \<and>
    (4 + length pl \<le> io_room sender \<longrightarrow>
      send_raw (sender\<lparr>io_in := acks pl @ rest\<rparr>) pl =
        (sender\<lparr>io_in := rest, io_out := io_out sender @ to_le_bytes (of_nat (length pl) :: u32) @ pl,
           io_room := io_room sender - (4 + length pl)\<rparr>, Ok ()))"
proof -
  let ?cs = "chunks BASIC_MAX_SIZE pl"
  have n: "unat (of_nat (length pl) :: u32) = length pl" using assms by (simp add: unat_of_nat)
  have c: "concat ?cs = pl" by (simp add: BASIC_MAX_SIZE_def)
  have l: "map length (chunks BASIC_MAX_SIZE (replicate (length pl) (0 :: byte))) = map length ?cs"
    by (rule map_length_chunks) simp
  let ?s = "sender\<lparr>io_out := io_out sender @ to_le_bytes (of_nat (length pl) :: u32), io_room := io_room sender - 4\<rparr>"
  have "receive_raw (receiver\<lparr>io_in := to_le_bytes (of_nat (length pl) :: u32) @ pl @ rest\<rparr>) =
      read_chunks (receiver\<lparr>io_in := concat ?cs @ rest\<rparr>) (map length ?cs)"
    by (simp add: receive_raw_def read_exact_def n l c)
  moreover have "send_raw (sender\<lparr>io_in := acks pl @ rest\<rparr>) pl = write_chunks (?s\<lparr>io_in := acks pl @ rest\<rparr>) ?cs"
    if "4 + length pl \<le> io_room sender"
    using that by (cases sender) (simp add: send_raw_def write_all_def)
  moreover have "write_chunks (?s\<lparr>io_in := acks pl @ rest\<rparr>) ?cs =
      (sender\<lparr>io_in := rest, io_out := io_out sender @ to_le_bytes (of_nat (length pl) :: u32) @ pl,
         io_room := io_room sender - (4 + length pl)\<rparr>, Ok ())" if "4 + length pl \<le> io_room sender"
    using write_chunks_acked [of ?cs ?s rest] chunks_length_le [of _ BASIC_MAX_SIZE pl] that c by (simp add: acks_def)
  ultimately show ?thesis
    using read_chunks_written [of ?cs receiver rest] chunks_length_le [of _ BASIC_MAX_SIZE pl] c by (simp add: acks_def)
qed

theorem basic_framed_delivers_witness:
  "send_raw (example_io\<lparr>io_in := acks [1, 2, 3]\<rparr>) [1, 2, 3] =
     (example_io\<lparr>io_out := to_le_bytes (3 :: u32) @ [1, 2, 3], io_room := 93\<rparr>, Ok ())"
  using basic_framed_delivers [of "[1, 2, 3]" example_io "[]" example_io]
  by (simp add: example_io_def)

end
