(* ===== verification/Lookup_Table.thy ===== *)
theory Lookup_Table
  imports Oak_Prelude
begin

unbundle bit_operations_syntax

section \<open>The hash table of the lookup data\<close>

text \<open>
  Models \<^verbatim>\<open>oak_functions_service/src/lookup_htbl.rs\<close>: a table of entries that are found by
  linear probing, and chunks of memory that hold the keys and the values with compressed
  lengths. A \<open>usize\<close> is a natural number, reduced where the code can leave its range; the
  random number of the hash is an argument; a probe that never ends is \<open>None\<close>, a panic is
  \<open>Some Panic\<close>. The theorems show that the table is a map: whatever is inserted is what
  every lookup and the iterator return, and every probe ends.
\<close>

type_synonym 'a outcome = "('a, unit) result option"

definition INDEX_SIZE :: nat where "INDEX_SIZE = 5"

record entry =
  hash_byte :: byte
  data_index :: bytes

definition entry_default :: entry where
  "entry_default = \<lparr>hash_byte = 0, data_index = replicate INDEX_SIZE 0\<rparr>"

record lookup_htbl =
  table :: "entry list"
  data_chunks :: "bytes list"
  max_entries :: nat
  used_data :: nat
  used_entries :: nat
  hash_secret :: u64
  chunk_bits :: nat
  chunk_size :: nat
  chunk_mask :: nat

definition htbl_default :: lookup_htbl where
  "htbl_default = \<lparr>table = [], data_chunks = [], max_entries = 0, used_data = 0, used_entries = 0,
     hash_secret = 0, chunk_bits = 0, chunk_size = 0, chunk_mask = 0\<rparr>"

datatype lookup_result = Found nat nat | NotFound nat byte


subsection \<open>Hashes, indexes and lengths\<close>

definition hash_u64 :: "u64 \<Rightarrow> u64 \<Rightarrow> u64" where
  "hash_u64 v secret =
     (let v1 = (v + secret) XOR word_rotl 32 v;
          v2 = (ucast v1 :: u128) * 0x9d460858ea81ac79 in
      v XOR ucast v2 XOR ucast (drop_bit 64 v2))"

text \<open>
  Eight bytes in each round. The buffer is not cleared before the last, partial round, which
  mixes in what the round before left there.
\<close>

function hash_rounds :: "u64 \<Rightarrow> bytes \<Rightarrow> u64 \<Rightarrow> bytes \<Rightarrow> u64" where
  "hash_rounds secret v val buf =
     (if 8 \<le> length v
      then hash_rounds secret (drop 8 v) (hash_u64 (val XOR from_le_bytes (take 8 v)) secret) (take 8 v)
      else if v \<noteq> [] then hash_u64 (val XOR from_le_bytes (v @ drop (length v) buf)) secret
      else val)"
  by pat_completeness auto
termination
  by (relation "measure (\<lambda>(_, v, _, _). length v)") auto

definition hash :: "bytes \<Rightarrow> u64 \<Rightarrow> u64" where
  "hash v secret = hash_rounds secret v 0 (replicate 8 0)"

definition reduce :: "u64 \<Rightarrow> nat \<Rightarrow> nat" where
  "reduce h table_len = unat (ucast (drop_bit 64 ((ucast h :: u128) * of_nat table_len)) :: u64)"

definition read_index :: "entry \<Rightarrow> nat" where
  "read_index e = unat (from_le_bytes (data_index e @ replicate (8 - INDEX_SIZE) 0) :: u64)"

definition write_index :: "entry \<Rightarrow> nat \<Rightarrow> entry" where
  "write_index e v = e\<lparr>data_index := take INDEX_SIZE (to_le_bytes (of_nat v :: u64))\<rparr>"

definition read_len :: "bytes \<Rightarrow> nat \<Rightarrow> (nat \<times> nat, unit) result" where
  "read_len data index =
     (if \<not> index < length data then Panic
      else
        let first_byte = unat (data ! index) in
        if first_byte < 64 then Ok (first_byte, 1)
        else
          let num_bytes = drop_bit 6 first_byte in
          bind_result (expect (slice_range (index + 1) (index + 1 + num_bytes) data)) (\<lambda>bs.
          let len = unat (from_le_bytes (bs @ replicate (8 - num_bytes) 0) :: u64);
              len = len OR push_bit (8 * num_bytes) (first_byte AND 0x3f) in
          Ok (len, 1 + num_bytes)))"

function write_len_bytes :: "bytes \<Rightarrow> nat \<Rightarrow> nat \<Rightarrow> nat \<Rightarrow> (bytes \<times> nat \<times> nat, unit) result" where
  "write_len_bytes data index num_bytes len =
     (if 64 \<le> len
      then (if index + num_bytes < length data
            then write_len_bytes (data[index + num_bytes := of_nat len]) index (num_bytes + 1) (drop_bit 8 len)
            else Panic)
      else Ok (data, num_bytes, len))"
  by pat_completeness auto
termination
  by (relation "measure (\<lambda>(_, _, _, len). len)") (auto simp: drop_bit_eq_div)

definition write_len :: "bytes \<Rightarrow> nat \<Rightarrow> nat \<Rightarrow> (bytes \<times> nat, unit) result" where
  "write_len data index len =
     (if len < 64
      then (if index < length data then Ok (data[index := of_nat len], 1) else Panic)
      else
        bind_result (write_len_bytes data index 1 len) (\<lambda>(data, num_bytes, len).
        let first_byte = of_nat (push_bit 6 (num_bytes - 1) OR len) in
        if index < length data then Ok (data[index := first_byte], num_bytes) else Panic))"

declare hash_rounds.simps [simp del] write_len_bytes.simps [simp del]


subsection \<open>The table\<close>

text \<open>\<open>usize::ilog2\<close> and \<open>usize::next_power_of_two\<close>.\<close>

fun ilog2 :: "nat \<Rightarrow> nat" where
  "ilog2 n = (if n < 2 then 0 else Suc (ilog2 (n div 2)))"

definition next_power_of_two :: "nat \<Rightarrow> nat" where
  "next_power_of_two n = (if n \<le> 1 then 1 else 2 ^ Suc (ilog2 (n - 1)))"

declare ilog2.simps [simp del]

definition htbl_reserve :: "lookup_htbl \<Rightarrow> nat \<Rightarrow> u64 \<Rightarrow> lookup_htbl outcome" where
  "htbl_reserve h entries secret =
     (if used_entries h \<noteq> 0 then Some (Ok h)
      else
        let allocated_entries = ((5 * entries + 1) mod 2 ^ 64) div 3 in
        if secret = 0 then Some Panic
        else
          let size = next_power_of_two allocated_entries;
              size = (if size < 2 ^ 21 then 2 ^ 21 else size) in
          Some (Ok (h\<lparr>max_entries := entries, table := replicate allocated_entries entry_default, data_chunks := [],
            used_data := 1, used_entries := 0, hash_secret := secret,
            chunk_size := size, chunk_mask := size - 1, chunk_bits := ilog2 size\<rparr>)))"

definition read_key :: "lookup_htbl \<Rightarrow> nat \<Rightarrow> (bytes, unit) result" where
  "read_key h i =
     (let c = drop_bit (chunk_bits h) i in
      if \<not> c < length (data_chunks h) then Panic
      else
        let chunk = data_chunks h ! c; index = i AND chunk_mask h in
        bind_result (read_len chunk index) (\<lambda>(key_len, key_len_size).
        let key_index = index + key_len_size in
        expect (slice_range key_index (key_index + key_len) chunk)))"

definition read_value :: "lookup_htbl \<Rightarrow> nat \<Rightarrow> (bytes, unit) result" where
  "read_value h i =
     (let c = drop_bit (chunk_bits h) i in
      if \<not> c < length (data_chunks h) then Panic
      else
        let chunk = data_chunks h ! c; index = i AND chunk_mask h in
        bind_result (read_len chunk index) (\<lambda>(key_len, key_len_size).
        let value_len_index = index + key_len_size + key_len in
        bind_result (read_len chunk value_len_index) (\<lambda>(value_len, value_len_size).
        let value_index = value_len_index + value_len_size in
        expect (slice_range value_index (value_index + value_len) chunk))))"

definition next_table_index :: "lookup_htbl \<Rightarrow> nat \<Rightarrow> nat" where
  "next_table_index h i = (if i + 1 = length (table h) then 0 else i + 1)"

text \<open>
  The two nested loops of the probe: entries whose hash byte neither matches nor is zero are
  skipped without looking at their key.
\<close>

partial_function (option) lookup_loop :: "lookup_htbl \<Rightarrow> bytes \<Rightarrow> byte \<Rightarrow> nat \<Rightarrow> lookup_result outcome" where
  "lookup_loop h key key_hash_byte i =
     (if \<not> i < length (table h) then Some Panic
      else
        let entry = table h ! i in
        if hash_byte entry \<noteq> key_hash_byte \<and> hash_byte entry \<noteq> 0
        then lookup_loop h key key_hash_byte (next_table_index h i)
        else
          let d = read_index entry in
          if d = 0 then Some (Ok (NotFound i key_hash_byte))
          else if hash_byte entry = key_hash_byte
          then (case read_key h d of
                  Ok k \<Rightarrow> if key = k then Some (Ok (Found i d))
                          else lookup_loop h key key_hash_byte (next_table_index h i)
                | Err e \<Rightarrow> Some (Err e)
                | Panic \<Rightarrow> Some Panic)
          else lookup_loop h key key_hash_byte (next_table_index h i))"

definition hash_byte_of :: "bytes \<Rightarrow> u64 \<Rightarrow> byte" where
  "hash_byte_of key secret = ucast (drop_bit 32 (hash key secret))"

definition lookup :: "lookup_htbl \<Rightarrow> bytes \<Rightarrow> lookup_result outcome" where
  "lookup h key =
     (if table h = [] then Some Panic
      else lookup_loop h key (hash_byte_of key (hash_secret h)) (reduce (hash key (hash_secret h)) (length (table h))))"

definition htbl_len :: "lookup_htbl \<Rightarrow> nat" where
  "htbl_len h = used_entries h"

definition htbl_is_empty :: "lookup_htbl \<Rightarrow> bool" where
  "htbl_is_empty h \<longleftrightarrow> used_entries h = 0"

definition contains_key :: "lookup_htbl \<Rightarrow> bytes \<Rightarrow> bool outcome" where
  "contains_key h key =
     (if table h = [] then Some (Ok False)
      else bind_out (lookup h key) (\<lambda>r. Some (Ok (case r of Found _ _ \<Rightarrow> True | NotFound _ _ \<Rightarrow> False))))"

definition htbl_get :: "lookup_htbl \<Rightarrow> bytes \<Rightarrow> bytes option outcome" where
  "htbl_get h key =
     (if htbl_is_empty h then Some (Ok None)
      else bind_out (lookup h key) (\<lambda>r.
        case r of
          Found _ d \<Rightarrow> bind_out (Some (read_value h d)) (\<lambda>v. Some (Ok (Some v)))
        | NotFound _ _ \<Rightarrow> Some (Ok None)))"

text \<open>Writing a slice of a chunk, which panics when it does not fit.\<close>

definition copy_into :: "bytes \<Rightarrow> nat \<Rightarrow> bytes \<Rightarrow> (bytes, unit) result" where
  "copy_into chunk i bs =
     (if i + length bs \<le> length chunk then Ok (take i chunk @ bs @ drop (i + length bs) chunk) else Panic)"

text \<open>A new chunk, when the pair might not fit the last one.\<close>

definition open_chunk :: "lookup_htbl \<Rightarrow> nat \<Rightarrow> lookup_htbl" where
  "open_chunk h c =
     (if length (data_chunks h) \<le> c
      then h\<lparr>data_chunks := data_chunks h @ [replicate (chunk_size h) 0],
             used_data := (if c = 0 then 1 else chunk_size h * c)\<rparr>
      else h)"

definition new_data :: "lookup_htbl \<Rightarrow> bytes \<Rightarrow> bytes \<Rightarrow> (lookup_htbl \<times> nat, unit) result" where
  "new_data h key v =
     (let additional_data_len = 2 * INDEX_SIZE + length key + length v in
      if \<not> additional_data_len < chunk_size h then Panic
      else
        let end_index = used_data h + additional_data_len;
            chunk_index = drop_bit (chunk_bits h) end_index;
            h = open_chunk h chunk_index in
        if \<not> chunk_index < length (data_chunks h) then Panic
        else
          let chunk = data_chunks h ! chunk_index; index = used_data h AND chunk_mask h in
          bind_result (write_len chunk index (length key)) (\<lambda>(chunk, n).
          let key_index = index + n in
          bind_result (copy_into chunk key_index key) (\<lambda>chunk.
          let value_len_index = key_index + length key in
          bind_result (write_len chunk value_len_index (length v)) (\<lambda>(chunk, m).
          let value_index = value_len_index + m in
          bind_result (copy_into chunk value_index v) (\<lambda>chunk.
          Ok (h\<lparr>data_chunks := (data_chunks h)[chunk_index := chunk],
                used_data := used_data h + (value_index + length v - index)\<rparr>, used_data h))))))"

text \<open>The entries of the old table are put into a table of twice the size.\<close>

fun rehash :: "lookup_htbl \<Rightarrow> entry list \<Rightarrow> lookup_htbl outcome" where
  "rehash h [] = Some (Ok h)"
| "rehash h (e # es) =
     (let raw_index = read_index e in
      if raw_index \<noteq> 0 then
        bind_out (Some (read_key h raw_index)) (\<lambda>k.
        bind_out (lookup h k) (\<lambda>r.
        case r of
          NotFound i b \<Rightarrow>
            rehash (h\<lparr>table := (table h)[i := write_index ((table h ! i)\<lparr>hash_byte := b\<rparr>) raw_index]\<rparr>) es
        | Found _ _ \<Rightarrow> Some Panic))
      else rehash h es)"

definition grow_table :: "lookup_htbl \<Rightarrow> u64 \<Rightarrow> lookup_htbl outcome" where
  "grow_table h secret =
     (if max_entries h = 0 then htbl_reserve h 1 secret
      else rehash (h\<lparr>table := replicate (2 * length (table h)) entry_default, max_entries := 2 * max_entries h\<rparr>) (table h))"

text \<open>The entry for a pair that is in memory at index \<open>d\<close>.\<close>

definition put_entry :: "lookup_htbl \<Rightarrow> bytes \<Rightarrow> nat \<Rightarrow> (lookup_htbl \<times> bytes option) outcome" where
  "put_entry h key d =
     bind_out (lookup h key) (\<lambda>r.
     case r of
       Found i old \<Rightarrow>
         let h = h\<lparr>table := (table h)[i := write_index (table h ! i) d]\<rparr> in
         bind_out (Some (read_value h old)) (\<lambda>old. Some (Ok (h, Some old)))
     | NotFound i b \<Rightarrow>
         Some (Ok (h\<lparr>table := (table h)[i := write_index ((table h ! i)\<lparr>hash_byte := b\<rparr>) d],
                      used_entries := used_entries h + 1\<rparr>, None)))"

definition htbl_insert :: "lookup_htbl \<Rightarrow> bytes \<Rightarrow> bytes \<Rightarrow> u64 \<Rightarrow> (lookup_htbl \<times> bytes option) outcome" where
  "htbl_insert h key v secret =
     bind_out (if table h = [] then htbl_reserve h 1 secret
               else if max_entries h \<le> used_entries h then grow_table h secret
               else Some (Ok h)) (\<lambda>h.
     bind_out (Some (new_data h key v)) (\<lambda>(h, d). put_entry h key d))"

text \<open>Every insertion of a loop draws its own random number, should it need one.\<close>

fun htbl_extend :: "lookup_htbl \<Rightarrow> (bytes \<times> bytes) list \<Rightarrow> (nat \<Rightarrow> u64) \<Rightarrow> lookup_htbl outcome" where
  "htbl_extend h [] rng = Some (Ok h)"
| "htbl_extend h ((key, v) # kvs) rng =
     bind_out (htbl_insert h key v (rng 0)) (\<lambda>(h, _). htbl_extend h kvs (\<lambda>n. rng (Suc n)))"

text \<open>The iterator: the pairs of all entries that are in use, in the order of the table.\<close>

fun htbl_iter_from :: "lookup_htbl \<Rightarrow> entry list \<Rightarrow> ((bytes \<times> bytes) list, unit) result" where
  "htbl_iter_from h [] = Ok []"
| "htbl_iter_from h (e # es) =
     (let raw_index = read_index e in
      if raw_index \<noteq> 0 then
        bind_result (read_key h raw_index) (\<lambda>k.
        bind_result (read_value h raw_index) (\<lambda>v.
        bind_result (htbl_iter_from h es) (\<lambda>kvs. Ok ((k, v) # kvs))))
      else htbl_iter_from h es)"

definition htbl_iter :: "lookup_htbl \<Rightarrow> ((bytes \<times> bytes) list, unit) result" where
  "htbl_iter h = htbl_iter_from h (table h)"

subsection \<open>Encodings of indexes and lengths\<close>

lemma or_push_bit: "t < 2 ^ n \<Longrightarrow> push_bit n k OR t = 2 ^ n * k + (t :: nat)"
proof -
  assume t: "t < 2 ^ n"
  then have "take_bit n t = t" by (simp add: take_bit_nat_eq_self_iff)
  then have "\<not> bit t m" if "n \<le> m" for m by (metis bit_take_bit_iff leD that)
  then have "push_bit n k AND t = 0" by (intro bit_eqI) (auto simp: bit_simps)
  then show ?thesis by (metis disjunctive_add_eq_or mult.commute push_bit_eq_mult)
qed

lemma unat_of_nat_byte_small: "n < 256 \<Longrightarrow> unat (of_nat n :: byte) = n"
  by (simp add: unat_of_nat)

lemma le_value_append_zeros: "le_value (bs @ replicate n 0) = le_value bs"
  by (induction bs) (auto, induction n, auto)

lemma take_le_bytes: "m \<le> k \<Longrightarrow> take m (le_bytes k n) = le_bytes m n"
proof (induction k n arbitrary: m rule: le_bytes.induct)
  case (2 k n)
  then show ?case by (cases m) auto
qed simp

lemma read_write_index: "v < 2 ^ 40 \<Longrightarrow> read_index (write_index e v) = v"
proof -
  assume v: "v < 2 ^ 40"
  then have "unat (of_nat v :: u64) = v" by (simp add: unat_of_nat)
  moreover have "take INDEX_SIZE (le_bytes 8 v) = le_bytes 5 v" by (simp add: take_le_bytes INDEX_SIZE_def)
  ultimately show ?thesis
    using v by (simp add: read_index_def write_index_def to_le_bytes_def from_le_bytes_def le_value_append_zeros
        le_value_le_bytes)
qed

lemma read_index_default [simp]: "read_index entry_default = 0"
  using le_value_append_zeros [of "[]" 8] by (simp add: read_index_def entry_default_def from_le_bytes_def INDEX_SIZE_def flip: replicate_add)

lemma hash_byte_write_index [simp]: "hash_byte (write_index e v) = hash_byte e"
  by (simp add: write_index_def)

text \<open>The bytes of \<open>bs\<close> written over \<open>data\<close>, and found there.\<close>

definition put :: "'a list \<Rightarrow> nat \<Rightarrow> 'a list \<Rightarrow> 'a list" where
  "put data i bs = take i data @ bs @ drop (i + length bs) data"

definition has_at :: "'a list \<Rightarrow> nat \<Rightarrow> 'a list \<Rightarrow> bool" where
  "has_at data i bs \<longleftrightarrow> i + length bs \<le> length data \<and> take (length bs) (drop i data) = bs"

lemma length_put [simp]: "i + length bs \<le> length data \<Longrightarrow> length (put data i bs) = length data"
  by (simp add: put_def)

lemma nth_put:
  "i + length bs \<le> length data \<Longrightarrow> j < length data \<Longrightarrow>
     put data i bs ! j = (if j < i then data ! j else if j < i + length bs then bs ! (j - i) else data ! j)"
  by (auto simp: put_def nth_append min_def)

lemma has_at_iff: "has_at data i bs \<longleftrightarrow> i + length bs \<le> length data \<and> (\<forall>j < length bs. data ! (i + j) = bs ! j)"
  by (auto simp: has_at_def list_eq_iff_nth_eq)

lemma list_update_put: "i < length data \<Longrightarrow> data[i := x] = put data i [x]"
  by (simp add: put_def upd_conv_take_nth_drop)

lemma put_put_next:
  "i + length bs + length cs \<le> length data \<Longrightarrow> put (put data i bs) (i + length bs) cs = put data i (bs @ cs)"
  by (rule nth_equalityI) (auto simp: nth_put nth_append)

lemma put_put_front:
  "Suc i + length bs \<le> length data \<Longrightarrow> put (put data (Suc i) bs) i [x] = put data i (x # bs)"
  by (rule nth_equalityI) (auto simp: nth_put nth_Cons')

lemma has_at_put: "i + length bs \<le> length data \<Longrightarrow> has_at (put data i bs) i bs"
  by (simp add: has_at_iff nth_put)

lemma has_at_put_other:
  "has_at data j cs \<Longrightarrow> j + length cs \<le> i \<Longrightarrow> i + length bs \<le> length data \<Longrightarrow> has_at (put data i bs) j cs"
  by (simp add: has_at_iff nth_put)

lemma has_at_append: "has_at data i (bs @ cs) \<longleftrightarrow> has_at data i bs \<and> has_at data (i + length bs) cs"
  by (auto simp: has_at_def take_add add.commute add.left_commute)

lemma has_at_Cons: "has_at data i (x # bs) \<longleftrightarrow> i < length data \<and> data ! i = x \<and> has_at data (Suc i) bs"
  by (auto simp: has_at_iff nth_Cons less_Suc_eq_0_disj)

lemma slice_range_has_at: "has_at data i bs \<Longrightarrow> n = length bs \<Longrightarrow> slice_range i (i + n) data = Some bs"
  by (simp add: has_at_def slice_range_def)


text \<open>The compressed form of a length: two bits for the number of further bytes, six bits of the length.\<close>

fun len_bytes :: "nat \<Rightarrow> nat" where
  "len_bytes n = (if n < 64 then 0 else Suc (len_bytes (n div 256)))"

declare len_bytes.simps [simp del]

definition enc_len :: "nat \<Rightarrow> bytes" where
  "enc_len n = of_nat (64 * len_bytes n + n div 256 ^ len_bytes n) # le_bytes (len_bytes n) n"

lemma len_bytes_top: "n div 256 ^ len_bytes n < 64"
proof (induction n rule: len_bytes.induct)
  case (1 n)
  then show ?case by (cases "n < 64") (simp_all add: len_bytes.simps [of n] div_mult2_eq)
qed

lemma len_bytes_le: "n < 64 * 256 ^ k \<Longrightarrow> len_bytes n \<le> k"
proof (induction k arbitrary: n)
  case (Suc k)
  then have "len_bytes (n div 256) \<le> k" by (simp add: less_mult_imp_div_less mult_ac)
  then show ?case by (simp add: len_bytes.simps [of n])
qed (simp add: len_bytes.simps)

lemma length_enc_len: "n < 2 ^ 30 \<Longrightarrow> length (enc_len n) \<le> 4"
  using len_bytes_le [of n 3] by (simp add: enc_len_def)

lemma write_len_bytes_eq:
  "index + num_bytes + len_bytes len \<le> length data \<Longrightarrow>
     write_len_bytes data index num_bytes len =
       Ok (put data (index + num_bytes) (le_bytes (len_bytes len) len), num_bytes + len_bytes len, len div 256 ^ len_bytes len)"
proof (induction len arbitrary: data num_bytes rule: len_bytes.induct)
  case (1 len)
  show ?case
  proof (cases "len < 64")
    case True
    then show ?thesis by (simp add: write_len_bytes.simps len_bytes.simps [of len] put_def)
  next
    case False
    then have l: "len_bytes len = Suc (len_bytes (len div 256))" by (simp add: len_bytes.simps [of len])
    have "(of_nat len :: byte) = of_nat (len mod 256)" by (simp add: word_of_nat_eq_iff take_bit_eq_mod)
    with 1 False l show ?thesis
      using put_put_next [of "index + num_bytes" "[of_nat len]" "le_bytes (len_bytes (len div 256)) (len div 256)" data]
      by (subst write_len_bytes.simps) (simp add: drop_bit_eq_div list_update_put div_mult2_eq)
  qed
qed

lemma write_len_eq:
  assumes "n < 2 ^ 30" "index + length (enc_len n) \<le> length data"
  shows "write_len data index n = Ok (put data index (enc_len n), length (enc_len n))"
proof (cases "n < 64")
  case True
  with assms show ?thesis by (simp add: write_len_def enc_len_def len_bytes.simps [of n] list_update_put)
next
  case False
  have "push_bit 6 (len_bytes n) OR n div 256 ^ len_bytes n = 64 * len_bytes n + n div 256 ^ len_bytes n"
    using or_push_bit [of "n div 256 ^ len_bytes n" 6 "len_bytes n"] len_bytes_top [of n] by simp
  with assms False show ?thesis
    by (simp add: write_len_def enc_len_def write_len_bytes_eq list_update_put put_put_front)
qed

lemma read_len_eq:
  assumes "n < 2 ^ 30" "has_at data index (enc_len n)"
  shows "read_len data index = Ok (n, length (enc_len n))"
proof -
  let ?k = "len_bytes n" and ?t = "n div 256 ^ len_bytes n"
  have k: "?k \<le> 3" using len_bytes_le [of n 3] assms(1) by simp
  have t: "?t < 64" by (rule len_bytes_top)
  have f: "unat (of_nat (64 * ?k + ?t) :: byte) = 64 * ?k + ?t" by (rule unat_of_nat_byte_small) (use k t in simp)
  have d: "drop_bit 6 (64 * ?k + ?t) = ?k" using t by (simp add: drop_bit_eq_div)
  have "(64 * ?k + ?t) AND mask 6 = ?t" using t by (simp flip: take_bit_eq_mask add: take_bit_eq_mod)
  then have m: "(64 * ?k + ?t) AND 0x3f = ?t" by (simp add: mask_nat_def)
  from assms(2) have h: "index < length data" "data ! index = of_nat (64 * ?k + ?t)" "has_at data (Suc index) (le_bytes ?k n)"
    by (auto simp: enc_len_def has_at_Cons)
  show ?thesis
  proof (cases "n < 64")
    case True
    with h f show ?thesis by (simp add: read_len_def enc_len_def len_bytes.simps [of n])
  next
    case False
    then have "?k \<noteq> 0" by (simp add: len_bytes.simps [of n])
    have l: "unat (from_le_bytes (le_bytes ?k n @ replicate (8 - ?k) 0) :: u64) = n mod 256 ^ ?k"
    proof -
      have "n < 2 ^ 64" using assms(1) by simp
      with mod_less_eq_dividend have "n mod 256 ^ ?k < 2 ^ 64" by (rule le_less_trans)
      then show ?thesis by (simp add: from_le_bytes_def le_value_append_zeros le_value_le_bytes unat_of_nat)
    qed
    have "n mod 256 ^ ?k OR push_bit (8 * ?k) ?t = n"
      using or_push_bit [of "n mod 256 ^ ?k" "8 * ?k" ?t] by (simp add: or.commute power_mult)
    with h f d m l \<open>?k \<noteq> 0\<close> show ?thesis
      using slice_range_has_at [OF h(3) refl]
      by (simp add: read_len_def enc_len_def Let_def)
  qed
qed



subsection \<open>The memory of keys and values\<close>

text \<open>The bytes of a pair, and that they are in the memory at index \<open>d\<close>, before the part that is free.\<close>

definition pair_bytes :: "bytes \<Rightarrow> bytes \<Rightarrow> bytes" where
  "pair_bytes k v = enc_len (length k) @ k @ enc_len (length v) @ v"

definition stored :: "lookup_htbl \<Rightarrow> nat \<Rightarrow> bytes \<Rightarrow> bytes \<Rightarrow> bool" where
  "stored h d k v \<longleftrightarrow> 0 < d \<and> d div chunk_size h < length (data_chunks h) \<and>
     has_at (data_chunks h ! (d div chunk_size h)) (d mod chunk_size h) (pair_bytes k v) \<and>
     d + length (pair_bytes k v) \<le> used_data h \<and> length k < 2 ^ 30 \<and> length v < 2 ^ 30"

definition store_wf :: "lookup_htbl \<Rightarrow> bool" where
  "store_wf h \<longleftrightarrow> chunk_size h = 2 ^ chunk_bits h \<and> chunk_mask h = chunk_size h - 1 \<and> 21 \<le> chunk_bits h \<and> chunk_bits h \<le> 30 \<and>
     (\<forall>c \<in> set (data_chunks h). length c = chunk_size h) \<and> 1 \<le> used_data h \<and>
     (if data_chunks h = [] then used_data h = 1 else used_data h div chunk_size h = length (data_chunks h) - 1)"

lemma and_size_minus_1: "i AND (2 ^ n - Suc 0) = i mod (2 ^ n :: nat)"
  using take_bit_eq_mask [of n i] by (simp add: take_bit_eq_mod mask_nat_def)

lemma read_stored:
  assumes "store_wf h" "stored h d k v"
  shows "read_key h d = Ok k" "read_value h d = Ok v"
proof -
  let ?c = "data_chunks h ! (d div chunk_size h)" and ?i = "d mod chunk_size h"
  note s = assms(2) [unfolded stored_def pair_bytes_def has_at_append]
  have len: "read_len ?c ?i = Ok (length k, length (enc_len (length k)))" using s by (intro read_len_eq) auto
  have "read_len ?c (?i + length (enc_len (length k)) + length k) = Ok (length v, length (enc_len (length v)))"
    using s by (intro read_len_eq) auto
  with len s assms(1) show "read_key h d = Ok k" "read_value h d = Ok v"
    by (simp_all add: read_key_def read_value_def store_wf_def drop_bit_eq_div and_size_minus_1 slice_range_has_at Let_def)
qed

lemma copy_into_put: "i + length bs \<le> length chunk \<Longrightarrow> copy_into chunk i bs = Ok (put chunk i bs)"
  by (simp add: copy_into_def put_def)

lemma write_pair:
  assumes "length k < 2 ^ 30" "length v < 2 ^ 30" "i + 10 + length k + length v \<le> length chunk"
  shows "bind_result (write_len chunk i (length k)) (\<lambda>(chunk, n).
     bind_result (copy_into chunk (i + n) k) (\<lambda>chunk.
     bind_result (write_len chunk (i + n + length k) (length v)) (\<lambda>(chunk, m).
     bind_result (copy_into chunk (i + n + length k + m) v) (\<lambda>chunk. F chunk (i + n + length k + m))))) =
     F (put chunk i (pair_bytes k v)) (i + length (enc_len (length k)) + length k + length (enc_len (length v)))"
proof -
  let ?a = "enc_len (length k)" and ?b = "enc_len (length v)"
  have l: "length ?a \<le> 4" "length ?b \<le> 4" using assms length_enc_len by auto
  have p: "put (put chunk i ?a) (i + length ?a) k = put chunk i (?a @ k)"
    "put (put chunk i (?a @ k)) (i + length ?a + length k) ?b = put chunk i (?a @ k @ ?b)"
    "put (put chunk i (?a @ k @ ?b)) (i + length ?a + length k + length ?b) v = put chunk i (pair_bytes k v)"
    using put_put_next [of i ?a k chunk] put_put_next [of i "?a @ k" ?b chunk] put_put_next [of i "?a @ k @ ?b" v chunk] assms l
    by (simp_all add: add.assoc pair_bytes_def)
  show ?thesis using assms l by (simp add: write_len_eq copy_into_put p)
qed

lemma length_pair_bytes: "length k < 2 ^ 30 \<Longrightarrow> length v < 2 ^ 30 \<Longrightarrow> length (pair_bytes k v) \<le> 8 + length k + length v"
  using length_enc_len [of "length k"] length_enc_len [of "length v"] by (simp add: pair_bytes_def)

lemma div_le_add: "a < s \<Longrightarrow> (u + a) div s \<le> u div s + (1 :: nat)"
  using div_le_mono [of "u + a" "u + s" s] by (cases "s = 0") (simp_all add: div_add_self2)

lemma open_chunk_ok:
  assumes h: "store_wf h" and a: "a < chunk_size h" "data_chunks h \<noteq> [] \<or> a + 1 < chunk_size h" "0 < a"
  defines "c \<equiv> (used_data h + a) div chunk_size h"
  shows "store_wf (open_chunk h c)" "c < length (data_chunks (open_chunk h c))"
    "used_data (open_chunk h c) div chunk_size h = c" "used_data (open_chunk h c) mod chunk_size h + a \<le> chunk_size h"
    "used_data h \<le> used_data (open_chunk h c)" "used_data (open_chunk h c) \<le> used_data h + a"
    "stored h d k v \<Longrightarrow> stored (open_chunk h c) d k v"
proof -
  let ?s = "chunk_size h" and ?u = "used_data h" and ?n = "length (data_chunks h)"
  have s: "1 < ?s" using h one_less_power [of "2 :: nat" "chunk_bits h"] by (simp add: store_wf_def)
  have le: "?u div ?s \<le> c" unfolding c_def by (simp add: div_le_mono)
  consider (first) "data_chunks h = []" "?u = 1" "c = 0" | (new) "data_chunks h \<noteq> []" "c = ?n" "?u div ?s = ?n - 1" "0 < ?n"
    | (old) "data_chunks h \<noteq> []" "c = ?u div ?s" "?u div ?s = ?n - 1" "0 < ?n"
  proof (cases "data_chunks h = []")
    case True
    with h a have "?u = 1" "c = 0" by (auto simp: store_wf_def c_def)
    with True first show thesis by blast
  next
    case False
    with h have "?u div ?s = ?n - 1" "0 < ?n" by (auto simp: store_wf_def)
    with False div_le_add [OF a(1), of ?u] le new old show thesis by (cases "c = ?u div ?s") (auto simp: c_def)
  qed
  then have all: "store_wf (open_chunk h c) \<and> c < length (data_chunks (open_chunk h c)) \<and>
    used_data (open_chunk h c) div ?s = c \<and> used_data (open_chunk h c) mod ?s + a \<le> ?s \<and>
    ?u \<le> used_data (open_chunk h c) \<and> used_data (open_chunk h c) \<le> ?u + a \<and> (stored h d k v \<longrightarrow> stored (open_chunk h c) d k v)"
  proof cases
    case first
    with h a s show ?thesis by (auto simp: open_chunk_def store_wf_def stored_def)
  next
    case new
    have "?u div ?s < ?n" using new by simp
    with s have "?u < ?s * ?n" by (simp add: div_less_iff_less_mult mult.commute)
    moreover have "?s * ?n \<le> ?u + a" using new unfolding c_def by (metis div_times_less_eq_dividend mult.commute)
    ultimately show ?thesis using new h a s by (auto simp: open_chunk_def store_wf_def stored_def nth_append Suc_le_eq)
  next
    case old
    have "?u mod ?s + a < ?s"
    proof -
      have "(?u + a) div ?s = ?u div ?s + (?u mod ?s + a) div ?s" using div_add1_eq [of ?u a ?s] a(1) by simp
      with old(2) have "(?u mod ?s + a) div ?s = 0" unfolding c_def by linarith
      with s show ?thesis by (simp add: div_eq_0_iff)
    qed
    moreover have "c < ?n" using old by linarith
    then have "open_chunk h c = h" by (simp add: open_chunk_def)
    ultimately show ?thesis using old h \<open>c < ?n\<close> by simp
  qed
  then show "store_wf (open_chunk h c)" "c < length (data_chunks (open_chunk h c))"
    "used_data (open_chunk h c) div chunk_size h = c" "used_data (open_chunk h c) mod chunk_size h + a \<le> chunk_size h"
    "used_data h \<le> used_data (open_chunk h c)" "used_data (open_chunk h c) \<le> used_data h + a"
    "stored h d k v \<Longrightarrow> stored (open_chunk h c) d k v" by blast+
qed

text \<open>The memory after a pair was written at the start of its free part.\<close>

definition pair_written :: "lookup_htbl \<Rightarrow> nat \<Rightarrow> bytes \<Rightarrow> bytes \<Rightarrow> lookup_htbl" where
  "pair_written h c k v =
     h\<lparr>data_chunks := (data_chunks h)[c := put (data_chunks h ! c) (used_data h mod chunk_size h) (pair_bytes k v)],
       used_data := used_data h + length (pair_bytes k v)\<rparr>"

lemma same_chunk_order:
  assumes "d div s = u div s" "d + n \<le> (u :: nat)"
  shows "d mod s + n \<le> u mod s"
proof -
  have "s * (d div s) + (d mod s + n) \<le> s * (u div s) + u mod s" using assms(2) by (simp add: add.assoc [symmetric])
  then show ?thesis unfolding assms(1) by (simp only: add_le_cancel_left)
qed

lemma pair_written_simps [simp]:
  "chunk_size (pair_written h c k v) = chunk_size h" "chunk_bits (pair_written h c k v) = chunk_bits h"
  "chunk_mask (pair_written h c k v) = chunk_mask h"
  "used_data (pair_written h c k v) = used_data h + length (pair_bytes k v)"
  "data_chunks (pair_written h c k v) =
     (data_chunks h)[c := put (data_chunks h ! c) (used_data h mod chunk_size h) (pair_bytes k v)]"
  by (simp_all add: pair_written_def)

lemma pair_written_wf:
  assumes h: "store_wf h" and c: "c < length (data_chunks h)" "used_data h div chunk_size h = c"
    and fits: "used_data h mod chunk_size h + length (pair_bytes k v) < chunk_size h"
  shows "store_wf (pair_written h c k v)"
proof -
  let ?x = "put (data_chunks h ! c) (used_data h mod chunk_size h) (pair_bytes k v)"
  have "length ?x = chunk_size h" using h c fits by (simp add: store_wf_def)
  moreover have "set ((data_chunks h)[c := ?x]) \<subseteq> insert ?x (set (data_chunks h))" by (rule set_update_subset_insert)
  ultimately have chunks: "\<forall>x \<in> set ((data_chunks h)[c := ?x]). length x = chunk_size h"
    using h unfolding store_wf_def by blast
  have "(used_data h + length (pair_bytes k v)) div chunk_size h = c"
    using div_add1_eq [of "used_data h" "length (pair_bytes k v)" "chunk_size h"] fits c by simp
  moreover have "data_chunks h \<noteq> []" using c by auto
  ultimately show ?thesis using h c chunks unfolding store_wf_def pair_written_simps by simp
qed

lemma pair_written_stored:
  assumes h: "store_wf h" and c: "c < length (data_chunks h)" "used_data h div chunk_size h = c"
    and len: "length k < 2 ^ 30" "length v < 2 ^ 30"
    and fits: "used_data h mod chunk_size h + length (pair_bytes k v) < chunk_size h"
  shows "stored (pair_written h c k v) (used_data h) k v"
    and "stored h d k' v' \<Longrightarrow> stored (pair_written h c k v) d k' v'"
proof -
  have l: "length (data_chunks h ! c) = chunk_size h" "0 < used_data h" using h c by (auto simp: store_wf_def)
  then show "stored (pair_written h c k v) (used_data h) k v"
    using c fits len by (simp add: stored_def has_at_put)
  assume s: "stored h d k' v'"
  show "stored (pair_written h c k v) d k' v'"
  proof (cases "d div chunk_size h = c")
    case True
    have "d mod chunk_size h + length (pair_bytes k' v') \<le> used_data h mod chunk_size h"
      using s True c(2) by (intro same_chunk_order) (simp_all add: stored_def)
    with True s c fits l show ?thesis by (simp add: stored_def has_at_put_other)
  next
    case False
    with s show ?thesis by (simp add: stored_def)
  qed
qed

lemma new_data_ok:
  assumes h: "store_wf h" and a_less: "10 + length k + length v < chunk_size h"
    and first: "data_chunks h \<noteq> [] \<or> 11 + length k + length v < chunk_size h"
  obtains h' d where "new_data h k v = Ok (h', d)" "store_wf h'" "stored h' d k v"
    "\<forall>d k v. stored h d k v \<longrightarrow> stored h' d k v" "h' = h\<lparr>data_chunks := data_chunks h', used_data := used_data h'\<rparr>"
    "used_data h' \<le> used_data h + 2 * (10 + length k + length v)" "data_chunks h' \<noteq> []" "d \<le> used_data h'"
proof -
  define a c where "a = 10 + length k + length v" and "c = (used_data h + a) div chunk_size h"
  define h1 i where "h1 = open_chunk h c" and "i = used_data h1 mod chunk_size h"
  define h2 where "h2 = pair_written h1 c k v"
  have "chunk_size h \<le> 2 ^ 30" using h power_increasing [of "chunk_bits h" 30 "2 :: nat"] by (simp add: store_wf_def)
  with a_less have len: "length k < 2 ^ 30" "length v < 2 ^ 30" by auto
  have "a < chunk_size h" "data_chunks h \<noteq> [] \<or> a + 1 < chunk_size h" "0 < a" using a_less first by (auto simp: a_def)
  note o = open_chunk_ok [OF h this, folded c_def, folded h1_def]
  have sz: "chunk_size h1 = chunk_size h" "chunk_bits h1 = chunk_bits h" "chunk_mask h1 = chunk_mask h"
    by (simp_all add: h1_def open_chunk_def)
  have p: "i + length (pair_bytes k v) < chunk_size h" using o(4) length_pair_bytes [OF len] by (simp add: i_def a_def)
  have w: "store_wf h2" "stored h2 (used_data h1) k v" "\<And>d k' v'. stored h1 d k' v' \<Longrightarrow> stored h2 d k' v'"
    unfolding h2_def using pair_written_wf [OF o(1,2)] pair_written_stored [OF o(1,2) _ len] o(3) p [unfolded i_def] sz by simp_all
  have "length (data_chunks h1 ! c) = chunk_size h" using o(1,2) sz by (auto simp: store_wf_def)
  then have fits: "i + 10 + length k + length v \<le> length (data_chunks h1 ! c)" using o(4) by (simp add: a_def i_def)
  have c': "drop_bit (chunk_bits h) (used_data h + (2 * INDEX_SIZE + length k + length v)) = c"
    using h by (simp add: c_def a_def INDEX_SIZE_def drop_bit_eq_div store_wf_def)
  have i': "used_data h1 AND chunk_mask h1 = i" using h by (simp add: i_def sz store_wf_def and_size_minus_1)
  have n: "2 * INDEX_SIZE + length k + length v < chunk_size h" using a_less by (simp add: INDEX_SIZE_def)
  let ?F = "\<lambda>chunk value_index. Ok (h1\<lparr>data_chunks := (data_chunks h1)[c := chunk],
      used_data := used_data h1 + (value_index + length v - i)\<rparr>, used_data h1)"
  have "new_data h k v = bind_result (write_len (data_chunks h1 ! c) i (length k)) (\<lambda>(chunk, n).
     bind_result (copy_into chunk (i + n) k) (\<lambda>chunk.
     bind_result (write_len chunk (i + n + length k) (length v)) (\<lambda>(chunk, m).
     bind_result (copy_into chunk (i + n + length k + m) v) (\<lambda>chunk. ?F chunk (i + n + length k + m)))))"
    using n o(2) by (simp add: new_data_def c' i' h1_def [symmetric] Let_def)
  also have "\<dots> = ?F (put (data_chunks h1 ! c) i (pair_bytes k v)) (i + length (enc_len (length k)) + length k + length (enc_len (length v)))"
    by (rule write_pair [OF len fits])
  also have "\<dots> = Ok (h2, used_data h1)"
    by (simp add: h2_def pair_written_def pair_bytes_def sz add.assoc i_def)
  finally have "new_data h k v = Ok (h2, used_data h1)" .
  moreover have "h2 = h\<lparr>data_chunks := data_chunks h2, used_data := used_data h2\<rparr>"
    by (simp add: h2_def h1_def pair_written_def open_chunk_def)
  moreover have "used_data h2 \<le> used_data h + 2 * a" "used_data h1 \<le> used_data h2"
    using length_pair_bytes [OF len] o(6) by (simp_all add: h2_def a_def)
  moreover have "data_chunks h2 \<noteq> []" using o(2) by (auto simp: h2_def)
  ultimately show thesis using w o(7) by (intro that [of h2 "used_data h1"]) (auto simp: a_def)
qed


subsection \<open>Probing\<close>

definition occupied :: "entry \<Rightarrow> bool" where
  "occupied e \<longleftrightarrow> read_index e \<noteq> 0"

text \<open>The \<open>j\<close>-th entry a probe for a key looks at.\<close>

definition slot :: "lookup_htbl \<Rightarrow> bytes \<Rightarrow> nat \<Rightarrow> nat" where
  "slot h k j = (reduce (hash k (hash_secret h)) (length (table h)) + j) mod length (table h)"

definition key_at :: "lookup_htbl \<Rightarrow> nat \<Rightarrow> bytes \<Rightarrow> bool" where
  "key_at h i k \<longleftrightarrow> i < length (table h) \<and> (\<exists>v. stored h (read_index (table h ! i)) k v)"

text \<open>An entry of the table is right for a key: its hash byte, and no free entry on the way to it.\<close>

definition placed :: "lookup_htbl \<Rightarrow> nat \<Rightarrow> bytes \<Rightarrow> bool" where
  "placed h i k \<longleftrightarrow> hash_byte (table h ! i) = hash_byte_of k (hash_secret h) \<and>
     (\<exists>j < length (table h). slot h k j = i \<and> (\<forall>m < j. occupied (table h ! slot h k m)))"

definition entry_ok :: "lookup_htbl \<Rightarrow> nat \<Rightarrow> bool" where
  "entry_ok h i \<longleftrightarrow>
     (if occupied (table h ! i) then \<exists>k v. stored h (read_index (table h ! i)) k v \<and> placed h i k
      else hash_byte (table h ! i) = 0)"

definition table_wf :: "lookup_htbl \<Rightarrow> bool" where
  "table_wf h \<longleftrightarrow> store_wf h \<and> length (table h) < 2 ^ 64 \<and>
     (\<forall>i < length (table h). entry_ok h i) \<and>
     (\<forall>i j k. key_at h i k \<longrightarrow> key_at h j k \<longrightarrow> i = j) \<and>
     (\<exists>i < length (table h). \<not> occupied (table h ! i))"

lemma occupied_entry:
  assumes "table_wf h" "i < length (table h)" "occupied (table h ! i)"
  obtains k v where "stored h (read_index (table h ! i)) k v" "placed h i k"
proof -
  have "entry_ok h i" using assms by (simp add: table_wf_def)
  with assms(3) that show thesis by (auto simp: entry_ok_def)
qed

lemma key_at_unique: "table_wf h \<Longrightarrow> key_at h i k \<Longrightarrow> key_at h j k \<Longrightarrow> j = i"
  unfolding table_wf_def by blast

lemma stored_unique:
  assumes "store_wf h" "stored h d k v" "stored h d k' v'"
  shows "k' = k" "v' = v"
  using read_stored [OF assms(1,2)] read_stored [OF assms(1,3)] by simp_all

lemma stored_occupied: "stored h (read_index e) k v \<Longrightarrow> occupied e"
  by (simp add: stored_def occupied_def)

lemma reduce_less: "0 < n \<Longrightarrow> n < 2 ^ 64 \<Longrightarrow> reduce w n < n"
proof -
  assume n: "0 < n" "n < 2 ^ 64"
  have "unat w * n < 2 ^ 64 * n" using n by (simp add: unsigned_less [of w, simplified])
  also have "\<dots> \<le> 2 ^ 64 * 2 ^ 64" using n by simp
  finally have "unat w * n < 2 ^ 128" by simp
  then have "unat ((ucast w :: u128) * of_nat n) = unat w * n"
    using n by (simp add: unat_word_ariths unat_of_nat unat_ucast_up)
  then have "unat (drop_bit 64 ((ucast w :: u128) * of_nat n)) = unat w * n div 2 ^ 64"
    by (simp only: unat_drop_bit)
  moreover have "unat w * n div 2 ^ 64 < n"
    using \<open>unat w * n < 2 ^ 64 * n\<close> by (simp add: less_mult_imp_div_less mult.commute)
  ultimately show ?thesis
    using n by (simp add: reduce_def unat_ucast)
qed

lemma slot_less: "table h \<noteq> [] \<Longrightarrow> slot h k j < length (table h)"
  by (simp add: slot_def)

lemma next_slot: "table h \<noteq> [] \<Longrightarrow> next_table_index h (slot h k j) = slot h k (Suc j)"
  by (simp add: next_table_index_def slot_def mod_Suc)

lemma slot_onto:
  assumes "i < length (table h)"
  obtains j where "j < length (table h)" "slot h k j = i"
proof
  let ?n = "length (table h)" and ?r = "reduce (hash k (hash_secret h)) (length (table h))"
  have "0 < ?n" using assms by linarith
  then show "(i + ?n - ?r mod ?n) mod ?n < ?n" by (rule mod_less_divisor)
  have "?r mod ?n < ?n" using \<open>0 < ?n\<close> by (rule mod_less_divisor)
  then have "?r + (i + ?n - ?r mod ?n) = i + ?n + ?n * (?r div ?n)" using mult_div_mod_eq [of ?n ?r] by linarith
  then have "(?r + (i + ?n - ?r mod ?n)) mod ?n = i" using assms by simp
  then show "slot h k ((i + ?n - ?r mod ?n) mod ?n) = i" by (simp add: slot_def mod_add_right_eq)
qed

text \<open>One round of the probe at an entry of another key, of no key, and of the key itself.\<close>

lemma lookup_loop_other:
  assumes "table_wf h" "i < length (table h)" "occupied (table h ! i)" "\<not> key_at h i k"
  shows "lookup_loop h k b i = lookup_loop h k b (next_table_index h i)"
proof -
  from assms(1-3) obtain k' v' where s: "stored h (read_index (table h ! i)) k' v'" by (rule occupied_entry)
  with assms(1) have "read_key h (read_index (table h ! i)) = Ok k'" using read_stored(1) by (simp add: table_wf_def)
  moreover have "k' \<noteq> k" using assms(2,4) s by (auto simp: key_at_def)
  ultimately show ?thesis
    using assms(2,3) by (subst lookup_loop.simps) (auto simp: occupied_def Let_def)
qed

lemma lookup_loop_free:
  assumes "table_wf h" "i < length (table h)" "\<not> occupied (table h ! i)"
  shows "lookup_loop h k b i = Some (Ok (NotFound i b))"
proof -
  from assms have "hash_byte (table h ! i) = 0" by (simp add: table_wf_def entry_ok_def)
  with assms(2,3) show ?thesis by (subst lookup_loop.simps) (simp add: occupied_def)
qed

lemma lookup_loop_found:
  assumes wf: "table_wf h" and k: "key_at h i k"
  shows "lookup_loop h k (hash_byte_of k (hash_secret h)) i = Some (Ok (Found i (read_index (table h ! i))))"
proof -
  from k obtain v where i: "i < length (table h)" and s: "stored h (read_index (table h ! i)) k v"
    by (auto simp: key_at_def)
  have o: "occupied (table h ! i)" using s by (rule stored_occupied)
  with wf i obtain k' v' where "stored h (read_index (table h ! i)) k' v'" "placed h i k'" by (rule occupied_entry)
  with s wf have "placed h i k" using stored_unique by (metis table_wf_def)
  with wf s o i show ?thesis
    using read_stored(1) [of h _ k v] by (subst lookup_loop.simps) (simp add: placed_def table_wf_def occupied_def)
qed

lemma lookup_loop_skip:
  assumes "table_wf h" "table h \<noteq> []" "j \<le> n"
    "\<forall>m < n. occupied (table h ! slot h k m) \<and> \<not> key_at h (slot h k m) k"
  shows "lookup_loop h k b (slot h k j) = lookup_loop h k b (slot h k n)"
  using assms(3)
proof (induction rule: inc_induct)
  case (step m)
  with assms show ?case using lookup_loop_other [of h "slot h k m" k b] by (simp add: slot_less next_slot)
qed simp

text \<open>A probe ends, at the entry of its key or else at the first free entry on its way.\<close>

lemma lookup_outcome:
  assumes wf: "table_wf h"
  obtains (found) i where "key_at h i k" "lookup h k = Some (Ok (Found i (read_index (table h ! i))))"
    | (absent) j where "j < length (table h)" "\<forall>i. \<not> key_at h i k" "\<not> occupied (table h ! slot h k j)"
      "\<forall>m < j. occupied (table h ! slot h k m)" "lookup h k = Some (Ok (NotFound (slot h k j) (hash_byte_of k (hash_secret h))))"
proof -
  let ?b = "hash_byte_of k (hash_secret h)" and ?stop = "\<lambda>j. \<not> occupied (table h ! slot h k j) \<or> key_at h (slot h k j) k"
  from wf obtain f where f: "f < length (table h)" "\<not> occupied (table h ! f)" by (auto simp: table_wf_def)
  then have ne: "table h \<noteq> []" by auto
  from slot_onto [OF f(1)] obtain j0 where j0: "j0 < length (table h)" "slot h k j0 = f" by blast
  define n where "n = (LEAST j. ?stop j)"
  have stop: "?stop n" unfolding n_def by (rule LeastI [of _ j0]) (use f j0 in simp)
  have "n \<le> j0" unfolding n_def by (rule Least_le) (use f j0 in simp)
  have before: "occupied (table h ! slot h k m) \<and> \<not> key_at h (slot h k m) k" if "m < n" for m
    using not_less_Least [OF that [unfolded n_def]] by blast
  have "reduce (hash k (hash_secret h)) (length (table h)) = slot h k 0"
    using reduce_less [of "length (table h)"] wf ne by (simp add: slot_def table_wf_def)
  then have l: "lookup h k = lookup_loop h k ?b (slot h k n)"
    using lookup_loop_skip [OF wf ne, of 0 n k ?b] before ne by (simp add: lookup_def)
  show thesis
  proof (cases "key_at h (slot h k n) k")
    case True
    with lookup_loop_found [OF wf True] l found show thesis by simp
  next
    case False
    with stop have fr: "\<not> occupied (table h ! slot h k n)" by simp
    have "\<not> key_at h i k" for i
    proof
      assume i: "key_at h i k"
      then obtain v where v: "i < length (table h)" "stored h (read_index (table h ! i)) k v" by (auto simp: key_at_def)
      from wf v(1) stored_occupied [OF v(2)] obtain k' v' where "stored h (read_index (table h ! i)) k' v'" "placed h i k'"
        by (rule occupied_entry)
      with v wf have "placed h i k" using stored_unique by (metis table_wf_def)
      then obtain j where j: "slot h k j = i" "\<forall>m < j. occupied (table h ! slot h k m)" by (auto simp: placed_def)
      show False
      proof (cases "j \<le> n")
        case True
        with before [of j] i j False show False by (cases "j = n") auto
      next
        case False
        with j fr show False by auto
      qed
    qed
    with absent [of n] lookup_loop_free [OF wf slot_less [OF ne] fr] l fr before \<open>n \<le> j0\<close> j0(1) show thesis by simp
  qed
qed


subsection \<open>Updates of the table\<close>

text \<open>The pairs in the table.\<close>

definition holds :: "lookup_htbl \<Rightarrow> bytes \<Rightarrow> bytes \<Rightarrow> bool" where
  "holds h k v \<longleftrightarrow> (\<exists>i < length (table h). stored h (read_index (table h ! i)) k v)"

lemma store_frame [simp]:
  "stored (h\<lparr>table := t\<rparr>) = stored h" "stored (h\<lparr>used_entries := n\<rparr>) = stored h" "stored (h\<lparr>max_entries := n\<rparr>) = stored h"
  "store_wf (h\<lparr>table := t\<rparr>) = store_wf h" "store_wf (h\<lparr>used_entries := n\<rparr>) = store_wf h" "store_wf (h\<lparr>max_entries := n\<rparr>) = store_wf h"
  by (auto simp: stored_def store_wf_def fun_eq_iff)

lemma table_frame [simp]:
  "table_wf (h\<lparr>used_entries := n\<rparr>) = table_wf h" "table_wf (h\<lparr>max_entries := n\<rparr>) = table_wf h"
  "holds (h\<lparr>used_entries := n\<rparr>) = holds h" "holds (h\<lparr>max_entries := n\<rparr>) = holds h"
  by (auto simp: table_wf_def entry_ok_def placed_def key_at_def slot_def holds_def fun_eq_iff cong: if_cong)

lemma slot_frame: "length t = length (table h) \<Longrightarrow> slot (h\<lparr>table := t\<rparr>) = slot h"
  by (simp add: slot_def fun_eq_iff)

lemma length_filter_update:
  "i < length xs \<Longrightarrow> length (filter P (xs[i := x])) + (if P (xs ! i) then 1 else 0) = length (filter P xs) + (if P x then 1 else 0)"
proof (induction xs arbitrary: i)
  case (Cons y ys)
  show ?case
  proof (cases i)
    case (Suc i')
    with Cons.IH [of i'] Cons.prems show ?thesis by simp
  qed simp
qed simp

lemma length_filter_free: "length (filter P xs) < length xs \<Longrightarrow> \<exists>i < length xs. \<not> P (xs ! i)"
  by (metis filter_True in_set_conv_nth less_irrefl)

text \<open>The entry \<open>e\<close> for a key can take the place \<open>i\<close>: it is on the way of the probe, and no other place has the key.\<close>

definition fits_at :: "lookup_htbl \<Rightarrow> nat \<Rightarrow> entry \<Rightarrow> bytes \<Rightarrow> bytes \<Rightarrow> bool" where
  "fits_at h i e k v \<longleftrightarrow> i < length (table h) \<and> stored h (read_index e) k v \<and>
     hash_byte e = hash_byte_of k (hash_secret h) \<and>
     (\<exists>j < length (table h). slot h k j = i \<and> (\<forall>m < j. occupied (table h ! slot h k m))) \<and>
     (\<forall>x. key_at h x k \<longrightarrow> x = i) \<and> (occupied (table h ! i) \<longrightarrow> key_at h i k)"

lemma key_at_put:
  assumes wf: "table_wf h" and f: "fits_at h i e k v"
  shows "key_at (h\<lparr>table := (table h)[i := e]\<rparr>) x k' \<longleftrightarrow> (if x = i then k' = k else key_at h x k')"
proof -
  have "stored h (read_index e) k' v' \<longleftrightarrow> k' = k \<and> v' = v" for v'
    using f wf stored_unique [of h "read_index e" k v k' v'] by (auto simp: fits_at_def table_wf_def)
  with f show ?thesis by (auto simp: key_at_def fits_at_def)
qed

lemma placed_put:
  assumes "fits_at h i e k v" "x < length (table h)" "if x = i then k' = k else placed h x k'"
  shows "placed (h\<lparr>table := (table h)[i := e]\<rparr>) x k'"
proof -
  have "occupied e" using assms(1) stored_occupied by (auto simp: fits_at_def)
  then have mono: "occupied ((table h)[i := e] ! y)" if "y < length (table h)" "occupied (table h ! y)" for y
    using that by (cases "y = i") simp_all
  have "table h \<noteq> []" using assms(2) by auto
  then have sl: "slot h k2 m < length (table h)" for k2 m by (rule slot_less)
  have b: "hash_byte ((table h)[i := e] ! x) = hash_byte_of k' (hash_secret h)"
    using assms by (cases "x = i") (simp_all add: placed_def fits_at_def)
  from assms obtain j where "j < length (table h)" "slot h k' j = x" "\<forall>m < j. occupied (table h ! slot h k' m)"
    by (cases "x = i") (auto simp: placed_def fits_at_def)
  with mono sl have "\<exists>j < length (table h). slot h k' j = x \<and> (\<forall>m < j. occupied ((table h)[i := e] ! slot h k' m))" by blast
  with b show ?thesis by (simp add: placed_def slot_frame)
qed

lemma table_put_wf:
  assumes wf: "table_wf h" and f: "fits_at h i e k v" and free: "x < length (table h)" "x \<noteq> i" "\<not> occupied (table h ! x)"
  shows "table_wf (h\<lparr>table := (table h)[i := e]\<rparr>)"
proof -
  let ?h = "h\<lparr>table := (table h)[i := e]\<rparr>"
  have "entry_ok ?h y" if y: "y < length (table h)" for y
  proof (cases "y = i")
    case True
    with f y have "stored h (read_index (table ?h ! y)) k v" by (simp add: fits_at_def)
    moreover have "placed ?h y k" using placed_put [OF f y] True by simp
    ultimately show ?thesis using stored_occupied by (auto simp: entry_ok_def)
  next
    case False
    then have t: "table ?h ! y = table h ! y" by simp
    show ?thesis
    proof (cases "occupied (table h ! y)")
      case True
      with wf y obtain k2 v2 where "stored h (read_index (table h ! y)) k2 v2" "placed h y k2" by (rule occupied_entry)
      with placed_put [OF f y, of k2] False t True show ?thesis by (auto simp: entry_ok_def)
    next
      case False
      with wf y t show ?thesis by (simp add: table_wf_def entry_ok_def)
    qed
  qed
  moreover have "\<forall>x y k. key_at ?h x k \<longrightarrow> key_at ?h y k \<longrightarrow> x = y"
    using wf f unfolding key_at_put [OF wf f] by (auto simp: table_wf_def fits_at_def split: if_splits)
  moreover have "\<not> occupied (table ?h ! x)" using free by simp
  ultimately show ?thesis using wf free(1) unfolding table_wf_def by auto
qed

lemma holds_put:
  assumes wf: "table_wf h" and f: "fits_at h i e k v"
  shows "holds (h\<lparr>table := (table h)[i := e]\<rparr>) k' v' \<longleftrightarrow> (if k' = k then v' = v else holds h k' v')"
proof -
  have i: "i < length (table h)" using f by (simp add: fits_at_def)
  have e: "stored h (read_index e) k' v' \<longleftrightarrow> k' = k \<and> v' = v"
    using f wf stored_unique [of h "read_index e" k v k' v'] by (auto simp: fits_at_def table_wf_def)
  have other: "x = i" if "x < length (table h)" "stored h (read_index (table h ! x)) k v2" for x v2
    using f that by (auto simp: fits_at_def key_at_def)
  have own: "k2 = k" if st: "stored h (read_index (table h ! i)) k2 v2" for k2 v2
  proof -
    from f stored_occupied [OF st] have "key_at h i k" by (simp add: fits_at_def)
    then obtain v3 where "stored h (read_index (table h ! i)) k v3" by (auto simp: key_at_def)
    with wf st show ?thesis using stored_unique(1) [of h _ k v3 k2 v2] by (simp add: table_wf_def)
  qed
  have "holds (h\<lparr>table := (table h)[i := e]\<rparr>) k' v' \<longleftrightarrow>
      k' = k \<and> v' = v \<or> (\<exists>x < length (table h). x \<noteq> i \<and> stored h (read_index (table h ! x)) k' v')"
    (is "_ \<longleftrightarrow> _ \<or> ?rest")
  proof
    assume "holds (h\<lparr>table := (table h)[i := e]\<rparr>) k' v'"
    then obtain x where "x < length (table h)" "stored h (read_index ((table h)[i := e] ! x)) k' v'" by (auto simp: holds_def)
    with e show "k' = k \<and> v' = v \<or> ?rest" by (cases "x = i") auto
  next
    assume "k' = k \<and> v' = v \<or> ?rest"
    then show "holds (h\<lparr>table := (table h)[i := e]\<rparr>) k' v'"
    proof
      assume "k' = k \<and> v' = v"
      with e i show ?thesis by (auto simp: holds_def intro!: exI [of _ i])
    next
      assume ?rest
      then obtain x where "x < length (table h)" "x \<noteq> i" "stored h (read_index (table h ! x)) k' v'" by blast
      then show ?thesis by (auto simp: holds_def intro!: exI [of _ x])
    qed
  qed
  also have "\<dots> \<longleftrightarrow> (if k' = k then v' = v else holds h k' v')"
    using other own unfolding holds_def by metis
  finally show ?thesis .
qed

text \<open>More data leaves the table as it is.\<close>

lemma data_added:
  assumes wf: "table_wf h" and h': "store_wf h'" "\<forall>d k v. stored h d k v \<longrightarrow> stored h' d k v"
    and t: "table h' = table h" "hash_secret h' = hash_secret h"
  shows "table_wf h'" "holds h' = holds h" "\<And>i k. key_at h' i k \<longleftrightarrow> key_at h i k"
proof -
  have same: "stored h' (read_index (table h ! i)) k v \<longleftrightarrow> stored h (read_index (table h ! i)) k v"
    if i: "i < length (table h)" for i k v
  proof
    assume s: "stored h' (read_index (table h ! i)) k v"
    from wf i stored_occupied [OF s] obtain k2 v2 where k2: "stored h (read_index (table h ! i)) k2 v2"
      by (rule occupied_entry)
    with h'(2) have "stored h' (read_index (table h ! i)) k2 v2" by blast
    from stored_unique [OF h'(1) s this] k2 show "stored h (read_index (table h ! i)) k v" by simp
  qed (use h' in blast)
  show "holds h' = holds h" using same by (auto simp: holds_def t fun_eq_iff)
  show k: "key_at h' i k \<longleftrightarrow> key_at h i k" for i k using same by (auto simp: key_at_def t)
  have pl: "placed h' i k = placed h i k" for i k by (simp add: placed_def slot_def t)
  have "entry_ok h' i \<longleftrightarrow> entry_ok h i" if "i < length (table h)" for i
    using same [OF that] by (simp add: entry_ok_def t pl)
  with wf h'(1) k show "table_wf h'" by (simp add: table_wf_def t)
qed

text \<open>A free entry takes a new key, and the entry of a key takes another pair with the same key.\<close>

lemma fits_free:
  assumes "j < length (table h)" "\<forall>i. \<not> key_at h i k" "\<not> occupied (table h ! slot h k j)"
    "\<forall>m < j. occupied (table h ! slot h k m)" "stored h d k v" "d < 2 ^ 40"
  shows "fits_at h (slot h k j) (write_index ((table h ! slot h k j)\<lparr>hash_byte := hash_byte_of k (hash_secret h)\<rparr>) d) k v"
proof -
  have "table h \<noteq> []" using assms(1) by auto
  with assms show ?thesis by (auto simp: fits_at_def slot_less read_write_index)
qed

lemma fits_own:
  assumes wf: "table_wf h" and k: "key_at h i k" and s: "stored h d k v" "d < 2 ^ 40"
  shows "fits_at h i (write_index (table h ! i) d) k v"
proof -
  from k obtain v2 where i: "i < length (table h)" and v2: "stored h (read_index (table h ! i)) k v2"
    by (auto simp: key_at_def)
  from wf i stored_occupied [OF v2] obtain k3 v3 where k3: "stored h (read_index (table h ! i)) k3 v3" "placed h i k3"
    by (rule occupied_entry)
  have "store_wf h" using wf by (simp add: table_wf_def)
  from stored_unique(1) [OF this v2 k3(1)] k3(2) have "placed h i k" by simp
  note p = this [unfolded placed_def]
  have "read_index (write_index (table h ! i) d) = d" by (rule read_write_index [OF s(2)])
  moreover have "\<forall>x. key_at h x k \<longrightarrow> x = i" using key_at_unique [OF wf k] by blast
  ultimately show ?thesis unfolding fits_at_def hash_byte_write_index using i k s(1) p by metis
qed

lemma free_besides:
  assumes "length (filter P xs) + 1 < length xs"
  shows "\<exists>x < length xs. x \<noteq> i \<and> \<not> P (xs ! x)"
proof (rule ccontr)
  assume "\<not> ?thesis"
  then have "{..<length xs} - {i} \<subseteq> {x. x < length xs \<and> P (xs ! x)}" by auto
  then have "card ({..<length xs} - {i}) \<le> length (filter P xs)"
    unfolding length_filter_conv_card by (rule card_mono [rotated]) simp
  with diff_card_le_card_Diff [of "{i}" "{..<length xs}"] assms show False by simp
qed

lemma stored_index_less: "stored h d k v \<Longrightarrow> used_data h \<le> 2 ^ 40 \<Longrightarrow> d < 2 ^ 40"
  by (auto simp: stored_def pair_bytes_def enc_len_def)

definition new_entry :: "lookup_htbl \<Rightarrow> nat \<Rightarrow> bytes \<Rightarrow> nat \<Rightarrow> entry list" where
  "new_entry h i k d = (table h)[i := write_index ((table h ! i)\<lparr>hash_byte := hash_byte_of k (hash_secret h)\<rparr>) d]"

lemma put_new_key:
  assumes wf: "table_wf h" and new: "\<forall>i. \<not> key_at h i k" and s: "stored h d k v" and d: "d < 2 ^ 40"
    and room: "length (filter occupied (table h)) + 1 < length (table h)"
  obtains i where "i < length (table h)" "lookup h k = Some (Ok (NotFound i (hash_byte_of k (hash_secret h))))"
    "table_wf (h\<lparr>table := new_entry h i k d\<rparr>)"
    "\<forall>k' v'. holds (h\<lparr>table := new_entry h i k d\<rparr>) k' v' \<longleftrightarrow> (if k' = k then v' = v else holds h k' v')"
    "\<forall>x k'. key_at (h\<lparr>table := new_entry h i k d\<rparr>) x k' \<longleftrightarrow> (if x = i then k' = k else key_at h x k')"
    "length (filter occupied (new_entry h i k d)) = Suc (length (filter occupied (table h)))"
proof (cases rule: lookup_outcome [OF wf, of k, case_names found absent])
  case (found i)
  with new show ?thesis by blast
next
  case (absent j)
  let ?i = "slot h k j"
  note f = fits_free [OF absent(1-4) s d]
  obtain x where x: "x < length (table h)" "x \<noteq> ?i" "\<not> occupied (table h ! x)"
    using free_besides [OF room] by blast
  have i: "?i < length (table h)" using f by (simp add: fits_at_def)
  show thesis
  proof (rule that [OF i absent(5)])
    show "table_wf (h\<lparr>table := new_entry h ?i k d\<rparr>)"
      unfolding new_entry_def by (rule table_put_wf [OF wf f x])
    show "\<forall>k' v'. holds (h\<lparr>table := new_entry h ?i k d\<rparr>) k' v' \<longleftrightarrow> (if k' = k then v' = v else holds h k' v')"
      unfolding new_entry_def holds_put [OF wf f] by simp
    show "\<forall>x k'. key_at (h\<lparr>table := new_entry h ?i k d\<rparr>) x k' \<longleftrightarrow> (if x = ?i then k' = k else key_at h x k')"
      unfolding new_entry_def key_at_put [OF wf f] by simp
    show "length (filter occupied (new_entry h ?i k d)) = Suc (length (filter occupied (table h)))"
      using length_filter_update [OF i, of occupied] absent(3) stored_occupied [of h] s d
      unfolding new_entry_def by (simp add: occupied_def read_write_index stored_def)
  qed
qed

text \<open>The loop that fills the new table.\<close>

definition no_shared_key :: "lookup_htbl \<Rightarrow> entry \<Rightarrow> entry \<Rightarrow> bool" where
  "no_shared_key h e e' \<longleftrightarrow> (\<forall>k v v'. stored h (read_index e) k v \<longrightarrow> \<not> stored h (read_index e') k v')"

lemma no_shared_key_frame [simp]: "no_shared_key (h\<lparr>table := t\<rparr>) = no_shared_key h"
  by (simp add: no_shared_key_def fun_eq_iff)

text \<open>The entries that are still to be put into the table: their keys are stored, not yet in the table, and different.\<close>

definition pending :: "lookup_htbl \<Rightarrow> entry list \<Rightarrow> bool" where
  "pending h es \<longleftrightarrow> sorted_wrt (no_shared_key h) es \<and>
     (\<forall>e \<in> set es. occupied e \<longrightarrow> (\<exists>k v. stored h (read_index e) k v \<and> (\<forall>i. \<not> key_at h i k)))"

lemma pending_step:
  assumes p: "pending h (e # es)" and s: "stored h (read_index e) k v"
    and ka: "\<forall>x k'. key_at (h\<lparr>table := t\<rparr>) x k' \<longleftrightarrow> (if x = i then k' = k else key_at h x k')"
  shows "pending (h\<lparr>table := t\<rparr>) es"
proof -
  have "\<exists>k v. stored h (read_index e') k v \<and> (\<forall>x. \<not> key_at (h\<lparr>table := t\<rparr>) x k)" if e': "e' \<in> set es" "occupied e'" for e'
  proof -
    from p e' obtain k' v' where k': "stored h (read_index e') k' v'" "\<forall>i. \<not> key_at h i k'" unfolding pending_def by auto
    moreover have "k' \<noteq> k" using p e'(1) s k'(1) by (auto simp: pending_def no_shared_key_def)
    ultimately show ?thesis using ka by (intro exI [of _ k'] exI [of _ v']) simp
  qed
  with p show ?thesis by (simp add: pending_def)
qed

lemma rehash_ok:
  assumes "table_wf h" "used_data h \<le> 2 ^ 40" "pending h es"
    "length (filter occupied (table h)) + length (filter occupied es) < length (table h)"
  shows "\<exists>t. rehash h es = Some (Ok (h\<lparr>table := t\<rparr>)) \<and> length t = length (table h) \<and> table_wf (h\<lparr>table := t\<rparr>) \<and>
    length (filter occupied t) = length (filter occupied (table h)) + length (filter occupied es) \<and>
    (\<forall>k v. holds (h\<lparr>table := t\<rparr>) k v \<longleftrightarrow> holds h k v \<or> (\<exists>e \<in> set es. stored h (read_index e) k v))"
  using assms
proof (induction es arbitrary: h)
  case Nil
  then show ?case by (intro exI [of _ "table h"]) simp
next
  case (Cons e es)
  have sw: "store_wf h" using Cons.prems(1) by (simp add: table_wf_def)
  show ?case
  proof (cases "occupied e")
    case False
    then have e: "\<not> stored h (read_index e) k v" for k v using stored_occupied by blast
    have r: "rehash h (e # es) = rehash h es" using False by (simp add: occupied_def)
    have "pending h es" using Cons.prems(3) by (simp add: pending_def)
    from Cons.IH [OF Cons.prems(1,2) this] Cons.prems(4) False show ?thesis unfolding r by (simp add: e)
  next
    case True
    with Cons.prems(3) obtain k v where s: "stored h (read_index e) k v" and new: "\<forall>i. \<not> key_at h i k"
      by (auto simp: pending_def)
    have "length (filter occupied (table h)) + 1 < length (table h)" using Cons.prems(4) True by simp
    from put_new_key [OF Cons.prems(1) new s stored_index_less [OF s Cons.prems(2)] this] obtain i where
      i: "i < length (table h)" "lookup h k = Some (Ok (NotFound i (hash_byte_of k (hash_secret h))))"
      and wf: "table_wf (h\<lparr>table := new_entry h i k (read_index e)\<rparr>)"
      and ho: "\<forall>k' v'. holds (h\<lparr>table := new_entry h i k (read_index e)\<rparr>) k' v' \<longleftrightarrow> (if k' = k then v' = v else holds h k' v')"
      and ka: "\<forall>x k'. key_at (h\<lparr>table := new_entry h i k (read_index e)\<rparr>) x k' \<longleftrightarrow> (if x = i then k' = k else key_at h x k')"
      and cnt: "length (filter occupied (new_entry h i k (read_index e))) = Suc (length (filter occupied (table h)))" by blast
    define t where "t = new_entry h i k (read_index e)"
    have lt: "length t = length (table h)" by (simp add: t_def new_entry_def)
    have r: "rehash h (e # es) = rehash (h\<lparr>table := t\<rparr>) es"
      using True read_stored(1) [OF sw s] i(2) by (simp add: occupied_def t_def new_entry_def)
    have "pending (h\<lparr>table := t\<rparr>) es" using pending_step [OF Cons.prems(3) s ka] by (simp add: t_def)
    with Cons.IH [of "h\<lparr>table := t\<rparr>"] wf cnt Cons.prems(2,4) True lt obtain t' where
      t': "rehash (h\<lparr>table := t\<rparr>) es = Some (Ok (h\<lparr>table := t'\<rparr>))" "length t' = length t" "table_wf (h\<lparr>table := t'\<rparr>)"
      "length (filter occupied t') = length (filter occupied t) + length (filter occupied es)"
      "\<forall>k v. holds (h\<lparr>table := t'\<rparr>) k v \<longleftrightarrow> holds (h\<lparr>table := t\<rparr>) k v \<or> (\<exists>e \<in> set es. stored h (read_index e) k v)"
      unfolding t_def [symmetric] by auto
    have "\<not> holds h k v'" for v' using new by (auto simp: holds_def key_at_def)
    then have ho': "holds (h\<lparr>table := t\<rparr>) k' v' \<longleftrightarrow> holds h k' v' \<or> stored h (read_index e) k' v'" for k' v'
      using ho stored_unique [OF sw s, of k' v'] s unfolding t_def by auto
    show ?thesis unfolding r t'(1)
      using t'(2-5) cnt [folded t_def] True by (intro exI [of _ t']) (simp add: ho' lt disj_assoc)
  qed
qed


subsection \<open>The table is a map\<close>

text \<open>
  The invariant: the table was not reserved yet, or at most \<open>max_entries\<close> of its entries are in
  use, which is less than the table has, so that every probe finds a free entry.
\<close>

definition htbl_ready :: "lookup_htbl \<Rightarrow> bool" where
  "htbl_ready h \<longleftrightarrow> table_wf h \<and> used_entries h = length (filter occupied (table h)) \<and> used_entries h \<le> max_entries h \<and>
     max_entries h < length (table h) \<and> length (table h) \<le> 2 * max_entries h"

definition htbl_wf :: "lookup_htbl \<Rightarrow> bool" where
  "htbl_wf h \<longleftrightarrow> table h = [] \<and> used_entries h = 0 \<or> htbl_ready h"

lemma htbl_default_wf: "htbl_wf htbl_default"
  by (simp add: htbl_wf_def htbl_default_def)

lemma ilog2_bounds: "0 < n \<Longrightarrow> 2 ^ ilog2 n \<le> n \<and> n < 2 ^ Suc (ilog2 n)"
proof (induction n rule: ilog2.induct)
  case (1 n)
  show ?case
  proof (cases "n < 2")
    case False
    with 1 have "2 ^ ilog2 (n div 2) \<le> n div 2" "n div 2 < 2 ^ Suc (ilog2 (n div 2))" by auto
    then have "2 * 2 ^ ilog2 (n div 2) \<le> n" "n < 2 * 2 ^ Suc (ilog2 (n div 2))" by linarith+
    with False show ?thesis by (simp add: ilog2.simps [of n])
  qed (use 1 in \<open>simp add: ilog2.simps [of n]\<close>)
qed

lemma ilog2_power [simp]: "ilog2 (2 ^ k) = k"
  by (induction k) (subst ilog2.simps, simp)+

lemma next_power_of_two_ok:
  assumes "n \<le> 2 ^ m"
  shows "\<exists>k \<le> m. next_power_of_two n = 2 ^ k"
proof (cases "n \<le> 1")
  case True
  then show ?thesis by (auto simp: next_power_of_two_def intro: exI [of _ 0])
next
  case False
  then have "2 ^ ilog2 (n - 1) \<le> n - 1" using ilog2_bounds [of "n - 1"] by simp
  also have "n - 1 < 2 ^ m" using assms False by simp
  finally have "ilog2 (n - 1) < m" by simp
  with False show ?thesis by (auto simp: next_power_of_two_def intro!: exI [of _ "Suc (ilog2 (n - 1))"])
qed

lemma reserve_ok:
  assumes "used_entries h = 0" "n \<le> 2 ^ 29" "secret \<noteq> 0"
  obtains h' where "htbl_reserve h n secret = Some (Ok h')" "htbl_wf h'" "\<forall>k v. \<not> holds h' k v" "used_data h' = 1"
    "used_entries h' = 0" "0 < n \<longrightarrow> htbl_ready h' \<and> max_entries h' = n" "data_chunks h' = []"
proof -
  let ?a = "(5 * n + 1) div 3"
  have a: "((5 * n + 1) mod 2 ^ 64) div 3 = ?a" "?a \<le> 2 ^ 30" using assms(2) by auto
  obtain m where m: "m \<le> 30" "next_power_of_two ?a = 2 ^ m" using next_power_of_two_ok [OF a(2)] by blast
  define b where "b = (if m < 21 then 21 else m)"
  have p: "(2 :: nat) ^ m < 2 ^ 21 \<longleftrightarrow> m < 21" by (rule power_strict_increasing_iff) simp
  have b: "(if next_power_of_two ?a < 2 ^ 21 then 2 ^ 21 else next_power_of_two ?a) = 2 ^ b" "21 \<le> b" "b \<le> 30"
    unfolding m(2) p b_def using m(1) by simp_all
  define h' where "h' = h\<lparr>max_entries := n, table := replicate ?a entry_default, data_chunks := [],
            used_data := 1, used_entries := 0, hash_secret := secret,
            chunk_size := 2 ^ b, chunk_mask := 2 ^ b - 1, chunk_bits := b\<rparr>"
  have r: "htbl_reserve h n secret = Some (Ok h')"
    using assms(1,3) by (simp only: htbl_reserve_def Let_def a(1) b(1) h'_def) (simp add: ilog2_power)
  have no: "\<not> stored h' (read_index (table h' ! i)) k v" if "i < ?a" for i k v
    using that by (simp add: h'_def stored_def)
  have ready: "htbl_ready h'" if "0 < n"
  proof -
    have "n < ?a" "?a \<le> 2 * n" using that by linarith+
    moreover have "table_wf h'"
      unfolding table_wf_def using b(2,3) \<open>?a \<le> 2 ^ 30\<close> \<open>n < ?a\<close> no
      by (auto simp: h'_def store_wf_def entry_ok_def occupied_def entry_default_def [THEN arg_cong, of hash_byte] key_at_def
          intro!: exI [of _ 0])
    ultimately show ?thesis by (simp add: htbl_ready_def h'_def occupied_def filter_replicate)
  qed
  have wf: "htbl_wf h'"
  proof (cases "n = 0")
    case True
    then have "table h' = []" "used_entries h' = 0" by (simp_all add: h'_def)
    then show ?thesis by (simp add: htbl_wf_def)
  qed (use ready in \<open>simp add: htbl_wf_def\<close>)
  have "\<forall>k v. \<not> holds h' k v" using no by (auto simp: holds_def h'_def)
  moreover have "used_data h' = 1" "used_entries h' = 0" "max_entries h' = n" "data_chunks h' = []" by (simp_all add: h'_def)
  ultimately show thesis using r wf ready by (intro that [of h']) simp_all
qed

lemma holds_empty: "htbl_wf h \<Longrightarrow> used_entries h = 0 \<Longrightarrow> \<not> holds h k v"
  using stored_occupied by (fastforce simp: htbl_wf_def htbl_ready_def holds_def filter_empty_conv in_set_conv_nth)

lemma table_sorted: "table_wf h \<Longrightarrow> sorted_wrt (no_shared_key h) (table h)"
proof -
  assume wf: "table_wf h"
  have "no_shared_key h (table h ! i) (table h ! j)" if "i < j" "j < length (table h)" for i j
    using key_at_unique [OF wf, of i _ j] that by (auto simp: no_shared_key_def key_at_def)
  then show ?thesis by (simp add: sorted_wrt_iff_nth_less)
qed

lemma table_stored: "table_wf h \<Longrightarrow> \<forall>e \<in> set (table h). occupied e \<longrightarrow> (\<exists>k v. stored h (read_index e) k v)"
  by (metis in_set_conv_nth occupied_entry)

lemma holds_set: "(\<exists>e \<in> set (table h). stored h (read_index e) k v) \<longleftrightarrow> holds h k v"
  unfolding holds_def by (metis in_set_conv_nth)

lemma grow_ok:
  assumes h: "htbl_ready h" "used_entries h = max_entries h" and lim: "used_data h \<le> 2 ^ 40" "used_entries h < 2 ^ 61"
  obtains h' where "grow_table h secret = Some (Ok h')" "htbl_ready h'" "holds h' = holds h" "used_data h' = used_data h"
    "used_entries h' = used_entries h" "used_entries h' < max_entries h'"
proof -
  let ?n = "length (table h)"
  define h1 where "h1 = h\<lparr>table := replicate (2 * ?n) entry_default, max_entries := 2 * max_entries h\<rparr>"
  have n: "0 < max_entries h" "0 < ?n" "?n \<le> 2 * max_entries h" "max_entries h < ?n" using h(1) by (auto simp: htbl_ready_def)
  have wf: "table_wf h" using h(1) by (simp add: htbl_ready_def)
  have free: "\<not> occupied (table h1 ! i)" "hash_byte (table h1 ! i) = 0" if "i < length (table h1)" for i
    using that by (simp_all add: h1_def occupied_def) (simp add: entry_default_def)
  have no: "\<not> key_at h1 i k" "\<not> holds h1 k v" for i k v
    using free stored_occupied unfolding key_at_def holds_def by blast+
  have st: "stored h1 = stored h" by (simp add: h1_def)
  then have no_shared_key_st: "no_shared_key h1 = no_shared_key h" by (simp add: no_shared_key_def fun_eq_iff)
  have "store_wf h1" "length (table h1) < 2 ^ 64" "0 < length (table h1)"
    using wf n h(2) lim(2) by (simp_all add: h1_def table_wf_def)
  moreover have "\<forall>i < length (table h1). entry_ok h1 i" using free by (simp add: entry_ok_def)
  ultimately have "table_wf h1" unfolding table_wf_def using no(1) free(1) by blast
  moreover have "pending h1 (table h)"
    using table_sorted [OF wf] table_stored [OF wf] no(1) by (simp add: pending_def no_shared_key_st st)
  moreover have f: "filter occupied (table h1) = []" by (simp add: h1_def filter_replicate occupied_def)
  moreover have "length (filter occupied (table h)) < length (table h1)"
    using n by (auto simp: h1_def intro: le_less_trans [OF length_filter_le])
  ultimately obtain t where t: "rehash h1 (table h) = Some (Ok (h1\<lparr>table := t\<rparr>))" "length t = length (table h1)"
    "table_wf (h1\<lparr>table := t\<rparr>)" "length (filter occupied t) = length (filter occupied (table h))"
    "\<forall>k v. holds (h1\<lparr>table := t\<rparr>) k v \<longleftrightarrow> holds h1 k v \<or> (\<exists>e \<in> set (table h). stored h1 (read_index e) k v)"
    using rehash_ok [of h1 "table h"] lim(1) by (auto simp: h1_def)
  have "holds (h1\<lparr>table := t\<rparr>) = holds h" using t(5) no(2) by (simp add: fun_eq_iff st holds_set)
  moreover have "grow_table h secret = Some (Ok (h1\<lparr>table := t\<rparr>))" using n t(1) by (simp add: grow_table_def h1_def)
  moreover have "htbl_ready (h1\<lparr>table := t\<rparr>)"
    using t(2-4) n h unfolding htbl_ready_def by (simp add: h1_def)
  ultimately show thesis using n h(2) by (intro that [of "h1\<lparr>table := t\<rparr>"]) (auto simp: h1_def)
qed

text \<open>A pair that the smallest chunk can take even next to the unused first byte.\<close>

definition pair_fits :: "bytes \<Rightarrow> bytes \<Rightarrow> bool" where
  "pair_fits k v \<longleftrightarrow> 11 + length k + length v < 2 ^ 21"

lemma pair_fits_chunk: "store_wf h \<Longrightarrow> pair_fits k v \<Longrightarrow> 11 + length k + length v < chunk_size h"
proof -
  assume "store_wf h" "pair_fits k v"
  then have "11 + length k + length v < 2 ^ 21" "chunk_size h = 2 ^ chunk_bits h" "21 \<le> chunk_bits h"
    by (auto simp: pair_fits_def store_wf_def)
  with power_increasing [of 21 "chunk_bits h" "2 :: nat"] show ?thesis by linarith
qed

text \<open>What an insertion does to the table, given an outcome with the new table and the previous value.\<close>

definition inserted :: "lookup_htbl \<Rightarrow> bytes \<Rightarrow> bytes \<Rightarrow> lookup_htbl \<Rightarrow> bytes option \<Rightarrow> bool" where
  "inserted h k v h' old \<longleftrightarrow> htbl_ready h' \<and> (\<forall>k' v'. holds h' k' v' \<longleftrightarrow> (if k' = k then v' = v else holds h k' v')) \<and>
     (\<forall>w. old = Some w \<longleftrightarrow> holds h k w) \<and> used_data h' = used_data h \<and> used_entries h' \<le> Suc (used_entries h)"

lemma put_pair:
  assumes h: "htbl_ready h" "used_entries h < max_entries h" and s: "stored h d k v" "d < 2 ^ 40"
  shows "\<exists>h' old. put_entry h k d = Some (Ok (h', old)) \<and> inserted h k v h' old"
proof -
  have wf: "table_wf h" and sw: "store_wf h" and cnt: "used_entries h = length (filter occupied (table h))"
    and room: "length (filter occupied (table h)) + 1 < length (table h)"
    using h by (auto simp: htbl_ready_def table_wf_def)
  show ?thesis
  proof (cases rule: lookup_outcome [OF wf, of k, case_names found absent])
    case (found i)
    let ?h = "h\<lparr>table := (table h)[i := write_index (table h ! i) d]\<rparr>"
    from found(1) obtain w where i: "i < length (table h)" and w: "stored h (read_index (table h ! i)) k w" by (auto simp: key_at_def)
    note f = fits_own [OF wf found(1) s]
    from free_besides [OF room] obtain x where x: "x < length (table h)" "x \<noteq> i" "\<not> occupied (table h ! x)" by blast
    have hw: "holds h k u \<longleftrightarrow> u = w" for u
    proof
      assume "holds h k u"
      then obtain y where y: "y < length (table h)" "stored h (read_index (table h ! y)) k u" by (auto simp: holds_def)
      then have "key_at h y k" by (auto simp: key_at_def)
      with key_at_unique [OF wf found(1)] have "y = i" .
      with y(2) stored_unique(2) [OF sw w] show "u = w" by blast
    qed (use i w in \<open>auto simp: holds_def\<close>)
    have rv: "read_value ?h (read_index (table h ! i)) = Ok w" using read_stored(2) [of ?h _ k w] sw w by simp
    have "\<forall>u. Some w = Some u \<longleftrightarrow> holds h k u" unfolding hw by auto
    moreover have "length (filter occupied (table ?h)) = length (filter occupied (table h))"
      using length_filter_update [OF i, of occupied "write_index (table h ! i) d"] stored_occupied [OF w] s
      by (simp add: occupied_def read_write_index stored_def)
    moreover have "table_wf ?h" by (rule table_put_wf [OF wf f x])
    ultimately have "inserted h k v ?h (Some w)"
      using holds_put [OF wf f] h cnt by (simp add: inserted_def htbl_ready_def)
    moreover have "put_entry h k d = Some (Ok (?h, Some w))"
      using found(2) rv by (simp add: put_entry_def)
    ultimately show ?thesis by blast
  next
    case (absent j)
    obtain i where i: "i < length (table h)"
      "lookup h k = Some (Ok (NotFound i (hash_byte_of k (hash_secret h))))" "table_wf (h\<lparr>table := new_entry h i k d\<rparr>)"
      "\<forall>k' v'. holds (h\<lparr>table := new_entry h i k d\<rparr>) k' v' \<longleftrightarrow> (if k' = k then v' = v else holds h k' v')"
      "\<forall>x k'. key_at (h\<lparr>table := new_entry h i k d\<rparr>) x k' \<longleftrightarrow> (if x = i then k' = k else key_at h x k')"
      "length (filter occupied (new_entry h i k d)) = Suc (length (filter occupied (table h)))"
      by (rule put_new_key [OF wf absent(2) s room])
    let ?h = "h\<lparr>table := new_entry h i k d, used_entries := used_entries h + 1\<rparr>"
    have "\<not> holds h k u" for u using absent(2) by (auto simp: holds_def key_at_def)
    moreover have "length (new_entry h i k d) = length (table h)" by (simp add: new_entry_def)
    ultimately have "inserted h k v ?h None"
      using i(3,4,6) h cnt by (simp add: inserted_def htbl_ready_def)
    with i(2) show ?thesis by (intro exI [of _ ?h] exI [of _ None]) (simp add: put_entry_def new_entry_def)
  qed
qed

lemma insert_with_room:
  assumes h: "htbl_ready h" "used_entries h < max_entries h" and f: "pair_fits k v"
    and lim: "used_data h + 2 * (10 + length k + length v) \<le> 2 ^ 40"
  shows "\<exists>h' old h1. htbl_insert h k v secret = Some (Ok (h', old)) \<and> inserted h1 k v h' old \<and> holds h1 = holds h \<and>
    used_entries h1 = used_entries h \<and> used_data h1 \<le> used_data h + 2 * (10 + length k + length v)"
proof -
  have wf: "table_wf h" and sw: "store_wf h" using h by (auto simp: htbl_ready_def table_wf_def)
  have "table h \<noteq> []" using h by (auto simp: htbl_ready_def)
  have "10 + length k + length v < chunk_size h" "data_chunks h \<noteq> [] \<or> 11 + length k + length v < chunk_size h"
    using pair_fits_chunk [OF sw f] by auto
  then obtain h1 d where n: "new_data h k v = Ok (h1, d)" "store_wf h1"
    "stored h1 d k v" "\<forall>d k v. stored h d k v \<longrightarrow> stored h1 d k v" "h1 = h\<lparr>data_chunks := data_chunks h1, used_data := used_data h1\<rparr>"
    "used_data h1 \<le> used_data h + 2 * (10 + length k + length v)" "data_chunks h1 \<noteq> []" "d \<le> used_data h1"
    by (rule new_data_ok [OF sw])
  have same: "table h1 = table h" "hash_secret h1 = hash_secret h" "used_entries h1 = used_entries h" "max_entries h1 = max_entries h"
    by (subst n(5), simp)+
  note a = data_added [OF wf n(2,4) same(1,2)]
  have r: "htbl_ready h1" "used_entries h1 < max_entries h1" using h a(1) same by (simp_all add: htbl_ready_def)
  have "d < 2 ^ 40" using stored_index_less [OF n(3)] n(6) lim by linarith
  from put_pair [OF r n(3) this] obtain h' old where p: "put_entry h1 k d = Some (Ok (h', old))" "inserted h1 k v h' old" by blast
  have "htbl_insert h k v secret = Some (Ok (h', old))"
    using h(2) \<open>table h \<noteq> []\<close> n(1) p(1) by (simp add: htbl_insert_def)
  with p(2) a(2) same(3) n(6) show ?thesis by blast
qed

lemma insert_ok:
  assumes h: "htbl_wf h" and f: "pair_fits k v" and secret: "table h = [] \<longrightarrow> secret \<noteq> 0"
    and lim: "max 1 (used_data h) + 2 * (10 + length k + length v) \<le> 2 ^ 40" "used_entries h < 2 ^ 61"
  obtains h' old where "htbl_insert h k v secret = Some (Ok (h', old))" "htbl_ready h'"
    "\<forall>k' v'. holds h' k' v' \<longleftrightarrow> (if k' = k then v' = v else holds h k' v')" "\<forall>w. old = Some w \<longleftrightarrow> holds h k w"
    "used_data h' \<le> max 1 (used_data h) + 2 * (10 + length k + length v)" "used_entries h' \<le> Suc (used_entries h)"
proof -
  have "\<exists>h0. htbl_insert h k v secret = htbl_insert h0 k v secret \<and> htbl_ready h0 \<and> used_entries h0 < max_entries h0 \<and>
    holds h0 = holds h \<and> used_entries h0 = used_entries h \<and> used_data h0 \<le> max 1 (used_data h)"
  proof (cases "table h = []")
    case True
    with h have e: "used_entries h = 0" by (auto simp: htbl_wf_def htbl_ready_def table_wf_def)
    obtain h0 where r: "htbl_reserve h 1 secret = Some (Ok h0)" "htbl_wf h0" "\<forall>k v. \<not> holds h0 k v" "used_data h0 = 1"
      "used_entries h0 = 0" "0 < (1 :: nat) \<longrightarrow> htbl_ready h0 \<and> max_entries h0 = 1" "data_chunks h0 = []"
      using secret True by (elim reserve_ok [OF e, of 1 secret, rotated 2]) auto
    then have "table h0 \<noteq> []" by (auto simp: htbl_ready_def)
    with True r have "htbl_insert h k v secret = htbl_insert h0 k v secret" by (simp add: htbl_insert_def)
    moreover have "holds h0 = holds h" using r(3) holds_empty [OF h e] by (simp add: fun_eq_iff)
    ultimately show ?thesis using r e by (intro exI [of _ h0]) simp
  next
    case False
    with h have hr: "htbl_ready h" by (auto simp: htbl_wf_def)
    show ?thesis
    proof (cases "used_entries h < max_entries h")
      case True
      with hr show ?thesis by (intro exI [of _ h]) simp
    next
      case full: False
      with hr have m: "used_entries h = max_entries h" by (simp add: htbl_ready_def)
      have "used_data h \<le> 2 ^ 40" using lim by simp
      then obtain h0 where g: "grow_table h secret = Some (Ok h0)" "htbl_ready h0" "holds h0 = holds h"
        "used_data h0 = used_data h" "used_entries h0 = used_entries h" "used_entries h0 < max_entries h0"
        by (rule grow_ok [OF hr m _ lim(2)])
      then have "table h0 \<noteq> []" by (auto simp: htbl_ready_def)
      with False full g(1,6) have "htbl_insert h k v secret = htbl_insert h0 k v secret" by (simp add: htbl_insert_def)
      with g show ?thesis by (intro exI [of _ h0]) simp
    qed
  qed
  then obtain h0 where h0: "htbl_insert h k v secret = htbl_insert h0 k v secret" "htbl_ready h0" "used_entries h0 < max_entries h0"
    "holds h0 = holds h" "used_entries h0 = used_entries h" "used_data h0 \<le> max 1 (used_data h)" by blast
  have "used_data h0 + 2 * (10 + length k + length v) \<le> 2 ^ 40" using h0(6) lim(1) by linarith
  from insert_with_room [OF h0(2,3) f this] obtain h' old h1 where i: "htbl_insert h0 k v secret = Some (Ok (h', old))"
    "inserted h1 k v h' old" "holds h1 = holds h0" "used_entries h1 = used_entries h0"
    "used_data h1 \<le> used_data h0 + 2 * (10 + length k + length v)" by blast
  from i(2) [unfolded inserted_def i(3,4) h0(4,5)] i(5) h0(1,6) i(1) show thesis
    by (intro that [of h' old]) auto
qed

text \<open>What the lookups and the iterator return.\<close>

lemma htbl_ready_nonempty: "htbl_wf h \<Longrightarrow> table h \<noteq> [] \<Longrightarrow> htbl_ready h"
  by (auto simp: htbl_wf_def)

lemma get_ok:
  assumes "htbl_wf h"
  shows "\<exists>r. htbl_get h k = Some (Ok r) \<and> (\<forall>v. r = Some v \<longleftrightarrow> holds h k v)"
proof (cases "used_entries h = 0")
  case True
  with holds_empty [OF assms True] show ?thesis by (simp add: htbl_get_def htbl_is_empty_def)
next
  case False
  with assms have wf: "table_wf h" and sw: "store_wf h" by (auto simp: htbl_wf_def htbl_ready_def table_wf_def)
  show ?thesis
  proof (cases rule: lookup_outcome [OF wf, of k, case_names found absent])
    case (found i)
    then obtain w where i: "i < length (table h)" and w: "stored h (read_index (table h ! i)) k w" by (auto simp: key_at_def)
    have "u = w" if u: "holds h k u" for u
    proof -
      from u obtain y where y: "y < length (table h)" "stored h (read_index (table h ! y)) k u" by (auto simp: holds_def)
      then have "key_at h y k" by (auto simp: key_at_def)
      with key_at_unique [OF wf found(1)] have "y = i" .
      with y(2) stored_unique(2) [OF sw w] show ?thesis by blast
    qed
    moreover have "holds h k w" using i w by (auto simp: holds_def)
    ultimately have "\<forall>v. Some w = Some v \<longleftrightarrow> holds h k v" by blast
    moreover have "htbl_get h k = Some (Ok (Some w))"
      using False found(2) read_stored(2) [OF sw w] by (simp add: htbl_get_def htbl_is_empty_def)
    ultimately show ?thesis by blast
  next
    case (absent j)
    have "\<not> holds h k u" for u using absent(2) by (auto simp: holds_def key_at_def)
    with absent(5) False show ?thesis by (simp add: htbl_get_def htbl_is_empty_def)
  qed
qed

lemma iter_from_ok:
  assumes "store_wf h" "\<forall>e \<in> set es. occupied e \<longrightarrow> (\<exists>k v. stored h (read_index e) k v)" "sorted_wrt (no_shared_key h) es"
  shows "\<exists>ps. htbl_iter_from h es = Ok ps \<and> (\<forall>k v. (k, v) \<in> set ps \<longleftrightarrow> (\<exists>e \<in> set es. stored h (read_index e) k v)) \<and>
    distinct (map fst ps) \<and> length ps = length (filter occupied es)"
  using assms(2,3)
proof (induction es)
  case (Cons e es)
  then obtain ps where ps: "htbl_iter_from h es = Ok ps" "\<forall>k v. (k, v) \<in> set ps \<longleftrightarrow> (\<exists>e \<in> set es. stored h (read_index e) k v)"
    "distinct (map fst ps)" "length ps = length (filter occupied es)" by auto
  show ?case
  proof (cases "occupied e")
    case True
    with Cons.prems(1) obtain k v where s: "stored h (read_index e) k v" by auto
    have u: "stored h (read_index e) k' v' \<longleftrightarrow> k' = k \<and> v' = v" for k' v'
      using stored_unique [OF assms(1) s] s by blast
    have "k \<notin> fst ` set ps" using Cons.prems(2) ps(2) s by (force simp: no_shared_key_def)
    moreover have "htbl_iter_from h (e # es) = Ok ((k, v) # ps)"
      using True read_stored [OF assms(1) s] ps(1) by (simp add: occupied_def)
    ultimately show ?thesis using True ps(2-4) u by (intro exI [of _ "(k, v) # ps"]) auto
  next
    case False
    then have "\<not> stored h (read_index e) k v" for k v using stored_occupied by blast
    moreover have "htbl_iter_from h (e # es) = htbl_iter_from h es" using False by (simp add: occupied_def)
    ultimately show ?thesis using False ps by simp
  qed
qed simp

lemma iter_ok:
  assumes "htbl_wf h"
  obtains ps where "htbl_iter h = Ok ps" "\<forall>k v. (k, v) \<in> set ps \<longleftrightarrow> holds h k v" "distinct (map fst ps)" "length ps = used_entries h"
proof (cases "table h = []")
  case True
  with assms have "used_entries h = 0" by (auto simp: htbl_wf_def htbl_ready_def)
  with True that [of "[]"] show thesis by (simp add: htbl_iter_def holds_def)
next
  case False
  with assms have wf: "table_wf h" and c: "used_entries h = length (filter occupied (table h))"
    using htbl_ready_nonempty by (auto simp: htbl_ready_def)
  from iter_from_ok [OF _ table_stored [OF wf] table_sorted [OF wf]] wf that c show thesis
    by (auto simp: htbl_iter_def holds_set table_wf_def)
qed

subsection \<open>The interface of a map\<close>

text \<open>What a pair costs of the memory of one terabyte that an index can address, at most.\<close>

definition pair_cost :: "bytes \<Rightarrow> bytes \<Rightarrow> nat" where
  "pair_cost k v = 2 * (2 * INDEX_SIZE + length k + length v)"

definition MAX_COST :: nat where "MAX_COST = 2 ^ 40 - 1"

text \<open>Insertions one after the other, each with the random number it may need.\<close>

fun insert_all :: "('t \<Rightarrow> bytes \<Rightarrow> bytes \<Rightarrow> u64 \<Rightarrow> 't outcome) \<Rightarrow> 't \<Rightarrow> (bytes \<times> bytes) list \<Rightarrow> (nat \<Rightarrow> u64) \<Rightarrow> 't outcome" where
  "insert_all ins t [] rng = Some (Ok t)"
| "insert_all ins t ((k, v) # kvs) rng = bind_out (ins t k v (rng 0)) (\<lambda>t. insert_all ins t kvs (\<lambda>n. rng (Suc n)))"

definition pairs_cost :: "(bytes \<times> bytes) list \<Rightarrow> nat" where
  "pairs_cost kvs = (\<Sum>(k, v) \<leftarrow> kvs. pair_cost k v)"

locale map_interface =
  fixes ok :: "nat \<Rightarrow> 't \<Rightarrow> bool" and contents :: "'t \<Rightarrow> bytes \<rightharpoonup> bytes"
    and ins :: "'t \<Rightarrow> bytes \<Rightarrow> bytes \<Rightarrow> u64 \<Rightarrow> 't outcome"
  assumes insert_law: "ok n t \<Longrightarrow> pair_fits k v \<Longrightarrow> r \<noteq> 0 \<Longrightarrow> n + pair_cost k v \<le> MAX_COST \<Longrightarrow>
    \<exists>t'. ins t k v r = Some (Ok t') \<and> ok (n + pair_cost k v) t' \<and> contents t' = (contents t)(k \<mapsto> v)"
begin

lemma insert_all_law:
  assumes "ok n t" "\<forall>(k, v) \<in> set kvs. pair_fits k v" "\<forall>i. rng i \<noteq> 0" "n + pairs_cost kvs \<le> MAX_COST"
  shows "\<exists>t'. insert_all ins t kvs rng = Some (Ok t') \<and> ok (n + pairs_cost kvs) t' \<and> contents t' = contents t ++ map_of (rev kvs)"
  using assms
proof (induction kvs arbitrary: n t rng)
  case (Cons kv kvs)
  obtain k v where kv: "kv = (k, v)" by fastforce
  have c: "n + pair_cost k v \<le> MAX_COST" "n + pair_cost k v + pairs_cost kvs \<le> MAX_COST"
    using Cons.prems(4) by (simp_all add: kv pairs_cost_def)
  from Cons.prems(1-3) insert_law [of n t k v "rng 0"] c(1) obtain t1 where
    t1: "ins t k v (rng 0) = Some (Ok t1)" "ok (n + pair_cost k v) t1" "contents t1 = (contents t)(k \<mapsto> v)" by (auto simp: kv)
  from Cons.IH [OF t1(2), of "\<lambda>n. rng (Suc n)"] Cons.prems(2,3) c(2) obtain t' where
    "insert_all ins t1 kvs (\<lambda>n. rng (Suc n)) = Some (Ok t')" "ok (n + pair_cost k v + pairs_cost kvs) t'"
    "contents t' = contents t1 ++ map_of (rev kvs)" by auto
  with t1 show ?case by (simp add: kv pairs_cost_def add.assoc)
qed (simp add: pairs_cost_def)

end

text \<open>The contents of the hash table are what its iterator returns.\<close>

definition htbl_map :: "lookup_htbl \<Rightarrow> bytes \<rightharpoonup> bytes" where
  "htbl_map h = (case htbl_iter h of Ok ps \<Rightarrow> map_of ps | _ \<Rightarrow> Map.empty)"

lemma htbl_map_holds: "htbl_wf h \<Longrightarrow> htbl_map h k = Some v \<longleftrightarrow> holds h k v"
  by (rule iter_ok) (auto simp: htbl_map_def)

lemma htbl_map_eqI: "htbl_wf h \<Longrightarrow> (\<And>k v. holds h k v \<longleftrightarrow> m k = Some v) \<Longrightarrow> htbl_map h = m"
  using htbl_map_holds by (metis not_None_eq ext)

lemma htbl_get_map: "htbl_wf h \<Longrightarrow> htbl_get h k = Some (Ok (htbl_map h k))"
  using get_ok [of h k] htbl_map_holds [of h k] by (metis not_None_eq)

lemma len_map: "htbl_wf h \<Longrightarrow> htbl_len h = card (dom (htbl_map h))"
proof -
  assume "htbl_wf h"
  then obtain ps where "htbl_iter h = Ok ps" "distinct (map fst ps)" "length ps = used_entries h" by (rule iter_ok)
  then show ?thesis
    by (simp add: htbl_len_def htbl_map_def dom_map_of_conv_image_fst distinct_card [of "map fst ps", simplified])
qed

definition htbl_within :: "nat \<Rightarrow> lookup_htbl \<Rightarrow> bool" where
  "htbl_within n h \<longleftrightarrow> htbl_wf h \<and> used_data h \<le> n + 1 \<and> used_entries h \<le> n"

definition htbl_add :: "lookup_htbl \<Rightarrow> bytes \<Rightarrow> bytes \<Rightarrow> u64 \<Rightarrow> lookup_htbl outcome" where
  "htbl_add h k v r = bind_out (htbl_insert h k v r) (\<lambda>(h, _). Some (Ok h))"

lemma htbl_extend_eq: "htbl_extend h kvs rng = insert_all htbl_add h kvs rng"
proof (induction kvs arbitrary: h rng)
  case (Cons kv kvs)
  then show ?case
    by (cases kv) (auto simp: htbl_add_def bind_out_def split: option.splits result.splits prod.splits)
qed simp

lemma htbl_insert_law:
  assumes "htbl_within n h" "pair_fits k v" "r \<noteq> 0" "n + pair_cost k v \<le> MAX_COST"
  shows "\<exists>h'. htbl_insert h k v r = Some (Ok (h', htbl_map h k)) \<and> htbl_within (n + pair_cost k v) h' \<and>
    htbl_map h' = (htbl_map h)(k \<mapsto> v)"
proof -
  have wf: "htbl_wf h" using assms(1) by (simp add: htbl_within_def)
  have lim: "max 1 (used_data h) + 2 * (10 + length k + length v) \<le> 2 ^ 40" "used_entries h < 2 ^ 61"
    using assms by (auto simp: htbl_within_def pair_cost_def MAX_COST_def INDEX_SIZE_def)
  obtain h' old where i: "htbl_insert h k v r = Some (Ok (h', old))" "htbl_ready h'"
    "\<forall>k' v'. holds h' k' v' \<longleftrightarrow> (if k' = k then v' = v else holds h k' v')" "\<forall>w. old = Some w \<longleftrightarrow> holds h k w"
    "used_data h' \<le> max 1 (used_data h) + 2 * (10 + length k + length v)" "used_entries h' \<le> Suc (used_entries h)"
    by (rule insert_ok [OF wf assms(2) _ lim]) (use assms(3) in blast)+
  have wf': "htbl_wf h'" using i(2) by (simp add: htbl_wf_def)
  have "old = htbl_map h k" using i(4) htbl_map_holds [OF wf] by (metis not_None_eq)
  moreover have "htbl_map h' = (htbl_map h)(k \<mapsto> v)"
    using i(3) htbl_map_holds [OF wf] by (intro htbl_map_eqI [OF wf']) auto
  moreover have "htbl_within (n + pair_cost k v) h'"
    using wf' i(5,6) assms(1) by (auto simp: htbl_within_def pair_cost_def INDEX_SIZE_def)
  ultimately show ?thesis using i(1) by blast
qed

interpretation htbl: map_interface htbl_within htbl_map htbl_add
  by unfold_locales (use htbl_insert_law in \<open>fastforce simp: htbl_add_def\<close>)


lemma contains_map: "htbl_wf h \<Longrightarrow> contains_key h k = Some (Ok (k \<in> dom (htbl_map h)))"
proof -
  assume wf: "htbl_wf h"
  have dom: "k \<in> dom (htbl_map h) \<longleftrightarrow> (\<exists>v. holds h k v)" using htbl_map_holds [OF wf] by auto
  show ?thesis
  proof (cases "table h = []")
    case True
    then show ?thesis using dom by (simp add: contains_key_def holds_def)
  next
    case False
    with wf have t: "table_wf h" using htbl_ready_nonempty by (auto simp: htbl_ready_def)
    show ?thesis
    proof (cases rule: lookup_outcome [OF t, of k, case_names found absent])
      case (found i)
      then have "\<exists>v. holds h k v" by (auto simp: holds_def key_at_def)
      with found False dom show ?thesis by (simp add: contains_key_def)
    next
      case (absent j)
      then have "\<nexists>v. holds h k v" by (auto simp: holds_def key_at_def)
      with absent(5) False dom show ?thesis by (simp add: contains_key_def)
    qed
  qed
qed

lemma reserve_within:
  assumes "htbl_within c h" "n \<le> 2 ^ 29" "r \<noteq> 0"
  shows "\<exists>h'. htbl_reserve h n r = Some (Ok h') \<and> htbl_within c h' \<and> htbl_map h' = htbl_map h"
proof (cases "used_entries h = 0")
  case True
  have wf: "htbl_wf h" using assms(1) by (simp add: htbl_within_def)
  obtain h' where h': "htbl_reserve h n r = Some (Ok h')" "htbl_wf h'" "\<forall>k v. \<not> holds h' k v" "used_data h' = 1"
    "used_entries h' = 0" "0 < n \<longrightarrow> htbl_ready h' \<and> max_entries h' = n" "data_chunks h' = []"
    by (rule reserve_ok [OF True assms(2,3)])
  have "htbl_map h' = htbl_map h"
    using h'(3) holds_empty [OF wf True] htbl_map_holds [OF wf] by (intro htbl_map_eqI [OF h'(2)]) simp
  with h' show ?thesis by (simp add: htbl_within_def)
next
  case False
  with assms(1) show ?thesis by (simp add: htbl_reserve_def)
qed

lemma htbl_default_within: "htbl_within 0 htbl_default" "htbl_map htbl_default = Map.empty"
  using htbl_default_wf by (simp_all add: htbl_within_def htbl_map_def htbl_iter_def) (simp_all add: htbl_default_def)

text \<open>What a probe of a table with a free entry ends at.\<close>

lemma probe_ends:
  assumes t: "table_wf h"
  shows "if \<exists>i. key_at h i k
    then \<exists>i d. lookup h k = Some (Ok (Found i d)) \<and> read_key h d = Ok k \<and> i < length (table h)
    else \<exists>i. lookup h k = Some (Ok (NotFound i (hash_byte_of k (hash_secret h)))) \<and> i < length (table h) \<and> read_index (table h ! i) = 0"
proof (cases rule: lookup_outcome [OF t, of k, case_names found absent])
  case (found i)
  then obtain v where v: "i < length (table h)" "stored h (read_index (table h ! i)) k v" by (auto simp: key_at_def)
  then have "read_key h (read_index (table h ! i)) = Ok k" using read_stored(1) t by (simp add: table_wf_def)
  with found v show ?thesis by auto
next
  case (absent j)
  moreover have "table h \<noteq> []" using t by (auto simp: table_wf_def)
  ultimately show ?thesis using slot_less by (auto simp: occupied_def)
qed

lemma reserve_default:
  assumes "n \<le> 2 ^ 29" "r \<noteq> 0"
  obtains h where "htbl_reserve htbl_default n r = Some (Ok h)" "htbl_within 0 h" "htbl_map h = Map.empty"
    "0 < n \<longrightarrow> htbl_ready h"
proof -
  obtain h where h: "htbl_reserve htbl_default n r = Some (Ok h)" "0 < n \<longrightarrow> htbl_ready h"
    by (rule reserve_ok [of htbl_default n r]) (use assms in \<open>simp_all add: htbl_default_def\<close>)
  with reserve_within [OF htbl_default_within(1) assms] htbl_default_within(2) that show ?thesis by auto
qed

text \<open>
  C37. A hash table that was reserved for at most \<open>2 ^ 29\<close> entries and then filled is the map of
  the pairs that were inserted, the last one of a key counting: every lookup ends and returns
  the value of the key or nothing, the table knows its keys and their number, and the iterator
  returns every pair once. The pairs have to fit a chunk, and all of them together the memory
  that an index of five bytes can address.
\<close>

theorem lookup_htbl_is_map:
  assumes n: "n \<le> 2 ^ 29" and rng: "r \<noteq> 0" "\<forall>i. rng i \<noteq> 0" and kvs: "\<forall>(k, v) \<in> set kvs. pair_fits k v" "pairs_cost kvs \<le> MAX_COST"
  shows "\<exists>h ps. bind_out (htbl_reserve htbl_default n r) (\<lambda>h. htbl_extend h kvs rng) = Some (Ok h) \<and>
    (\<forall>k. htbl_get h k = Some (Ok (map_of (rev kvs) k))) \<and>
    (\<forall>k. contains_key h k = Some (Ok (k \<in> fst ` set kvs))) \<and>
    htbl_len h = card (fst ` set kvs) \<and>
    htbl_iter h = Ok ps \<and> distinct (map fst ps) \<and> map_of ps = map_of (rev kvs)"
proof -
  from reserve_within [OF htbl_default_within(1) n rng(1)] obtain h0 where
    h0: "htbl_reserve htbl_default n r = Some (Ok h0)" "htbl_within 0 h0" "htbl_map h0 = Map.empty"
    by (auto simp: htbl_default_within)
  from htbl.insert_all_law [OF h0(2) kvs(1) rng(2)] kvs(2) obtain h where
    h: "htbl_extend h0 kvs rng = Some (Ok h)" "htbl_within (pairs_cost kvs) h" "htbl_map h = map_of (rev kvs)"
    by (auto simp: htbl_extend_eq h0(3))
  then have wf: "htbl_wf h" by (simp add: htbl_within_def)
  then obtain ps where "htbl_iter h = Ok ps" "distinct (map fst ps)" by (rule iter_ok)
  with h h0(1) htbl_get_map [OF wf] contains_map [OF wf] len_map [OF wf] show ?thesis
    by (auto simp: htbl_map_def dom_map_of_conv_image_fst)
qed

theorem lookup_htbl_is_map_witness:
  "\<exists>h. bind_out (htbl_reserve htbl_default 2 7) (\<lambda>h. htbl_extend h [([1], [2]), ([3], []), ([1], [4, 5])] (\<lambda>_. 9)) = Some (Ok h) \<and>
    htbl_get h [1] = Some (Ok (Some [4, 5])) \<and> htbl_get h [2] = Some (Ok None) \<and> htbl_len h = 2"
  using lookup_htbl_is_map [of 2 7 "\<lambda>_. 9" "[([1], [2]), ([3], []), ([1], [4, 5])]"]
  by (auto simp: pair_fits_def pairs_cost_def pair_cost_def MAX_COST_def INDEX_SIZE_def card_insert_if)

text \<open>
  C38. Every probe of a table ends: after reserving space for at most \<open>2 ^ 29\<close> entries and
  inserting pairs within the limits of the table, in any number relative to the reserved one, the
  table still has a free entry, because inserting grows it in time, and a probe ends at an entry whose
  data is the key, exactly when the key was inserted, and otherwise at a free entry.
\<close>

theorem lookup_terminates:
  assumes "n \<le> 2 ^ 29" "r \<noteq> 0" "\<forall>i. rng i \<noteq> 0" "\<forall>(k, v) \<in> set kvs. pair_fits k v" "pairs_cost kvs \<le> MAX_COST"
    and h: "bind_out (htbl_reserve htbl_default n r) (\<lambda>h. htbl_extend h kvs rng) = Some (Ok h)" and ne: "0 < n \<or> kvs \<noteq> []"
  shows "(\<exists>i < length (table h). read_index (table h ! i) = 0) \<and>
    (if k \<in> fst ` set kvs
     then \<exists>i d. lookup h k = Some (Ok (Found i d)) \<and> read_key h d = Ok k \<and> i < length (table h)
     else \<exists>i. lookup h k = Some (Ok (NotFound i (hash_byte_of k (hash_secret h)))) \<and> i < length (table h) \<and> read_index (table h ! i) = 0)"
proof -
  obtain h0 where h0: "htbl_reserve htbl_default n r = Some (Ok h0)" "htbl_within 0 h0" "htbl_map h0 = Map.empty"
    "0 < n \<longrightarrow> htbl_ready h0"
    by (rule reserve_default [OF assms(1,2)])
  from htbl.insert_all_law [OF h0(2) assms(4,3)] assms(5) h h0(1,3) have
    w: "htbl_within (pairs_cost kvs) h" "htbl_map h = map_of (rev kvs)" by (auto simp: htbl_extend_eq)
  have "kvs = [] \<Longrightarrow> h = h0" using h h0(1) by (simp add: htbl_extend_eq)
  moreover have dom: "k \<in> fst ` set kvs \<longleftrightarrow> (\<exists>i. key_at h i k)" for k
  proof -
    have "k \<in> fst ` set kvs \<longleftrightarrow> k \<in> dom (htbl_map h)" using w(2) by (simp add: dom_map_of_conv_image_fst)
    also have "\<dots> \<longleftrightarrow> (\<exists>v. holds h k v)" using htbl_map_holds [of h k] w(1) by (auto simp: htbl_within_def)
    finally show ?thesis by (auto simp: holds_def key_at_def)
  qed
  moreover have "htbl_ready h" if "kvs \<noteq> []"
  proof -
    from that have "fst (hd kvs) \<in> fst ` set kvs" by simp
    then have "table h \<noteq> []" unfolding dom by (auto simp: key_at_def)
    with w(1) show ?thesis by (simp add: htbl_ready_nonempty htbl_within_def)
  qed
  ultimately have t: "table_wf h" using ne h0(4) by (cases "kvs = []") (auto simp: htbl_ready_def)
  from t have "(\<exists>i < length (table h). read_index (table h ! i) = 0)" by (auto simp: table_wf_def occupied_def)
  with probe_ends [OF t, of k] dom show ?thesis by simp
qed

theorem lookup_terminates_witness:
  "\<exists>h. bind_out (htbl_reserve htbl_default 1 7) (\<lambda>h. htbl_extend h [([1], [2]), ([3], [])] (\<lambda>_. 9)) = Some (Ok h) \<and>
    (\<exists>i < length (table h). read_index (table h ! i) = 0) \<and>
    (\<exists>i d. lookup h [3] = Some (Ok (Found i d)) \<and> read_key h d = Ok [3]) \<and> (\<exists>i b. lookup h [4] = Some (Ok (NotFound i b)))"
proof -
  let ?kvs = "[([1], [2]), ([3], [])] :: (bytes \<times> bytes) list"
  have c: "\<forall>(k, v) \<in> set ?kvs. pair_fits k v" "pairs_cost ?kvs \<le> MAX_COST"
    by (simp_all add: pair_fits_def pairs_cost_def pair_cost_def MAX_COST_def INDEX_SIZE_def)
  obtain h0 where h0: "htbl_reserve htbl_default 1 7 = Some (Ok h0)" "htbl_within 0 h0"
    by (rule reserve_default [of 1 7]) simp_all
  obtain h where h: "bind_out (htbl_reserve htbl_default 1 7) (\<lambda>h. htbl_extend h ?kvs (\<lambda>_. 9)) = Some (Ok h)"
    using htbl.insert_all_law [OF h0(2) c(1), of "\<lambda>_. 9"] c(2) by (auto simp: h0(1) [unfolded One_nat_def] htbl_extend_eq)
  note l = lookup_terminates [of 1 7 "\<lambda>_. 9" ?kvs h, OF _ _ _ c h]
  from l [of "[3]"] l [of "[4]"] h show ?thesis by auto
qed

text \<open>
  C39. The first pair of a table panics when it needs all but one byte of a chunk: the first byte
  of the first chunk is not used, so the pair might end in a second chunk, and only one chunk is
  allocated.
\<close>

theorem first_pair_panics:
  assumes "0 < n" "n \<le> 2 ^ 29" "r \<noteq> 0"
  shows "\<exists>h. htbl_reserve htbl_default n r = Some (Ok h) \<and>
    (2 * INDEX_SIZE + length k + length v + 1 = chunk_size h \<longrightarrow> htbl_insert h k v r' = Some Panic)"
proof -
  obtain h where h: "htbl_reserve htbl_default n r = Some (Ok h)" "htbl_wf h" "\<forall>k v. \<not> holds h k v" "used_data h = 1"
    "used_entries h = 0" "0 < n \<longrightarrow> htbl_ready h \<and> max_entries h = n" "data_chunks h = []"
    by (rule reserve_ok [of htbl_default n r]) (use assms in \<open>simp_all add: htbl_default_def\<close>)
  then have t: "table h \<noteq> []" "store_wf h" using assms(1) by (auto simp: htbl_ready_def table_wf_def)
  have "htbl_insert h k v r' = Some Panic" if "2 * INDEX_SIZE + length k + length v + 1 = chunk_size h"
  proof -
    have "drop_bit (chunk_bits h) (used_data h + (2 * INDEX_SIZE + length k + length v)) = 1"
      using that t(2) h(4) by (simp add: drop_bit_eq_div store_wf_def add.commute)
    moreover have "2 * INDEX_SIZE + length k + length v < chunk_size h" using that by linarith
    ultimately have "new_data h k v = Panic" using h(7) by (simp add: new_data_def open_chunk_def Let_def)
    with t(1) h(5,6) assms(1) show ?thesis by (simp add: htbl_insert_def)
  qed
  with h(1) show ?thesis by blast
qed

theorem first_pair_panics_witness:
  "\<exists>h. htbl_reserve htbl_default 1 7 = Some (Ok h) \<and> htbl_insert h [] (replicate (2 ^ 21 - 11) 0) 7 = Some Panic"
proof -
  have "chunk_size h = 2 ^ 21" if "htbl_reserve htbl_default 1 7 = Some (Ok h)" for h
    using that by (auto simp: htbl_reserve_def htbl_default_def Let_def next_power_of_two_def ilog2.simps [of "Suc 0"])
  with first_pair_panics [of 1 7 "[]" "replicate (2 ^ 21 - 11) 0" 7] show ?thesis
    by (auto simp: INDEX_SIZE_def)
qed

end
