(* ===== verification/Lookup_Data.thy ===== *)
theory Lookup_Data
  imports Lookup_Table
begin

section \<open>The lookup data of Oak Functions\<close>

text \<open>
  Models \<^verbatim>\<open>oak_functions_service/src/lookup.rs\<close>: a manager that holds the data in use and
  builds the next data, both split into hash tables by the hash of the key. The operations take
  their locks for their whole body, so a history of the manager is a sequence of operations, and
  the locks and the log messages are left out. The number \<open>S\<close> of the tables is the length of
  the lists. The theorems show that the manager refines a pair of maps.
\<close>

datatype builder_state = BuilderEmpty | BuilderExtending

record data_builder =
  db_data :: lookup_htbl
  db_state :: builder_state

definition data_builder_default :: data_builder where
  "data_builder_default = \<lparr>db_data = htbl_default, db_state = BuilderEmpty\<rparr>"

text \<open>\<open>mem::take\<close> leaves the default table behind.\<close>

definition builder_build :: "data_builder \<Rightarrow> data_builder \<times> lookup_htbl" where
  "builder_build b = (b\<lparr>db_state := BuilderEmpty, db_data := htbl_default\<rparr>, db_data b)"

definition builder_extend :: "data_builder \<Rightarrow> (bytes \<times> bytes) list \<Rightarrow> (nat \<Rightarrow> u64) \<Rightarrow> data_builder outcome" where
  "builder_extend b kvs rng =
     bind_out (htbl_extend (db_data b) kvs rng) (\<lambda>h. Some (Ok (b\<lparr>db_state := BuilderExtending, db_data := h\<rparr>)))"

definition builder_insert :: "data_builder \<Rightarrow> bytes \<Rightarrow> bytes \<Rightarrow> u64 \<Rightarrow> data_builder outcome" where
  "builder_insert b key val r =
     bind_out (htbl_insert (db_data b) key val r) (\<lambda>(h, _). Some (Ok (b\<lparr>db_state := BuilderExtending, db_data := h\<rparr>)))"

definition builder_reserve :: "data_builder \<Rightarrow> nat \<Rightarrow> u64 \<Rightarrow> data_builder outcome" where
  "builder_reserve b additional_entries r =
     bind_out (htbl_reserve (db_data b) additional_entries r) (\<lambda>h. Some (Ok (b\<lparr>db_data := h\<rparr>)))"

record lookup_data_manager =
  ldm_data :: "lookup_htbl list"
  ldm_builder :: "data_builder list"

type_synonym lookup_data = "lookup_htbl list"

definition new_empty :: "nat \<Rightarrow> lookup_data_manager" where
  "new_empty S = \<lparr>ldm_data = replicate S htbl_default, ldm_builder = replicate S data_builder_default\<rparr>"

text \<open>\<open>for_each\<close> over the builders, each with its own random number.\<close>

fun reserve_each :: "data_builder list \<Rightarrow> nat \<Rightarrow> (nat \<Rightarrow> u64) \<Rightarrow> data_builder list outcome" where
  "reserve_each [] n rng = Some (Ok [])"
| "reserve_each (b # bs) n rng =
     bind_out (builder_reserve b n (rng 0)) (\<lambda>b.
     bind_out (reserve_each bs n (\<lambda>i. rng (Suc i))) (\<lambda>bs. Some (Ok (b # bs))))"

definition manager_reserve :: "lookup_data_manager \<Rightarrow> nat \<Rightarrow> (nat \<Rightarrow> u64) \<Rightarrow> lookup_data_manager outcome" where
  "manager_reserve m additional_entries rng =
     (let S = length (ldm_builder m) in
      if S = 0 then Some Panic
      else bind_out (reserve_each (ldm_builder m) (additional_entries div S) rng) (\<lambda>bs. Some (Ok (m\<lparr>ldm_builder := bs\<rparr>))))"

definition shard :: "nat \<Rightarrow> bytes \<Rightarrow> nat" where
  "shard S key = unat (hash key 0) mod S"

definition manager_insert :: "lookup_data_manager \<Rightarrow> bytes \<Rightarrow> bytes \<Rightarrow> u64 \<Rightarrow> lookup_data_manager outcome" where
  "manager_insert m key val r =
     (let S = length (ldm_builder m) in
      if S = 0 then Some Panic
      else
        let index = shard S key in
        bind_out (builder_insert (ldm_builder m ! index) key val r) (\<lambda>b.
        Some (Ok (m\<lparr>ldm_builder := (ldm_builder m)[index := b]\<rparr>))))"

fun extend_next_lookup_data ::
  "lookup_data_manager \<Rightarrow> (bytes \<times> bytes) list \<Rightarrow> (nat \<Rightarrow> u64) \<Rightarrow> lookup_data_manager outcome" where
  "extend_next_lookup_data m [] rng = Some (Ok m)"
| "extend_next_lookup_data m ((k, v) # kvs) rng =
     bind_out (manager_insert m k v (rng 0)) (\<lambda>m. extend_next_lookup_data m kvs (\<lambda>i. rng (Suc i)))"

definition finish_next_lookup_data :: "lookup_data_manager \<Rightarrow> lookup_data_manager" where
  "finish_next_lookup_data m =
     (let built = map builder_build (ldm_builder m) in
      m\<lparr>ldm_builder := map fst built, ldm_data := map snd built\<rparr>)"

definition abort_next_lookup_data :: "lookup_data_manager \<Rightarrow> lookup_data_manager" where
  "abort_next_lookup_data m = m\<lparr>ldm_builder := map (fst \<circ> builder_build) (ldm_builder m)\<rparr>"

definition create_lookup_data :: "lookup_data_manager \<Rightarrow> lookup_data" where
  "create_lookup_data m = ldm_data m"

definition for_test :: "nat \<Rightarrow> (bytes \<times> bytes) list \<Rightarrow> (nat \<Rightarrow> u64) \<Rightarrow> (nat \<Rightarrow> u64) \<Rightarrow> lookup_data_manager outcome" where
  "for_test S data rng rng' =
     bind_out (manager_reserve (new_empty S) (length data) rng) (\<lambda>m.
     bind_out (extend_next_lookup_data m data rng') (\<lambda>m. Some (Ok (finish_next_lookup_data m))))"

definition lookup_data_get :: "lookup_data \<Rightarrow> bytes \<Rightarrow> bytes option outcome" where
  "lookup_data_get data key =
     (let S = length data in if S = 0 then Some Panic else htbl_get (data ! shard S key) key)"

definition lookup_data_len :: "lookup_data \<Rightarrow> nat" where
  "lookup_data_len data = sum_list (map htbl_len data)"

definition lookup_data_is_empty :: "lookup_data \<Rightarrow> bool" where
  "lookup_data_is_empty data = list_all htbl_is_empty data"

definition limit :: "'a list \<Rightarrow> nat \<Rightarrow> 'a list" where
  "limit xs n = take (min n (length xs)) xs"


subsection \<open>The contents of tables split by hash\<close>

definition shards_map :: "lookup_htbl list \<Rightarrow> bytes \<rightharpoonup> bytes" where
  "shards_map hs k = htbl_map (hs ! shard (length hs) k) k"

text \<open>Every table only has keys of its own part.\<close>

definition shards_within :: "nat \<Rightarrow> lookup_htbl list \<Rightarrow> bool" where
  "shards_within n hs \<longleftrightarrow> hs \<noteq> [] \<and>
     (\<forall>i < length hs. htbl_within n (hs ! i) \<and> (\<forall>k \<in> dom (htbl_map (hs ! i)). shard (length hs) k = i))"

lemma shard_less: "S \<noteq> 0 \<Longrightarrow> shard S k < S"
  by (simp add: shard_def)

lemma htbl_within_mono: "htbl_within n h \<Longrightarrow> n \<le> m \<Longrightarrow> htbl_within m h"
  by (simp add: htbl_within_def)

lemma shards_get:
  assumes "shards_within n hs"
  shows "lookup_data_get hs k = Some (Ok (shards_map hs k))"
  using assms shard_less [of "length hs" k] htbl_get_map
  by (simp add: lookup_data_get_def shards_map_def shards_within_def htbl_within_def)

lemma shards_own: "shards_within n hs \<Longrightarrow> i < length hs \<Longrightarrow> k \<in> dom (htbl_map (hs ! i)) \<Longrightarrow> shard (length hs) k = i"
  by (simp add: shards_within_def)

lemma shards_dom:
  assumes "shards_within n hs"
  shows "dom (shards_map hs) = (\<Union>i < length hs. dom (htbl_map (hs ! i)))"
proof (intro set_eqI iffI)
  fix k assume "k \<in> dom (shards_map hs)"
  then have "k \<in> dom (htbl_map (hs ! shard (length hs) k))" by (simp add: shards_map_def dom_def)
  moreover have "shard (length hs) k < length hs" using assms by (intro shard_less) (simp add: shards_within_def)
  ultimately show "k \<in> (\<Union>i < length hs. dom (htbl_map (hs ! i)))" by blast
next
  fix k assume "k \<in> (\<Union>i < length hs. dom (htbl_map (hs ! i)))"
  then obtain i where i: "i < length hs" "k \<in> dom (htbl_map (hs ! i))" by blast
  with assms have "shard (length hs) k = i" by (simp add: shards_within_def)
  with i(2) show "k \<in> dom (shards_map hs)" by (simp add: shards_map_def dom_def)
qed

lemma finite_htbl_map: "htbl_wf h \<Longrightarrow> finite (dom (htbl_map h))"
  by (auto simp: htbl_map_def finite_dom_map_of split: result.splits)

lemma shards_len:
  assumes "shards_within n hs"
  shows "lookup_data_len hs = card (dom (shards_map hs))"
proof -
  have wf: "htbl_wf (hs ! i)" if "i < length hs" for i using assms that by (simp add: shards_within_def htbl_within_def)
  have "card (dom (shards_map hs)) = (\<Sum>i < length hs. card (dom (htbl_map (hs ! i))))"
    unfolding shards_dom [OF assms]
  proof (rule card_UN_disjoint)
    show "\<forall>i \<in> {..<length hs}. finite (dom (htbl_map (hs ! i)))" using wf finite_htbl_map by simp
    show "\<forall>i \<in> {..<length hs}. \<forall>j \<in> {..<length hs}. i \<noteq> j \<longrightarrow> dom (htbl_map (hs ! i)) \<inter> dom (htbl_map (hs ! j)) = {}"
    proof (intro ballI impI equals0I)
      fix i j x assume ij: "i \<in> {..<length hs}" "j \<in> {..<length hs}" "i \<noteq> j" and x: "x \<in> dom (htbl_map (hs ! i)) \<inter> dom (htbl_map (hs ! j))"
      have "shard (length hs) x = i" using shards_own [OF assms] ij(1) x by simp
      moreover have "shard (length hs) x = j" using shards_own [OF assms] ij(2) x by simp
      ultimately show False using ij(3) by simp
    qed
  qed simp
  also have "\<dots> = (\<Sum>i < length hs. htbl_len (hs ! i))" using len_map [OF wf] by simp
  finally show ?thesis by (simp add: lookup_data_len_def sum_list_sum_nth atLeast0LessThan)
qed

lemma shards_default: "S \<noteq> 0 \<Longrightarrow> shards_within 0 (replicate S htbl_default)" "S \<noteq> 0 \<Longrightarrow> shards_map (replicate S htbl_default) = Map.empty"
  using shard_less [of S] by (auto simp: shards_within_def shards_map_def htbl_default_within fun_eq_iff)

text \<open>The builders as tables.\<close>

definition next_within :: "nat \<Rightarrow> lookup_data_manager \<Rightarrow> bool" where
  "next_within n m \<longleftrightarrow> shards_within n (map db_data (ldm_builder m))"

definition next_map :: "lookup_data_manager \<Rightarrow> bytes \<rightharpoonup> bytes" where
  "next_map m = shards_map (map db_data (ldm_builder m))"

lemma shards_update:
  assumes s: "shards_within n hs" and i: "i = shard (length hs) k" and h: "htbl_within c h" "n \<le> c"
    "htbl_map h = (htbl_map (hs ! i))(k \<mapsto> v)"
  shows "shards_within c (hs[i := h])" "shards_map (hs[i := h]) = (shards_map hs)(k \<mapsto> v)"
proof -
  have l: "i < length hs" "hs \<noteq> []" using s shard_less [of "length hs" k] by (auto simp: i shards_within_def)
  have "htbl_within c (hs[i := h] ! j) \<and> (\<forall>k' \<in> dom (htbl_map (hs[i := h] ! j)). shard (length hs) k' = j)" if "j < length hs" for j
    using s that h i htbl_within_mono [OF _ h(2)] by (cases "j = i") (auto simp: shards_within_def)
  with l show "shards_within c (hs[i := h])" by (simp add: shards_within_def)
  show "shards_map (hs[i := h]) = (shards_map hs)(k \<mapsto> v)"
  proof
    fix x show "shards_map (hs[i := h]) x = ((shards_map hs)(k \<mapsto> v)) x"
      using l h(3) i by (cases "shard (length hs) x = i") (auto simp: shards_map_def)
  qed
qed

interpretation manager: map_interface next_within next_map manager_insert
proof
  fix n m k v and r :: u64
  assume n: "next_within n m" "pair_fits k v" "r \<noteq> 0" "n + pair_cost k v \<le> MAX_COST"
  let ?hs = "map db_data (ldm_builder m)" and ?bs = "ldm_builder m"
  let ?i = "shard (length ?hs) k"
  have i: "?i < length ?bs" "?bs \<noteq> []" using n(1) shard_less [of "length ?hs" k] by (auto simp: next_within_def shards_within_def)
  then have "htbl_within n (db_data (?bs ! ?i))" using n(1) by (simp add: next_within_def shards_within_def)
  from htbl_insert_law [OF this n(2-4)] obtain h where
    h: "htbl_insert (db_data (?bs ! ?i)) k v r = Some (Ok (h, htbl_map (db_data (?bs ! ?i)) k))"
    "htbl_within (n + pair_cost k v) h" "htbl_map h = (htbl_map (db_data (?bs ! ?i)))(k \<mapsto> v)" by blast
  let ?m = "m\<lparr>ldm_builder := ?bs[?i := (?bs ! ?i)\<lparr>db_state := BuilderExtending, db_data := h\<rparr>]\<rparr>"
  have ins: "manager_insert m k v r = Some (Ok ?m)"
    using h(1) i by (simp add: manager_insert_def builder_insert_def Let_def)
  have "map db_data (ldm_builder ?m) = ?hs[?i := h]" by (simp add: map_update)
  moreover have "htbl_map h = (htbl_map (?hs ! ?i))(k \<mapsto> v)" using h(3) i by simp
  note shards_update [OF n(1) [unfolded next_within_def] refl h(2) le_add1 this]
  ultimately have "next_within (n + pair_cost k v) ?m" "next_map ?m = (next_map m)(k \<mapsto> v)" by (simp_all only: next_within_def next_map_def)
  with ins show "\<exists>t'. manager_insert m k v r = Some (Ok t') \<and> next_within (n + pair_cost k v) t' \<and> next_map t' = (next_map m)(k \<mapsto> v)"
    by blast
qed


lemma extend_next_eq: "extend_next_lookup_data m kvs rng = insert_all manager_insert m kvs rng"
  by (induction m kvs rng rule: extend_next_lookup_data.induct) (auto simp: bind_out_def split: option.splits result.splits)

lemma insert_keeps_data: "manager_insert m k v r = Some (Ok m') \<Longrightarrow> ldm_data m' = ldm_data m \<and> length (ldm_builder m') = length (ldm_builder m)"
  by (auto simp: manager_insert_def Let_def bind_out_def split: if_splits option.splits result.splits)

lemma extend_keeps_data: "extend_next_lookup_data m kvs rng = Some (Ok m') \<Longrightarrow> ldm_data m' = ldm_data m \<and> length (ldm_builder m') = length (ldm_builder m)"
proof (induction m kvs rng rule: extend_next_lookup_data.induct)
  case (2 m k v kvs rng)
  then show ?case by (auto simp: bind_out_def dest!: insert_keeps_data split: option.splits result.splits)
qed simp

lemma reserve_each_ok:
  assumes "\<forall>b \<in> set bs. htbl_within c (db_data b)" "n \<le> 2 ^ 29" "\<forall>i. rng i \<noteq> 0"
  shows "\<exists>bs'. reserve_each bs n rng = Some (Ok bs') \<and> length bs' = length bs \<and>
    (\<forall>i < length bs. htbl_within c (db_data (bs' ! i)) \<and> htbl_map (db_data (bs' ! i)) = htbl_map (db_data (bs ! i)))"
  using assms(1,3)
proof (induction bs arbitrary: rng)
  case (Cons b bs)
  have "htbl_within c (db_data b)" "rng 0 \<noteq> 0" using Cons.prems by auto
  from reserve_within [OF this(1) assms(2) this(2)] obtain h where
    h: "htbl_reserve (db_data b) n (rng 0) = Some (Ok h)" "htbl_within c h" "htbl_map h = htbl_map (db_data b)" by blast
  from Cons.IH [of "\<lambda>i. rng (Suc i)"] Cons.prems obtain bs' where
    bs': "reserve_each bs n (\<lambda>i. rng (Suc i)) = Some (Ok bs')" "length bs' = length bs"
    "\<forall>i < length bs. htbl_within c (db_data (bs' ! i)) \<and> htbl_map (db_data (bs' ! i)) = htbl_map (db_data (bs ! i))" by auto
  have "reserve_each (b # bs) n rng = Some (Ok (b\<lparr>db_data := h\<rparr> # bs'))" using h(1) bs'(1) by (simp add: builder_reserve_def)
  with h bs'(2,3) show ?case by (auto simp: nth_Cons split: nat.split)
qed simp


subsection \<open>The manager refines a pair of maps\<close>

datatype manager_op =
    OpReserve nat "nat \<Rightarrow> u64"
  | OpExtend "(bytes \<times> bytes) list" "nat \<Rightarrow> u64"
  | OpFinish
  | OpAbort

fun manager_step :: "lookup_data_manager \<Rightarrow> manager_op \<Rightarrow> lookup_data_manager outcome" where
  "manager_step m (OpReserve n rng) = manager_reserve m n rng"
| "manager_step m (OpExtend kvs rng) = extend_next_lookup_data m kvs rng"
| "manager_step m OpFinish = Some (Ok (finish_next_lookup_data m))"
| "manager_step m OpAbort = Some (Ok (abort_next_lookup_data m))"

fun manager_run :: "lookup_data_manager \<Rightarrow> manager_op list \<Rightarrow> lookup_data_manager outcome" where
  "manager_run m [] = Some (Ok m)"
| "manager_run m (p # ps) = bind_out (manager_step m p) (\<lambda>m. manager_run m ps)"

text \<open>The specification: the map in use and the map that is being built.\<close>

type_synonym maps = "(bytes \<rightharpoonup> bytes) \<times> (bytes \<rightharpoonup> bytes)"

fun maps_step :: "maps \<Rightarrow> manager_op \<Rightarrow> maps" where
  "maps_step (cur, nxt) (OpReserve n rng) = (cur, nxt)"
| "maps_step (cur, nxt) (OpExtend kvs rng) = (cur, nxt ++ map_of (rev kvs))"
| "maps_step (cur, nxt) OpFinish = (nxt, Map.empty)"
| "maps_step (cur, nxt) OpAbort = (cur, Map.empty)"

text \<open>What the operations may use: pairs that fit, memory that can be addressed, and random numbers that are not zero.\<close>

fun op_fits :: "nat \<Rightarrow> nat \<Rightarrow> manager_op \<Rightarrow> bool" where
  "op_fits S c (OpReserve n rng) \<longleftrightarrow> n div S \<le> 2 ^ 29 \<and> (\<forall>i. rng i \<noteq> 0)"
| "op_fits S c (OpExtend kvs rng) \<longleftrightarrow> (\<forall>(k, v) \<in> set kvs. pair_fits k v) \<and> (\<forall>i. rng i \<noteq> 0) \<and> c + pairs_cost kvs \<le> MAX_COST"
| "op_fits S c OpFinish \<longleftrightarrow> True"
| "op_fits S c OpAbort \<longleftrightarrow> True"

fun op_cost :: "nat \<Rightarrow> manager_op \<Rightarrow> nat" where
  "op_cost c (OpReserve n rng) = c"
| "op_cost c (OpExtend kvs rng) = c + pairs_cost kvs"
| "op_cost c OpFinish = 0"
| "op_cost c OpAbort = 0"

fun ops_fit :: "nat \<Rightarrow> nat \<Rightarrow> manager_op list \<Rightarrow> bool" where
  "ops_fit S c [] \<longleftrightarrow> True"
| "ops_fit S c (p # ps) \<longleftrightarrow> op_fits S c p \<and> ops_fit S (op_cost c p) ps"

text \<open>The simulation relation.\<close>

definition manager_rel :: "nat \<Rightarrow> nat \<Rightarrow> lookup_data_manager \<Rightarrow> maps \<Rightarrow> bool" where
  "manager_rel S c m s \<longleftrightarrow> length (ldm_builder m) = S \<and> length (ldm_data m) = S \<and> (\<exists>n. shards_within n (ldm_data m)) \<and> next_within c m \<and>
     s = (shards_map (ldm_data m), next_map m)"

lemma finish_data:
  "ldm_data (finish_next_lookup_data m) = map db_data (ldm_builder m)"
  "length (ldm_builder (finish_next_lookup_data m)) = length (ldm_builder m)"
  by (simp_all add: finish_next_lookup_data_def builder_build_def Let_def comp_def)

lemma manager_step_simulates:
  assumes r: "manager_rel S c m s" and f: "op_fits S c p"
  shows "\<exists>m'. manager_step m p = Some (Ok m') \<and> manager_rel S (op_cost c p) m' (maps_step s p)"
proof -
  have S: "length (ldm_builder m) = S" "S \<noteq> 0" "s = (shards_map (ldm_data m), next_map m)" "next_within c m"
    using r by (auto simp: manager_rel_def shards_within_def)
  have clear: "map db_data (map (fst \<circ> builder_build) (ldm_builder m)) = replicate S htbl_default"
    using S(1) by (simp add: builder_build_def map_replicate_const comp_def)
  show ?thesis
  proof (cases p)
    case (OpReserve n rng)
    have "\<forall>b \<in> set (ldm_builder m). htbl_within c (db_data b)"
      using S(4) by (auto simp: next_within_def shards_within_def in_set_conv_nth)
    from reserve_each_ok [OF this, of "n div S" rng] f OpReserve obtain bs where
      bs: "reserve_each (ldm_builder m) (n div S) rng = Some (Ok bs)" "length bs = S"
      "\<forall>i < S. htbl_within c (db_data (bs ! i)) \<and> htbl_map (db_data (bs ! i)) = htbl_map (db_data (ldm_builder m ! i))"
      using S(1) by auto
    let ?m = "m\<lparr>ldm_builder := bs\<rparr>"
    have "next_within c ?m" using S bs(2,3) by (auto simp: next_within_def shards_within_def)
    moreover have "next_map ?m = next_map m"
      using S(1,2) bs(2,3) shard_less by (auto simp: next_map_def shards_map_def fun_eq_iff)
    ultimately show ?thesis using OpReserve bs r S by (simp add: manager_reserve_def manager_rel_def Let_def)
  next
    case (OpExtend kvs rng)
    from manager.insert_all_law [OF S(4), of kvs rng] f OpExtend obtain m' where
      m': "extend_next_lookup_data m kvs rng = Some (Ok m')" "next_within (c + pairs_cost kvs) m'" "next_map m' = next_map m ++ map_of (rev kvs)"
      by (auto simp: extend_next_eq)
    then show ?thesis using OpExtend r S extend_keeps_data [OF m'(1)] by (simp add: manager_rel_def)
  next
    case OpFinish
    have "next_within 0 (finish_next_lookup_data m)" "next_map (finish_next_lookup_data m) = Map.empty"
      using clear shards_default [OF S(2)] by (simp_all add: next_within_def next_map_def finish_next_lookup_data_def Let_def comp_def)
    then show ?thesis
      using OpFinish S finish_data [of m] by (auto simp: manager_rel_def next_within_def [of c] next_map_def [of m])
  next
    case OpAbort
    have "next_within 0 (abort_next_lookup_data m)" "next_map (abort_next_lookup_data m) = Map.empty"
      using clear shards_default [OF S(2)] by (simp_all add: next_within_def next_map_def abort_next_lookup_data_def)
    then show ?thesis using OpAbort r S by (simp add: manager_rel_def abort_next_lookup_data_def)
  qed
qed

lemma manager_run_simulates:
  assumes "manager_rel S c m s" "ops_fit S c ps"
  shows "\<exists>m' c'. manager_run m ps = Some (Ok m') \<and> manager_rel S c' m' (foldl maps_step s ps)"
  using assms
proof (induction ps arbitrary: c m s)
  case (Cons p ps)
  from manager_step_simulates [OF Cons.prems(1), of p] Cons.prems(2) obtain m1 where
    "manager_step m p = Some (Ok m1)" "manager_rel S (op_cost c p) m1 (maps_step s p)" by auto
  with Cons.IH [of "op_cost c p" m1 "maps_step s p"] Cons.prems(2) show ?case by simp
qed auto

lemma new_empty_rel: "S \<noteq> 0 \<Longrightarrow> manager_rel S 0 (new_empty S) (Map.empty, Map.empty)"
  using shards_default [of S]
  by (auto simp: manager_rel_def new_empty_def next_within_def next_map_def data_builder_default_def)

lemma shards_empty:
  assumes "shards_within n hs"
  shows "lookup_data_is_empty hs \<longleftrightarrow> shards_map hs = Map.empty"
proof -
  have "lookup_data_is_empty hs \<longleftrightarrow> lookup_data_len hs = 0"
    by (auto simp: lookup_data_is_empty_def lookup_data_len_def htbl_is_empty_def htbl_len_def list_all_iff)
  also have "\<dots> \<longleftrightarrow> dom (shards_map hs) = {}"
  proof -
    have "finite (dom (shards_map hs))"
      unfolding shards_dom [OF assms] using assms finite_htbl_map by (auto simp: shards_within_def htbl_within_def)
    with shards_len [OF assms] show ?thesis by simp
  qed
  finally show ?thesis by simp
qed

text \<open>
  C36. The manager refines a pair of maps, the one in use and the next one: reserving changes
  neither, extending adds the pairs to the next one (the last pair of a key counting), finishing
  puts the next one in use and starts with an empty one, aborting only drops the next one. For
  every sequence of operations within the limits of the tables, all of them return, and a lookup
  returns what the map in use has, no matter in how many tables the data is split. The limits
  (\<open>ops_fit\<close>) are that reserving asks each table for at most \<open>2 ^ 29\<close> entries, every pair is smaller
  than the smallest chunk, the pairs of a map that is built cost at most \<open>MAX_COST\<close>, and no random
  number is zero.
\<close>

theorem manager_refines_maps:
  assumes "S \<noteq> 0" "ops_fit S 0 ps"
  shows "\<exists>m. manager_run (new_empty S) ps = Some (Ok m) \<and>
    (case foldl maps_step (Map.empty, Map.empty) ps of (cur, nxt) \<Rightarrow>
      (\<forall>k. lookup_data_get (create_lookup_data m) k = Some (Ok (cur k))) \<and>
      lookup_data_len (create_lookup_data m) = card (dom cur) \<and>
      (lookup_data_is_empty (create_lookup_data m) \<longleftrightarrow> cur = Map.empty) \<and>
      (\<forall>k. lookup_data_get (create_lookup_data (finish_next_lookup_data m)) k = Some (Ok (nxt k))))"
proof -
  from manager_run_simulates [OF new_empty_rel [OF assms(1)] assms(2)] obtain m c where
    m: "manager_run (new_empty S) ps = Some (Ok m)" "manager_rel S c m (foldl maps_step (Map.empty, Map.empty) ps)" by blast
  then obtain n where n: "shards_within n (ldm_data m)" "shards_within c (map db_data (ldm_builder m))"
    and s: "foldl maps_step (Map.empty, Map.empty) ps = (shards_map (ldm_data m), next_map m)"
    by (auto simp: manager_rel_def next_within_def)
  from m(1) finish_data [of m] shards_get [OF n(1)] shards_get [OF n(2)] shards_len [OF n(1)] shards_empty [OF n(1)] show ?thesis
    unfolding s by (simp add: create_lookup_data_def next_map_def)
qed

theorem manager_refines_maps_witness:
  "\<exists>m. manager_run (new_empty 2) [OpReserve 4 (\<lambda>_. 7), OpExtend [([1], [2])] (\<lambda>_. 7), OpFinish, OpExtend [([3], [4])] (\<lambda>_. 7), OpAbort] = Some (Ok m) \<and>
    lookup_data_get (create_lookup_data m) [1] = Some (Ok (Some [2])) \<and> lookup_data_get (create_lookup_data m) [3] = Some (Ok None)"
  using manager_refines_maps [of 2 "[OpReserve 4 (\<lambda>_. 7), OpExtend [([1], [2])] (\<lambda>_. 7), OpFinish, OpExtend [([3], [4])] (\<lambda>_. 7), OpAbort]"]
  by (auto simp: pair_fits_def pairs_cost_def pair_cost_def MAX_COST_def INDEX_SIZE_def)

end
