(* ===== verification/Kernel_Memory.thy ===== *)
theory Kernel_Memory
  imports Oak_Prelude
begin

section \<open>Physical memory of the restricted kernel\<close>

text \<open>
  Models the allocators of \<^verbatim>\<open>oak_restricted_kernel/src/mm\<close> (\<^verbatim>\<open>bitmap_frame_allocator.rs\<close>,
  \<^verbatim>\<open>frame_allocator.rs\<close>, \<^verbatim>\<open>virtual_address_allocator.rs\<close>) and, of \<^verbatim>\<open>mod.rs\<close> and \<^verbatim>\<open>lib.rs\<close>, what
  decides which memory may be handed out: \<open>init\<close>, \<open>ramdisk_range\<close>, the end of
  \<open>load_application\<close> and the checks of addresses from user space. Page tables and the
  contents of memory are not modelled.

  A frame of the crate \<^verbatim>\<open>x86_64\<close> is the number of its start address, and the page size \<open>S::SIZE\<close>
  is an argument. The operations of that crate and of \<^verbatim>\<open>bitvec\<close> are parameters, and the hypothesis
  \<open>kernel_lib_correct\<close> states what their documentation promises.
\<close>

record frame_range =
  fr_start :: u64
  fr_end :: u64

record 'b kernel_lib =
  elts :: "nat \<Rightarrow> nat"
  bits_zero :: "nat \<Rightarrow> 'b"
  bits_len :: "'b \<Rightarrow> nat"
  bits_get :: "'b \<Rightarrow> nat \<Rightarrow> bool option"
  bits_set :: "'b \<Rightarrow> nat \<Rightarrow> bool \<Rightarrow> 'b option"
  bits_fill :: "'b \<Rightarrow> nat \<Rightarrow> nat \<Rightarrow> bool \<Rightarrow> 'b option"
  bits_and :: "'b \<Rightarrow> 'b \<Rightarrow> 'b"
  bits_not :: "'b \<Rightarrow> 'b"
  iter_ones :: "'b \<Rightarrow> nat list"
  first_one :: "'b \<Rightarrow> nat option"
  count_ones :: "'b \<Rightarrow> nat"
  not_all :: "'b \<Rightarrow> nat \<Rightarrow> nat \<Rightarrow> bool option"
  windows_all :: "'b \<Rightarrow> nat \<Rightarrow> bool list option"
  frame_add :: "u64 \<Rightarrow> u64 \<Rightarrow> u64 \<Rightarrow> u64 option"
  page_add :: "u64 \<Rightarrow> u64 \<Rightarrow> u64 \<Rightarrow> u64 option"
  from_start_address :: "u64 \<Rightarrow> u64 \<Rightarrow> u64 option"
  phys_addr_new :: "u64 \<Rightarrow> u64 option"
  phys_addr_add :: "u64 \<Rightarrow> u64 \<Rightarrow> u64 option"
  align_down :: "u64 \<Rightarrow> u64 \<Rightarrow> u64 option"
  align_up :: "u64 \<Rightarrow> u64 \<Rightarrow> u64 option"

text \<open>The sizes of the pages, constants of \<^verbatim>\<open>x86_64\<close>.\<close>

definition SIZE_4KIB :: u64 where "SIZE_4KIB = 0x1000"

definition SIZE_2MIB :: u64 where "SIZE_2MIB = 0x200000"


subsection \<open>The bitmap allocator\<close>

record 'b bitmap_allocator =
  ba_allocated :: 'b
  ba_valid :: 'b
  ba_range :: frame_range

definition bitmap_new :: "'b kernel_lib \<Rightarrow> u64 \<Rightarrow> nat \<Rightarrow> frame_range \<Rightarrow> ('b bitmap_allocator, unit) result" where
  "bitmap_new L sz N rg =
     (let num_frames = (fr_end rg - fr_start rg) div sz;
          expected = elts L (unat num_frames)
      in if expected \<noteq> N then Panic
         else Ok \<lparr>ba_allocated = bits_zero L N, ba_valid = bits_zero L N, ba_range = rg\<rparr>)"

definition frame_idx :: "u64 \<Rightarrow> 'b bitmap_allocator \<Rightarrow> u64 \<Rightarrow> nat option" where
  "frame_idx sz a f =
     (if f < fr_start (ba_range a) \<or> f > fr_end (ba_range a) then None
      else Some (unat ((f - fr_start (ba_range a)) div sz)))"

definition frame_at :: "'b kernel_lib \<Rightarrow> u64 \<Rightarrow> 'b bitmap_allocator \<Rightarrow> nat \<Rightarrow> (u64 option, unit) result" where
  "frame_at L sz a idx =
     (if bits_len L (ba_valid a) \<le> idx then Ok None
      else bind_result (expect (frame_add L sz (fr_start (ba_range a)) (of_nat idx))) (\<lambda>f. Ok (Some f)))"

definition bitmap_mark_valid ::
  "'b kernel_lib \<Rightarrow> u64 \<Rightarrow> 'b bitmap_allocator \<Rightarrow> frame_range \<Rightarrow> bool \<Rightarrow> ('b bitmap_allocator, unit) result" where
  "bitmap_mark_valid L sz a rg v =
     (case (frame_idx sz a (fr_start rg), frame_idx sz a (fr_end rg)) of
        (Some s, Some e) \<Rightarrow> bind_result (expect (bits_fill L (ba_valid a) s e v)) (\<lambda>b. Ok (a\<lparr>ba_valid := b\<rparr>))
      | _ \<Rightarrow> Panic)"

definition available :: "'b kernel_lib \<Rightarrow> 'b bitmap_allocator \<Rightarrow> 'b" where
  "available L a = bits_and L (ba_valid a) (bits_not L (ba_allocated a))"

text \<open>The streaks of indices that follow each other, by \<open>scan\<close>, and \<open>max_by_key\<close>, which keeps the last maximum.\<close>

fun streaks :: "(nat \<times> nat) option \<Rightarrow> nat list \<Rightarrow> (nat \<times> nat) list" where
  "streaks st [] = []"
| "streaks st (idx # ids) =
     (let start_idx = (case st of None \<Rightarrow> idx | Some (s, e) \<Rightarrow> if idx = e + 1 then s else idx)
      in (start_idx, idx) # streaks (Some (start_idx, idx)) ids)"

fun max_by_key :: "('a \<Rightarrow> nat) \<Rightarrow> 'a list \<Rightarrow> 'a option" where
  "max_by_key f [] = None"
| "max_by_key f (x # xs) = (case max_by_key f xs of None \<Rightarrow> Some x | Some y \<Rightarrow> if f y < f x then Some x else Some y)"

definition bitmap_largest_available :: "'b kernel_lib \<Rightarrow> u64 \<Rightarrow> 'b bitmap_allocator \<Rightarrow> (frame_range option, unit) result" where
  "bitmap_largest_available L sz a =
     (case max_by_key (\<lambda>(s, e). e - s) (streaks None (iter_ones L (available L a))) of
        None \<Rightarrow> Ok None
      | Some (s, e) \<Rightarrow>
          bind_result (bind_result (frame_at L sz a s) expect) (\<lambda>f.
          bind_result (bind_result (frame_at L sz a e) expect) (\<lambda>g.
          bind_result (expect (frame_add L sz g 1)) (\<lambda>g'. Ok (Some \<lparr>fr_start = f, fr_end = g'\<rparr>)))))"

definition bitmap_allocate ::
  "'b kernel_lib \<Rightarrow> u64 \<Rightarrow> 'b bitmap_allocator \<Rightarrow> frame_range \<Rightarrow> (frame_range option \<times> 'b bitmap_allocator, unit) result" where
  "bitmap_allocate L sz a rg =
     (case (frame_idx sz a (fr_start rg), frame_idx sz a (fr_end rg)) of
        (Some s, Some e) \<Rightarrow>
          bind_result (expect (not_all L (available L a) s e)) (\<lambda>na.
          if na then Ok (None, a)
          else bind_result (expect (bits_fill L (ba_allocated a) s e True)) (\<lambda>b. Ok (Some rg, a\<lparr>ba_allocated := b\<rparr>)))
      | _ \<Rightarrow> Panic)"

definition bitmap_allocate_contiguous ::
  "'b kernel_lib \<Rightarrow> u64 \<Rightarrow> 'b bitmap_allocator \<Rightarrow> nat \<Rightarrow> (frame_range option \<times> 'b bitmap_allocator, unit) result" where
  "bitmap_allocate_contiguous L sz a num =
     bind_result (expect (windows_all L (available L a) num)) (\<lambda>ws.
     case find snd (List.enumerate 0 ws) of
       None \<Rightarrow> Ok (None, a)
     | Some (idx, _) \<Rightarrow>
         bind_result (bind_result (frame_at L sz a idx) expect) (\<lambda>s.
         bind_result (bind_result (frame_at L sz a (idx + num)) expect) (\<lambda>e.
         bitmap_allocate L sz a \<lparr>fr_start = s, fr_end = e\<rparr>)))"

definition num_valid :: "'b kernel_lib \<Rightarrow> 'b bitmap_allocator \<Rightarrow> nat" where
  "num_valid L a = count_ones L (ba_valid a)"

definition num_allocated :: "'b kernel_lib \<Rightarrow> 'b bitmap_allocator \<Rightarrow> nat" where
  "num_allocated L a = count_ones L (ba_allocated a)"

definition bitmap_allocate_frame ::
  "'b kernel_lib \<Rightarrow> u64 \<Rightarrow> 'b bitmap_allocator \<Rightarrow> (u64 option \<times> 'b bitmap_allocator, unit) result" where
  "bitmap_allocate_frame L sz a =
     (case first_one L (bits_and L (ba_valid a) (bits_not L (ba_allocated a))) of
        None \<Rightarrow> Ok (None, a)
      | Some idx \<Rightarrow>
          bind_result (expect (bits_set L (ba_allocated a) idx True)) (\<lambda>b.
          let a' = a\<lparr>ba_allocated := b\<rparr> in
          bind_result (frame_at L sz a' idx) (\<lambda>f. Ok (f, a'))))"

definition bitmap_deallocate_frame ::
  "'b kernel_lib \<Rightarrow> u64 \<Rightarrow> 'b bitmap_allocator \<Rightarrow> u64 \<Rightarrow> ('b bitmap_allocator, unit) result" where
  "bitmap_deallocate_frame L sz a f =
     (case frame_idx sz a f of
        Some idx \<Rightarrow>
          bind_result (expect (bits_get L (ba_valid a) idx)) (\<lambda>v.
          if \<not> v then Panic
          else
            bind_result (expect (bits_get L (ba_allocated a) idx)) (\<lambda>al.
            if \<not> al then Panic
            else bind_result (expect (bits_set L (ba_allocated a) idx False)) (\<lambda>b. Ok (a\<lparr>ba_allocated := b\<rparr>))))
      | None \<Rightarrow> Panic)"


subsection \<open>The allocator of physical memory\<close>

record 'b physical_memory_allocator =
  large_frames :: "'b bitmap_allocator"
  small_frames :: "'b bitmap_allocator option"

definition pm_new_range :: "'b kernel_lib \<Rightarrow> nat \<Rightarrow> frame_range \<Rightarrow> ('b physical_memory_allocator, unit) result" where
  "pm_new_range L N rg =
     bind_result (bitmap_new L SIZE_2MIB N rg) (\<lambda>a. Ok \<lparr>large_frames = a, small_frames = None\<rparr>)"

definition pm_new :: "'b kernel_lib \<Rightarrow> nat \<Rightarrow> ('b physical_memory_allocator, unit) result" where
  "pm_new L N = pm_new_range L N \<lparr>fr_start = 0, fr_end = of_nat N * 64 * SIZE_2MIB\<rparr>"

definition pm_mark_valid ::
  "'b kernel_lib \<Rightarrow> 'b physical_memory_allocator \<Rightarrow> frame_range \<Rightarrow> bool \<Rightarrow> ('b physical_memory_allocator, unit) result" where
  "pm_mark_valid L p rg v =
     bind_result (bitmap_mark_valid L SIZE_2MIB (large_frames p) rg v) (\<lambda>a. Ok (p\<lparr>large_frames := a\<rparr>))"

definition pm_largest_available :: "'b kernel_lib \<Rightarrow> 'b physical_memory_allocator \<Rightarrow> (frame_range option, unit) result" where
  "pm_largest_available L p = bitmap_largest_available L SIZE_2MIB (large_frames p)"

definition pm_allocate_contiguous ::
  "'b kernel_lib \<Rightarrow> 'b physical_memory_allocator \<Rightarrow> nat \<Rightarrow> (frame_range option \<times> 'b physical_memory_allocator, unit) result" where
  "pm_allocate_contiguous L p num =
     bind_result (bitmap_allocate_contiguous L SIZE_2MIB (large_frames p) num) (\<lambda>(r, a). Ok (r, p\<lparr>large_frames := a\<rparr>))"

definition num_valid_frames :: "'b kernel_lib \<Rightarrow> 'b physical_memory_allocator \<Rightarrow> nat \<times> nat" where
  "num_valid_frames L p =
     (num_valid L (large_frames p), case small_frames p of None \<Rightarrow> 0 | Some frames \<Rightarrow> num_valid L frames)"

definition num_allocated_frames :: "'b kernel_lib \<Rightarrow> 'b physical_memory_allocator \<Rightarrow> nat \<times> nat" where
  "num_allocated_frames L p =
     (num_allocated L (large_frames p), case small_frames p of None \<Rightarrow> 0 | Some frames \<Rightarrow> num_allocated L frames)"

definition allocate_frame_2mib ::
  "'b kernel_lib \<Rightarrow> 'b physical_memory_allocator \<Rightarrow> (u64 option \<times> 'b physical_memory_allocator, unit) result" where
  "allocate_frame_2mib L p =
     bind_result (bitmap_allocate_frame L SIZE_2MIB (large_frames p)) (\<lambda>(f, a). Ok (f, p\<lparr>large_frames := a\<rparr>))"

definition deallocate_frame_2mib ::
  "'b kernel_lib \<Rightarrow> 'b physical_memory_allocator \<Rightarrow> u64 \<Rightarrow> ('b physical_memory_allocator, unit) result" where
  "deallocate_frame_2mib L p f =
     bind_result (bitmap_deallocate_frame L SIZE_2MIB (large_frames p) f) (\<lambda>a. Ok (p\<lparr>large_frames := a\<rparr>))"

text \<open>The closure of \<open>get_or_insert_with\<close>: a large frame is taken and split, and a small allocator has eight words of bits.\<close>

definition split_large_frame ::
  "'b kernel_lib \<Rightarrow> 'b bitmap_allocator \<Rightarrow> ('b bitmap_allocator \<times> 'b bitmap_allocator, unit) result" where
  "split_large_frame L large =
     bind_result (bitmap_allocate_frame L SIZE_2MIB large) (\<lambda>(taken, large).
     bind_result (expect taken) (\<lambda>f.
     bind_result (expect (from_start_address L SIZE_4KIB f)) (\<lambda>s.
     bind_result (expect (phys_addr_add L f SIZE_2MIB)) (\<lambda>limit.
     bind_result (expect (from_start_address L SIZE_4KIB limit)) (\<lambda>e.
     let rg = \<lparr>fr_start = s, fr_end = e\<rparr> in
     bind_result (bitmap_new L SIZE_4KIB 8 rg) (\<lambda>small.
     bind_result (bitmap_mark_valid L SIZE_4KIB small rg True) (\<lambda>small. Ok (large, small))))))))"

definition allocate_frame_4kib ::
  "'b kernel_lib \<Rightarrow> 'b physical_memory_allocator \<Rightarrow> (u64 option \<times> 'b physical_memory_allocator, unit) result" where
  "allocate_frame_4kib L p =
     bind_result (case small_frames p of Some small \<Rightarrow> Ok (large_frames p, small) | None \<Rightarrow> split_large_frame L (large_frames p))
       (\<lambda>(large, small).
     bind_result (bitmap_allocate_frame L SIZE_4KIB small) (\<lambda>(f, small).
     Ok (f, \<lparr>large_frames = large, small_frames = Some small\<rparr>)))"

definition deallocate_frame_4kib ::
  "'b kernel_lib \<Rightarrow> 'b physical_memory_allocator \<Rightarrow> u64 \<Rightarrow> ('b physical_memory_allocator, unit) result" where
  "deallocate_frame_4kib L p f =
     bind_result (expect (small_frames p)) (\<lambda>small.
     bind_result (bitmap_deallocate_frame L SIZE_4KIB small f) (\<lambda>small. Ok (p\<lparr>small_frames := Some small\<rparr>)))"


subsection \<open>Virtual addresses\<close>

record virtual_address_allocator =
  va_range :: frame_range
  va_cursor :: u64

definition va_new :: "frame_range \<Rightarrow> virtual_address_allocator" where
  "va_new rg = \<lparr>va_range = rg, va_cursor = fr_start rg\<rparr>"

definition va_allocate ::
  "'b kernel_lib \<Rightarrow> u64 \<Rightarrow> virtual_address_allocator \<Rightarrow> u64 \<Rightarrow> (frame_range option \<times> virtual_address_allocator, unit) result" where
  "va_allocate L sz va count =
     bind_result (expect (page_add L sz (va_cursor va) count)) (\<lambda>next.
     if next \<ge> fr_end (va_range va) then Ok (None, va)
     else Ok (Some \<lparr>fr_start = va_cursor va, fr_end = next\<rparr>, va\<lparr>va_cursor := next\<rparr>))"

definition USERSPACE_VIRT_END :: u64 where "USERSPACE_VIRT_END = 0x800000000000"

definition checked_add :: "u64 \<Rightarrow> u64 \<Rightarrow> u64 option" where
  "checked_add x y = (if unat x + unat y < 2 ^ 64 then Some (x + y) else None)"

definition is_user_range :: "u64 \<Rightarrow> u64 \<Rightarrow> bool" where
  "is_user_range start len =
     (case checked_add start len of Some end' \<Rightarrow> end' \<le> USERSPACE_VIRT_END | None \<Rightarrow> False)"

definition user_checked :: "u64 \<Rightarrow> u64 \<Rightarrow> u64 option" where
  "user_checked ptr len = (if is_user_range ptr len then Some ptr else None)"

text \<open>A slice of user memory is its address and its length; the empty one has no address.\<close>

definition as_bytes :: "u64 \<Rightarrow> u64 \<Rightarrow> (u64 option \<times> u64) option" where
  "as_bytes ptr len =
     (if len = 0 then Some (None, 0) else Option.bind (user_checked ptr len) (\<lambda>ptr. Some (Some ptr, len)))"


subsection \<open>Which memory is handed out\<close>

datatype E820EntryType = E820_INVALID | E820_RAM | E820_RESERVED | E820_ACPI | E820_NVS | E820_UNUSABLE | E820_DISABLED | E820_PMEM

record e820_entry =
  e820_addr :: u64
  e820_size :: u64
  e820_type :: u32

definition entry_type :: "e820_entry \<Rightarrow> E820EntryType option" where
  "entry_type e =
     (let t = unat (e820_type e);
          types = [E820_INVALID, E820_RAM, E820_RESERVED, E820_ACPI, E820_NVS, E820_UNUSABLE, E820_DISABLED, E820_PMEM]
      in if t < length types then Some (types ! t) else None)"

text \<open>The fields of a program header of \<^verbatim>\<open>goblin\<close> that are used, and the ramdisk.\<close>

record program_header =
  p_load :: bool
  p_paddr :: u64
  p_memsz :: u64

record ramdisk =
  rd_addr :: u32
  rd_size :: u32

fun fold_result :: "('a \<Rightarrow> 's \<Rightarrow> ('s, unit) result) \<Rightarrow> 'a list \<Rightarrow> 's \<Rightarrow> ('s, unit) result" where
  "fold_result f [] s = Ok s"
| "fold_result f (x # xs) s = bind_result (f x s) (fold_result f xs)"

definition large_range :: "'b kernel_lib \<Rightarrow> u64 \<Rightarrow> u64 \<Rightarrow> (frame_range, unit) result" where
  "large_range L start limit =
     bind_result (expect (from_start_address L SIZE_2MIB start)) (\<lambda>s.
     bind_result (expect (from_start_address L SIZE_2MIB limit)) (\<lambda>e. Ok \<lparr>fr_start = s, fr_end = e\<rparr>))"

definition aligned_addr :: "(u64 \<Rightarrow> u64 \<Rightarrow> u64 option) \<Rightarrow> 'b kernel_lib \<Rightarrow> u64 \<Rightarrow> (u64, unit) result" where
  "aligned_addr align L a = bind_result (expect (align a SIZE_2MIB)) (\<lambda>a. expect (phys_addr_new L a))"

text \<open>
  Step 1 of \<open>init\<close>. The log message about an entry unwraps its type, and the kernel logs since before
  this step.
\<close>

definition mark_ram :: "'b kernel_lib \<Rightarrow> e820_entry \<Rightarrow> 'b physical_memory_allocator \<Rightarrow> ('b physical_memory_allocator, unit) result" where
  "mark_ram L e p =
     bind_result (expect (entry_type e)) (\<lambda>_.
     if entry_type e = Some E820_RAM then
        bind_result (aligned_addr (align_up L) L (e820_addr e)) (\<lambda>start.
        bind_result (aligned_addr (align_down L) L (e820_addr e + e820_size e)) (\<lambda>limit.
        if limit > start then bind_result (large_range L start limit) (\<lambda>rg. pm_mark_valid L p rg True)
        else Ok p))
     else Ok p)"

definition outer_range :: "'b kernel_lib \<Rightarrow> u64 \<Rightarrow> u64 \<Rightarrow> (frame_range, unit) result" where
  "outer_range L start limit =
     bind_result (aligned_addr (align_down L) L start) (\<lambda>s.
     bind_result (expect (from_start_address L SIZE_2MIB s)) (\<lambda>s.
     bind_result (aligned_addr (align_up L) L limit) (\<lambda>e.
     bind_result (expect (from_start_address L SIZE_2MIB e)) (\<lambda>e. Ok \<lparr>fr_start = s, fr_end = e\<rparr>))))"

definition mark_loaded :: "'b kernel_lib \<Rightarrow> program_header \<Rightarrow> 'b physical_memory_allocator \<Rightarrow> ('b physical_memory_allocator, unit) result" where
  "mark_loaded L ph p =
     (if p_load ph then
        bind_result (outer_range L (p_paddr ph) (p_paddr ph + p_memsz ph)) (\<lambda>rg. pm_mark_valid L p rg False)
      else Ok p)"

definition ramdisk_range :: "'b kernel_lib \<Rightarrow> ramdisk \<Rightarrow> (frame_range, unit) result" where
  "ramdisk_range L rd = outer_range L (ucast (rd_addr rd)) (ucast (rd_addr rd + rd_size rd))"

definition mm_init ::
  "'b kernel_lib \<Rightarrow> e820_entry list \<Rightarrow> program_header list \<Rightarrow> ramdisk \<Rightarrow> 'b physical_memory_allocator \<Rightarrow>
   ('b physical_memory_allocator, unit) result" where
  "mm_init L memory_map program_headers rd alloc =
     bind_result (fold_result (mark_ram L) memory_map alloc) (\<lambda>alloc.
     bind_result (expect (phys_addr_new L 0)) (\<lambda>zero.
     bind_result (expect (phys_addr_new L SIZE_2MIB)) (\<lambda>limit.
     bind_result (large_range L zero limit) (\<lambda>low.
     bind_result (pm_mark_valid L alloc low False) (\<lambda>alloc.
     bind_result (fold_result (mark_loaded L) program_headers alloc) (\<lambda>alloc.
     bind_result (ramdisk_range L rd) (\<lambda>rg.
     pm_mark_valid L alloc rg False)))))))"

text \<open>The end of \<open>load_application\<close>.\<close>

definition release_ramdisk :: "'b kernel_lib \<Rightarrow> ramdisk \<Rightarrow> 'b physical_memory_allocator \<Rightarrow> ('b physical_memory_allocator, unit) result" where
  "release_ramdisk L rd alloc = bind_result (ramdisk_range L rd) (\<lambda>rg. pm_mark_valid L alloc rg True)"


subsection \<open>What the libraries promise\<close>

definition kernel_lib_correct :: "'b kernel_lib \<Rightarrow> ('b \<Rightarrow> bool list) \<Rightarrow> bool" where
  "kernel_lib_correct L bits \<longleftrightarrow>
     (\<forall>n. elts L n = (n + 63) div 64) \<and>
     (\<forall>N. bits (bits_zero L N) = replicate (64 * N) False) \<and>
     (\<forall>b. bits_len L b = length (bits b)) \<and>
     (\<forall>b i. bits_get L b i = (if i < length (bits b) then Some (bits b ! i) else None)) \<and>
     (\<forall>b i v. map_option bits (bits_set L b i v) = (if i < length (bits b) then Some ((bits b)[i := v]) else None)) \<and>
     (\<forall>b s e v. map_option bits (bits_fill L b s e v) =
        (if s \<le> e \<and> e \<le> length (bits b) then Some (take s (bits b) @ replicate (e - s) v @ drop e (bits b)) else None)) \<and>
     (\<forall>b c. length (bits b) = length (bits c) \<longrightarrow> bits (bits_and L b c) = map2 (\<and>) (bits b) (bits c)) \<and>
     (\<forall>b. bits (bits_not L b) = map Not (bits b)) \<and>
     (\<forall>b. iter_ones L b = filter (\<lambda>i. bits b ! i) [0..<length (bits b)]) \<and>
     (\<forall>b. first_one L b = find (\<lambda>i. bits b ! i) [0..<length (bits b)]) \<and>
     (\<forall>b. count_ones L b = length (filter id (bits b))) \<and>
     (\<forall>b s e. not_all L b s e = (if s \<le> e \<and> e \<le> length (bits b) then Some (\<not> list_all id (drop s (take e (bits b)))) else None)) \<and>
     (\<forall>b n. windows_all L b n =
        (if n = 0 then None else Some (map (\<lambda>i. list_all id (take n (drop i (bits b)))) [0..<length (bits b) + 1 - n]))) \<and>
     (\<forall>sz f n. unat f + unat n * unat sz < 2 ^ 52 \<longrightarrow> frame_add L sz f n = Some (f + n * sz)) \<and>
     (\<forall>sz f n g. unat n * unat sz < 2 ^ 64 \<longrightarrow> page_add L sz f n = Some g \<longrightarrow>
        g = f + n * sz \<and> unat f + unat n * unat sz < 2 ^ 64) \<and>
     (\<forall>sz f a. from_start_address L sz a = Some f \<longrightarrow> f = a) \<and>
     (\<forall>sz a. sz \<noteq> 0 \<longrightarrow> unat sz dvd unat a \<longrightarrow> from_start_address L sz a = Some a) \<and>
     (\<forall>a. phys_addr_new L a = (if unat a < 2 ^ 52 then Some a else None)) \<and>
     (\<forall>a n. phys_addr_add L a n = (if unat a + unat n < 2 ^ 52 then Some (a + n) else None)) \<and>
     (\<forall>a k. k < 64 \<longrightarrow> align_down L a (2 ^ k) = Some (a - a mod 2 ^ k)) \<and>
     (\<forall>a k. k < 64 \<longrightarrow> align_up L a (2 ^ k) =
        (let n = (unat a + 2 ^ k - 1) div 2 ^ k * 2 ^ k in if n < 2 ^ 64 then Some (of_nat n) else None))"

lemma kernel_lib_facts:
  assumes "kernel_lib_correct L bits"
  shows kernel_lib_elts [rule_format]: "\<forall>n. elts L n = (n + 63) div 64"
    and kernel_lib_zero [rule_format]: "\<forall>N. bits (bits_zero L N) = replicate (64 * N) False"
    and kernel_lib_len [rule_format]: "\<forall>b. bits_len L b = length (bits b)"
    and kernel_lib_get [rule_format]: "\<forall>b i. bits_get L b i = (if i < length (bits b) then Some (bits b ! i) else None)"
    and kernel_lib_set [rule_format]: "\<forall>b i v. map_option bits (bits_set L b i v) = (if i < length (bits b) then Some ((bits b)[i := v]) else None)"
    and kernel_lib_fill [rule_format]: "\<forall>b s e v. map_option bits (bits_fill L b s e v) =
        (if s \<le> e \<and> e \<le> length (bits b) then Some (take s (bits b) @ replicate (e - s) v @ drop e (bits b)) else None)"
    and kernel_lib_and [rule_format]: "\<forall>b c. length (bits b) = length (bits c) \<longrightarrow> bits (bits_and L b c) = map2 (\<and>) (bits b) (bits c)"
    and kernel_lib_not [rule_format]: "\<forall>b. bits (bits_not L b) = map Not (bits b)"
    and kernel_lib_iter [rule_format]: "\<forall>b. iter_ones L b = filter (\<lambda>i. bits b ! i) [0..<length (bits b)]"
    and kernel_lib_first [rule_format]: "\<forall>b. first_one L b = find (\<lambda>i. bits b ! i) [0..<length (bits b)]"
    and kernel_lib_windows [rule_format]: "\<forall>b n. windows_all L b n =
        (if n = 0 then None else Some (map (\<lambda>i. list_all id (take n (drop i (bits b)))) [0..<length (bits b) + 1 - n]))"
    and kernel_lib_frame_add [rule_format]: "\<forall>sz f n. unat f + unat n * unat sz < 2 ^ 52 \<longrightarrow> frame_add L sz f n = Some (f + n * sz)"
    and kernel_lib_page_add [rule_format]: "\<forall>sz f n g. unat n * unat sz < 2 ^ 64 \<longrightarrow> page_add L sz f n = Some g \<longrightarrow>
        g = f + n * sz \<and> unat f + unat n * unat sz < 2 ^ 64"
    and kernel_lib_from_start [rule_format]: "\<forall>sz f a. from_start_address L sz a = Some f \<longrightarrow> f = a"
    and kernel_lib_aligned [rule_format]: "\<forall>sz a. sz \<noteq> 0 \<longrightarrow> unat sz dvd unat a \<longrightarrow> from_start_address L sz a = Some a"
    and kernel_lib_phys_addr [rule_format]: "\<forall>a. phys_addr_new L a = (if unat a < 2 ^ 52 then Some a else None)"
    and kernel_lib_phys_add [rule_format]: "\<forall>a n. phys_addr_add L a n = (if unat a + unat n < 2 ^ 52 then Some (a + n) else None)"
    and kernel_lib_align_down [rule_format]: "\<forall>a k. k < 64 \<longrightarrow> align_down L a (2 ^ k) = Some (a - a mod 2 ^ k)"
    and kernel_lib_align_up [rule_format]: "\<forall>a k. k < 64 \<longrightarrow> align_up L a (2 ^ k) =
        (let n = (unat a + 2 ^ k - 1) div 2 ^ k * 2 ^ k in if n < 2 ^ 64 then Some (of_nat n) else None)"
  using assms unfolding kernel_lib_correct_def by - (elim conjE, assumption)+

text \<open>The frame of an index.\<close>

definition slot_addr :: "u64 \<Rightarrow> 'b bitmap_allocator \<Rightarrow> nat \<Rightarrow> u64" where
  "slot_addr sz a i = fr_start (ba_range a) + of_nat i * sz"

definition bitmap_inv :: "('b \<Rightarrow> bool list) \<Rightarrow> u64 \<Rightarrow> nat \<Rightarrow> nat \<Rightarrow> 'b bitmap_allocator \<Rightarrow> bool" where
  "bitmap_inv bits sz N n a \<longleftrightarrow>
     sz \<noteq> 0 \<and> length (bits (ba_allocated a)) = 64 * N \<and> length (bits (ba_valid a)) = 64 * N \<and> n \<le> 64 * N \<and>
     unat (fr_end (ba_range a)) = unat (fr_start (ba_range a)) + n * unat sz \<and> unat (fr_end (ba_range a)) < 2 ^ 52 \<and>
     (\<forall>i < 64 * N. bits (ba_valid a) ! i \<longrightarrow> i < n)"

lemma unat_slot:
  assumes "unat s + i * unat sz < 2 ^ 64"
  shows "unat (s + of_nat i * (sz :: u64)) = unat s + i * unat sz"
proof -
  have "s + of_nat i * sz = of_nat (unat s + i * unat sz)" by simp
  then show ?thesis using assms by (simp only: unat_of_nat) simp
qed

lemma slot_bound:
  assumes "bitmap_inv bits sz N n a" "i \<le> n"
  shows "unat (fr_start (ba_range a)) + i * unat sz \<le> unat (fr_end (ba_range a))" "unat (fr_end (ba_range a)) < 2 ^ 52"
proof -
  have e: "unat (fr_end (ba_range a)) = unat (fr_start (ba_range a)) + n * unat sz" using assms(1) by (simp add: bitmap_inv_def)
  from mult_le_mono1 [OF assms(2), of "unat sz"] show "unat (fr_start (ba_range a)) + i * unat sz \<le> unat (fr_end (ba_range a))"
    unfolding e by linarith
  show "unat (fr_end (ba_range a)) < 2 ^ 52" using assms(1) by (simp add: bitmap_inv_def)
qed

lemma slot_unat:
  assumes "bitmap_inv bits sz N n a" "i \<le> n"
  shows "unat (slot_addr sz a i) = unat (fr_start (ba_range a)) + i * unat sz"
proof -
  have "(2 :: nat) ^ 52 < 2 ^ 64" by simp
  with slot_bound [OF assms] show ?thesis unfolding slot_addr_def by (intro unat_slot) linarith
qed

lemma slot_idx:
  assumes i: "bitmap_inv bits sz N n a" "i \<le> n"
  shows "frame_idx sz a (slot_addr sz a i) = Some i"
proof -
  have u: "unat (slot_addr sz a i) = unat (fr_start (ba_range a)) + i * unat sz" by (rule slot_unat [OF i])
  have sz: "unat sz \<noteq> 0" using i by (simp add: bitmap_inv_def unat_eq_0)
  have "\<not> slot_addr sz a i < fr_start (ba_range a)" "\<not> slot_addr sz a i > fr_end (ba_range a)"
    using u slot_bound(1) [OF i] unfolding word_less_nat_alt by linarith+
  moreover have "unat (slot_addr sz a i - fr_start (ba_range a)) = i * unat sz"
    using u by (subst unat_sub) (simp_all add: word_le_nat_alt)
  ultimately show ?thesis using sz by (simp add: frame_idx_def unat_div)
qed

lemma idx_slot:
  assumes i: "bitmap_inv bits sz N n a" and f: "frame_idx sz a f = Some i"
  shows "i \<le> n" "unat (fr_start (ba_range a)) + i * unat sz \<le> unat f" "unat f < unat (fr_start (ba_range a)) + Suc i * unat sz"
proof -
  have sz: "unat sz \<noteq> 0" using i by (simp add: bitmap_inv_def unat_eq_0)
  have b: "fr_start (ba_range a) \<le> f" "f \<le> fr_end (ba_range a)" and e: "i = unat ((f - fr_start (ba_range a)) div sz)"
    using f by (auto simp: frame_idx_def split: if_splits)
  have e': "i = (unat f - unat (fr_start (ba_range a))) div unat sz" using b(1) by (simp add: e unat_div unat_sub)
  have "unat f - unat (fr_start (ba_range a)) \<le> n * unat sz" using b i by (simp add: word_le_nat_alt bitmap_inv_def)
  then have "i \<le> n * unat sz div unat sz" unfolding e' by (rule div_le_mono)
  then show "i \<le> n" using sz by simp
  have "i * unat sz \<le> unat f - unat (fr_start (ba_range a))" unfolding e' by (rule div_times_less_eq_dividend)
  then show "unat (fr_start (ba_range a)) + i * unat sz \<le> unat f" using b(1) by (simp add: word_le_nat_alt)
  have "unat f - unat (fr_start (ba_range a)) < Suc i * unat sz" unfolding e' using sz dividend_less_div_times by (simp add: add.commute)
  then show "unat f < unat (fr_start (ba_range a)) + Suc i * unat sz" by linarith
qed

lemma frame_at_slot:
  assumes L: "kernel_lib_correct L bits" and i: "bitmap_inv bits sz N n a" "i \<le> n"
  shows "frame_at L sz a i = Ok (if i < 64 * N then Some (slot_addr sz a i) else None)"
proof -
  have "i * 1 \<le> i * unat sz"
    using i(1) by (intro mult_le_mono2) (simp add: bitmap_inv_def Suc_leI unat_gt_0)
  with slot_bound [OF i] have "i < 2 ^ 52" unfolding mult_1_right by linarith
  then have "i < 2 ^ 64" by simp
  then have u: "unat (of_nat i :: u64) = i" by (simp only: unat_of_nat) simp
  have "unat (fr_start (ba_range a)) + unat (of_nat i :: u64) * unat sz < 2 ^ 52" using slot_bound [OF i] unfolding u by linarith
  then have "frame_add L sz (fr_start (ba_range a)) (of_nat i) = Some (slot_addr sz a i)"
    by (simp only: kernel_lib_frame_add [OF L] slot_addr_def)
  then show ?thesis using i(1) by (auto simp: frame_at_def kernel_lib_len [OF L] bitmap_inv_def)
qed

text \<open>The frames an allocator may hand out.\<close>

definition free_slot :: "('b \<Rightarrow> bool list) \<Rightarrow> 'b bitmap_allocator \<Rightarrow> nat \<Rightarrow> bool" where
  "free_slot bits a i \<longleftrightarrow> bits (ba_valid a) ! i \<and> \<not> bits (ba_allocated a) ! i"

lemma available_bits:
  assumes L: "kernel_lib_correct L bits" and i: "bitmap_inv bits sz N n a"
  shows "length (bits (available L a)) = 64 * N" "\<forall>i < 64 * N. bits (available L a) ! i \<longleftrightarrow> free_slot bits a i"
proof -
  have l: "length (bits (ba_allocated a)) = 64 * N" "length (bits (ba_valid a)) = 64 * N" using i by (simp_all add: bitmap_inv_def)
  have b: "bits (available L a) = map2 (\<and>) (bits (ba_valid a)) (map Not (bits (ba_allocated a)))"
    using l by (simp add: available_def kernel_lib_and [OF L] kernel_lib_not [OF L])
  then show "length (bits (available L a)) = 64 * N" using l by simp
  show "\<forall>i < 64 * N. bits (available L a) ! i \<longleftrightarrow> free_slot bits a i" using l by (simp add: b free_slot_def)
qed

lemma bits_set_correct:
  assumes "kernel_lib_correct L bits" "bits_set L b i v = Some b'"
  shows "i < length (bits b)" "bits b' = (bits b)[i := v]"
  using kernel_lib_set [OF assms(1), of b i v] assms(2) by (auto split: if_splits)

lemma bits_fill_correct:
  assumes "kernel_lib_correct L bits" "bits_fill L b s e v = Some b'"
  shows "s \<le> e" "e \<le> length (bits b)" "length (bits b') = length (bits b)"
    "\<forall>i < length (bits b). bits b' ! i = (if s \<le> i \<and> i < e then v else bits b ! i)"
proof -
  have se: "s \<le> e" "e \<le> length (bits b)" and b': "bits b' = take s (bits b) @ replicate (e - s) v @ drop e (bits b)"
    using kernel_lib_fill [OF assms(1), of b s e v] assms(2) by (auto split: if_splits)
  then show "s \<le> e" "e \<le> length (bits b)" "length (bits b') = length (bits b)" by simp_all
  show "\<forall>i < length (bits b). bits b' ! i = (if s \<le> i \<and> i < e then v else bits b ! i)"
    using se by (auto simp: b' nth_append)
qed

lemma mark_valid_effect:
  assumes L: "kernel_lib_correct L bits" and i: "bitmap_inv bits sz N n a" and m: "bitmap_mark_valid L sz a rg v = Ok a'"
  obtains s e where "frame_idx sz a (fr_start rg) = Some s" "frame_idx sz a (fr_end rg) = Some e" "s \<le> e" "e \<le> n"
    "bitmap_inv bits sz N n a'" "ba_allocated a' = ba_allocated a" "ba_range a' = ba_range a"
    "\<forall>i < 64 * N. bits (ba_valid a') ! i = (if s \<le> i \<and> i < e then v else bits (ba_valid a) ! i)"
proof -
  from m obtain s e b where se: "frame_idx sz a (fr_start rg) = Some s" "frame_idx sz a (fr_end rg) = Some e"
    and b: "bits_fill L (ba_valid a) s e v = Some b" and a': "a' = a\<lparr>ba_valid := b\<rparr>"
    by (auto simp: bitmap_mark_valid_def result_simps split: option.splits)
  note f = bits_fill_correct [OF L b]
  have e: "e \<le> n" by (rule idx_slot(1) [OF i se(2)])
  have v: "\<forall>i < 64 * N. bits (ba_valid a') ! i = (if s \<le> i \<and> i < e then v else bits (ba_valid a) ! i)"
    using f(4) i by (simp add: a' bitmap_inv_def)
  have "bitmap_inv bits sz N n a'" using i f(3,4) e by (auto simp: bitmap_inv_def a' split: if_splits)
  with that [OF se f(1) e this _ _ v] show ?thesis by (simp add: a')
qed

lemma allocate_frame_effect:
  assumes L: "kernel_lib_correct L bits" and i: "bitmap_inv bits sz N n a" and m: "bitmap_allocate_frame L sz a = Ok (Some f, a')"
  obtains j where "j < n" "j < 64 * N" "free_slot bits a j" "f = slot_addr sz a j" "bitmap_inv bits sz N n a'"
    "ba_valid a' = ba_valid a" "ba_range a' = ba_range a" "bits (ba_allocated a') = (bits (ba_allocated a))[j := True]"
proof -
  note fo = kernel_lib_first [OF L]
  from m obtain j b where j: "first_one L (available L a) = Some j" and b: "bits_set L (ba_allocated a) j True = Some b"
    and a': "a' = a\<lparr>ba_allocated := b\<rparr>" and f: "frame_at L sz a' j = Ok (Some f)"
    by (auto simp: bitmap_allocate_frame_def available_def [symmetric] result_simps Let_def split: option.splits)
  note s = bits_set_correct [OF L b]
  note av = available_bits [OF L i]
  have j': "j < 64 * N" "free_slot bits a j" using j av by (auto simp: fo find_Some_iff)
  then have n: "j < n" using i by (auto simp: free_slot_def bitmap_inv_def)
  have i': "bitmap_inv bits sz N n a'" using i s by (simp add: bitmap_inv_def a')
  have "f = slot_addr sz a j" using frame_at_slot [OF L i', of j] f n j' by (simp add: slot_addr_def a')
  with that [OF n j' this i'] s show ?thesis by (simp add: a')
qed

lemma allocate_frame_none:
  assumes L: "kernel_lib_correct L bits" and i: "bitmap_inv bits sz N n a"
  shows "bitmap_allocate_frame L sz a = Ok (None, a) \<longleftrightarrow> (\<forall>j < 64 * N. \<not> free_slot bits a j)"
    "bitmap_allocate_frame L sz a = Ok (None, a) \<or> (\<exists>f a'. bitmap_allocate_frame L sz a = Ok (Some f, a'))"
proof -
  note fo = kernel_lib_first [OF L]
  note av = available_bits [OF L i]
  have none: "first_one L (available L a) = None \<longleftrightarrow> (\<forall>j < 64 * N. \<not> free_slot bits a j)"
    using av by (auto simp: fo find_None_iff)
  have some: "\<exists>b f. bits_set L (ba_allocated a) j True = Some b \<and> frame_at L sz (a\<lparr>ba_allocated := b\<rparr>) j = Ok (Some f)"
    if "first_one L (available L a) = Some j" for j
  proof -
    have j: "j < 64 * N" "free_slot bits a j" using that av by (auto simp: fo find_Some_iff)
    then have n: "j < n" using i by (auto simp: free_slot_def bitmap_inv_def)
    have "map_option bits (bits_set L (ba_allocated a) j True) = Some ((bits (ba_allocated a))[j := True])"
      using i j by (simp add: kernel_lib_set [OF L] bitmap_inv_def)
    then obtain b where b: "bits_set L (ba_allocated a) j True = Some b" "bits b = (bits (ba_allocated a))[j := True]" by auto
    have "bitmap_inv bits sz N n (a\<lparr>ba_allocated := b\<rparr>)" using i b(2) by (simp add: bitmap_inv_def)
    from frame_at_slot [OF L this, of j] b(1) n j show ?thesis by simp
  qed
  show "bitmap_allocate_frame L sz a = Ok (None, a) \<longleftrightarrow> (\<forall>j < 64 * N. \<not> free_slot bits a j)"
    using none some
    by (auto simp: bitmap_allocate_frame_def available_def [symmetric] result_simps Let_def split: option.splits)
  show "bitmap_allocate_frame L sz a = Ok (None, a) \<or> (\<exists>f a'. bitmap_allocate_frame L sz a = Ok (Some f, a'))"
    using some by (auto simp: bitmap_allocate_frame_def available_def [symmetric] result_simps Let_def split: option.splits)
qed

lemma deallocate_effect:
  assumes L: "kernel_lib_correct L bits" and i: "bitmap_inv bits sz N n a" and j: "j < n"
    and m: "bitmap_deallocate_frame L sz a (slot_addr sz a j) = Ok a'"
  shows "bitmap_inv bits sz N n a'" "ba_valid a' = ba_valid a" "ba_range a' = ba_range a"
    "bits (ba_allocated a') = (bits (ba_allocated a))[j := False]" "bits (ba_allocated a) ! j"
proof -
  have idx: "frame_idx sz a (slot_addr sz a j) = Some j" using j by (intro slot_idx [OF i]) simp
  note g = kernel_lib_get [OF L]
  from m obtain b where b: "bits_set L (ba_allocated a) j False = Some b" and a': "a' = a\<lparr>ba_allocated := b\<rparr>"
    and al: "bits_get L (ba_allocated a) j = Some True"
    by (auto simp: bitmap_deallocate_frame_def idx result_simps split: if_splits)
  note s = bits_set_correct [OF L b]
  show "bitmap_inv bits sz N n a'" using i s by (simp add: bitmap_inv_def a')
  show "ba_valid a' = ba_valid a" "ba_range a' = ba_range a" "bits (ba_allocated a') = (bits (ba_allocated a))[j := False]"
    using s by (simp_all add: a')
  show "bits (ba_allocated a) ! j" using al by (simp add: g split: if_splits)
qed

lemma find_enumerate:
  assumes "find snd (List.enumerate 0 ws) = Some (idx, w)"
  shows "idx < length ws" "ws ! idx" "\<forall>k < idx. \<not> ws ! k"
  using assms by (auto simp: find_Some_iff nth_enumerate_eq)

lemma windows_found:
  assumes L: "kernel_lib_correct L bits" and i: "bitmap_inv bits sz N n a" and ws: "windows_all L (available L a) num = Some ws"
    and f: "find snd (List.enumerate 0 ws) = Some (idx, w)"
  shows "num \<noteq> 0" "idx + num \<le> n" "\<forall>j. idx \<le> j \<and> j < idx + num \<longrightarrow> free_slot bits a j"
proof -
  note av = available_bits [OF L i]
  note wa = kernel_lib_windows [OF L]
  show num: "num \<noteq> 0" using ws by (auto simp: wa split: if_splits)
  then have ws': "ws = map (\<lambda>i. list_all id (take num (drop i (bits (available L a))))) [0..<64 * N + 1 - num]" using ws av(1) by (simp add: wa)
  have idx: "idx < 64 * N + 1 - num" "list_all id (take num (drop idx (bits (available L a))))"
    using find_enumerate(1,2) [OF f] by (auto simp: ws')
  have le: "idx + num \<le> 64 * N" using idx(1) by linarith
  show fr: "\<forall>j. idx \<le> j \<and> j < idx + num \<longrightarrow> free_slot bits a j"
  proof (intro allI impI)
    fix j assume j: "idx \<le> j \<and> j < idx + num"
    then have "j - idx < num" by linarith
    with idx(2) le av(1) have "bits (available L a) ! (idx + (j - idx))" by (simp add: list_all_length)
    then have "bits (available L a) ! j" using j by simp
    then show "free_slot bits a j" using av(2) j le by simp
  qed
  have "free_slot bits a (idx + num - 1)" using fr num by simp
  then have "idx + num - 1 < n" using i le num by (simp add: free_slot_def bitmap_inv_def)
  then show "idx + num \<le> n" by linarith
qed

lemma contiguous_effect:
  assumes L: "kernel_lib_correct L bits" and i: "bitmap_inv bits sz N n a"
    and m: "bitmap_allocate_contiguous L sz a num = Ok (Some rg, a')"
  obtains j where "num \<noteq> 0" "j + num \<le> n" "\<forall>k. j \<le> k \<and> k < j + num \<longrightarrow> free_slot bits a k"
    "rg = \<lparr>fr_start = slot_addr sz a j, fr_end = slot_addr sz a (j + num)\<rparr>" "bitmap_inv bits sz N n a'"
    "ba_valid a' = ba_valid a" "ba_range a' = ba_range a"
    "\<forall>k < 64 * N. bits (ba_allocated a') ! k = (if j \<le> k \<and> k < j + num then True else bits (ba_allocated a) ! k)"
proof -
  from m obtain ws j w where ws: "windows_all L (available L a) num = Some ws" and f: "find snd (List.enumerate 0 ws) = Some (j, w)"
    by (auto simp: bitmap_allocate_contiguous_def result_simps split: option.splits)
  note w = windows_found [OF L i ws f]
  have fj: "frame_at L sz a j = Ok (if j < 64 * N then Some (slot_addr sz a j) else None)"
    "frame_at L sz a (j + num) = Ok (if j + num < 64 * N then Some (slot_addr sz a (j + num)) else None)"
    using w(2) by (intro frame_at_slot [OF L i]; linarith)+
  have ix: "frame_idx sz a (slot_addr sz a j) = Some j" "frame_idx sz a (slot_addr sz a (j + num)) = Some (j + num)"
    using w(2) by (intro slot_idx [OF i]; linarith)+
  define sr where "sr = \<lparr>fr_start = slot_addr sz a j, fr_end = slot_addr sz a (j + num)\<rparr>"
  have m': "bitmap_allocate L sz a sr = Ok (Some rg, a')"
    using m ws f fj by (auto simp: bitmap_allocate_contiguous_def sr_def result_simps split: if_splits)
  then obtain b where b: "bits_fill L (ba_allocated a) j (j + num) True = Some b" and a': "a' = a\<lparr>ba_allocated := b\<rparr>" and rg: "rg = sr"
    using ix by (auto simp: bitmap_allocate_def sr_def result_simps split: if_splits)
  note fl = bits_fill_correct [OF L b]
  have "bitmap_inv bits sz N n a'" using i fl(3) by (simp add: bitmap_inv_def a')
  moreover have "\<forall>k < 64 * N. bits (ba_allocated a') ! k = (if j \<le> k \<and> k < j + num then True else bits (ba_allocated a) ! k)"
    using fl(4) i by (simp add: a' bitmap_inv_def)
  ultimately show ?thesis using that [OF w rg [unfolded sr_def]] by (simp add: a')
qed

text \<open>The last frames of a full bitmap cannot be handed out together: the code asks for the frame behind them.\<close>

lemma contiguous_panics_at_end:
  assumes L: "kernel_lib_correct L bits" and i: "bitmap_inv bits sz N (64 * N) a" and num: "num \<noteq> 0" "num \<le> 64 * N"
    and last: "\<forall>j < 64 * N. free_slot bits a j \<longleftrightarrow> 64 * N - num \<le> j"
  shows "bitmap_allocate_contiguous L sz a num = Panic"
proof -
  note av = available_bits [OF L i]
  define W where "W = (\<lambda>i. list_all id (take num (drop i (bits (available L a)))))"
  define m where "m = 64 * N - num"
  have ws: "windows_all L (available L a) num = Some (map W [0..<m + 1])"
    using num av(1) by (simp add: kernel_lib_windows [OF L] W_def m_def Suc_diff_le)
  have W: "\<not> W i" if "i < m" for i
    using that num av last [rule_format, of i] unfolding W_def m_def list_all_length by (auto intro!: exI [of _ 0])
  have "W m" using num av last by (auto simp: W_def m_def list_all_length)
  then have "find snd (List.enumerate 0 (map W [0..<m + 1])) = Some (m, True)"
    unfolding find_Some_iff using W by (intro exI [of _ m]) (auto simp: nth_enumerate_eq nth_append simp del: upt_Suc)
  moreover have "frame_at L sz a m = Ok (Some (slot_addr sz a m))" "frame_at L sz a (m + num) = Ok None"
    using frame_at_slot [OF L i, of m] frame_at_slot [OF L i, of "m + num"] num by (simp_all add: m_def)
  ultimately show ?thesis by (simp add: bitmap_allocate_contiguous_def ws del: upt_Suc)
qed


text \<open>The largest streak of free frames.\<close>

definition maximal_streak :: "(nat \<Rightarrow> bool) \<Rightarrow> nat \<Rightarrow> nat \<Rightarrow> bool" where
  "maximal_streak P s e \<longleftrightarrow> s \<le> e \<and> (\<forall>x. s \<le> x \<and> x \<le> e \<longrightarrow> P x) \<and> (s = 0 \<or> \<not> P (s - 1))"

definition scan_state :: "(nat \<Rightarrow> bool) \<Rightarrow> nat \<Rightarrow> (nat \<times> nat) option \<Rightarrow> bool" where
  "scan_state P a st \<longleftrightarrow>
     (case st of None \<Rightarrow> \<forall>x < a. \<not> P x
      | Some (s, e) \<Rightarrow> e < a \<and> maximal_streak P s e \<and> (\<forall>x. e < x \<and> x < a \<longrightarrow> \<not> P x))"

lemma scan_step:
  assumes "scan_state P a st" "P a"
  shows "maximal_streak P (case st of None \<Rightarrow> a | Some (s, e) \<Rightarrow> if a = e + 1 then s else a) a"
  using assms by (cases st) (auto simp: scan_state_def maximal_streak_def le_Suc_eq split: if_splits)

lemma streaks_maximal:
  assumes "scan_state P a st"
  shows "(\<forall>(s, e) \<in> set (streaks st (filter P [a..<b])). maximal_streak P s e \<and> e < b) \<and>
    (\<forall>e. a \<le> e \<and> e < b \<and> P e \<longrightarrow> (\<exists>s. (s, e) \<in> set (streaks st (filter P [a..<b]))))"
  using assms
proof (induction "b - a" arbitrary: a st)
  case (Suc n)
  then have ab: "a < b" "n = b - Suc a" by simp_all
  show ?case
  proof (cases "P a")
    case True
    define s where "s = (case st of None \<Rightarrow> a | Some (s, e) \<Rightarrow> if a = e + 1 then s else a)"
    have ms: "maximal_streak P s a" unfolding s_def by (rule scan_step [OF Suc.prems True])
    then have "scan_state P (Suc a) (Some (s, a))" by (auto simp: scan_state_def)
    from Suc.hyps(1) [OF ab(2) this] have
      ih: "\<forall>(s, e) \<in> set (streaks (Some (s, a)) (filter P [Suc a..<b])). maximal_streak P s e \<and> e < b"
      "\<forall>e. Suc a \<le> e \<and> e < b \<and> P e \<longrightarrow> (\<exists>s'. (s', e) \<in> set (streaks (Some (s, a)) (filter P [Suc a..<b])))" by blast+
    have st: "streaks st (filter P [a..<b]) = (s, a) # streaks (Some (s, a)) (filter P [Suc a..<b])"
      using ab(1) True by (simp add: upt_conv_Cons Let_def s_def)
    have "\<exists>s'. (s', e) \<in> set (streaks st (filter P [a..<b]))" if "a \<le> e" "e < b" "P e" for e
      using that ih(2) by (cases "e = a") (auto simp: st)
    with ih(1) ms ab(1) show ?thesis by (auto simp: st)
  next
    case False
    then have "scan_state P (Suc a) st" using Suc.prems by (auto simp: scan_state_def less_Suc_eq split: option.splits)
    note ih = Suc.hyps(1) [OF ab(2) this]
    have f: "filter P [a..<b] = filter P [Suc a..<b]" using ab(1) False by (subst upt_conv_Cons) simp_all
    have "Suc a \<le> e" if "a \<le> e" "P e" for e using that False by (cases "e = a") auto
    with ih show ?thesis unfolding f by blast
  qed
qed simp

lemma max_by_key_Some:
  "max_by_key f xs = Some x \<Longrightarrow> x \<in> set xs \<and> (\<forall>y \<in> set xs. f y \<le> f x)"
proof (induction xs arbitrary: x)
  case (Cons y ys)
  show ?case
  proof (cases "max_by_key f ys")
    case None
    then have "ys = []" by (cases ys) (auto split: option.splits if_splits)
    with Cons.prems show ?thesis by simp
  next
    case (Some z)
    with Cons.IH [OF Some] Cons.prems show ?thesis by (auto split: if_splits)
  qed
qed simp

lemma max_by_key_None: "max_by_key f xs = None \<longleftrightarrow> xs = []"
  by (cases xs) (auto split: option.splits)

lemma largest_available_longest:
  assumes L: "kernel_lib_correct L bits" and i: "bitmap_inv bits sz N n a"
  obtains "bitmap_largest_available L sz a = Ok None" "\<forall>j < 64 * N. \<not> free_slot bits a j"
  | s e where "bitmap_largest_available L sz a = Ok (Some \<lparr>fr_start = slot_addr sz a s, fr_end = slot_addr sz a (e + 1)\<rparr>)"
    "s \<le> e" "e < n" "\<forall>j. s \<le> j \<and> j \<le> e \<longrightarrow> free_slot bits a j"
    "\<forall>j k. (\<forall>x. j \<le> x \<and> x \<le> k \<longrightarrow> free_slot bits a x) \<and> k < 64 * N \<longrightarrow> k - j \<le> e - s"
proof -
  let ?P = "free_slot bits a"
  note av = available_bits [OF L i]
  have ids: "iter_ones L (available L a) = filter ?P [0..<64 * N]"
    unfolding kernel_lib_iter [OF L] av(1) using av(2) by (intro filter_cong) auto
  have st: "(\<forall>(s, e) \<in> set (streaks None (filter ?P [0..<64 * N])). maximal_streak ?P s e \<and> e < 64 * N) \<and>
    (\<forall>e. 0 \<le> e \<and> e < 64 * N \<and> ?P e \<longrightarrow> (\<exists>s. (s, e) \<in> set (streaks None (filter ?P [0..<64 * N]))))"
    by (rule streaks_maximal) (simp add: scan_state_def)
  show ?thesis
  proof (cases "max_by_key (\<lambda>(s, e). e - s) (streaks None (filter ?P [0..<64 * N]))")
    case None
    then have "bitmap_largest_available L sz a = Ok None" by (simp add: bitmap_largest_available_def ids)
    moreover have "\<forall>j < 64 * N. \<not> ?P j" using None st by (auto simp: max_by_key_None)
    ultimately show ?thesis by (rule that(1))
  next
    case (Some se)
    obtain s e where se: "se = (s, e)" by fastforce
    note mx = max_by_key_Some [OF Some]
    have m: "maximal_streak ?P s e" "e < 64 * N" using mx st by (auto simp: se)
    then have free: "s \<le> e" "\<forall>j. s \<le> j \<and> j \<le> e \<longrightarrow> ?P j" by (auto simp: maximal_streak_def)
    have en: "e < n" using free m(2) i by (auto simp: free_slot_def bitmap_inv_def)
    have "frame_at L sz a s = Ok (Some (slot_addr sz a s))" "frame_at L sz a e = Ok (Some (slot_addr sz a e))"
      using frame_at_slot [OF L i, of s] frame_at_slot [OF L i, of e] free(1) en m(2) by simp_all
    moreover have "frame_add L sz (slot_addr sz a e) 1 = Some (slot_addr sz a (e + 1))"
    proof -
      have "unat (slot_addr sz a e) + unat (1 :: u64) * unat sz < 2 ^ 52"
        using slot_unat [OF i, of e] slot_bound [OF i, of "Suc e"] en by simp
      from kernel_lib_frame_add [OF L this] show ?thesis by (simp add: slot_addr_def algebra_simps)
    qed
    ultimately have r: "bitmap_largest_available L sz a = Ok (Some \<lparr>fr_start = slot_addr sz a s, fr_end = slot_addr sz a (e + 1)\<rparr>)"
      using Some by (simp add: bitmap_largest_available_def ids se)
    have "\<forall>j k. (\<forall>x. j \<le> x \<and> x \<le> k \<longrightarrow> ?P x) \<and> k < 64 * N \<longrightarrow> k - j \<le> e - s"
    proof (intro allI impI)
      fix j k assume jk: "(\<forall>x. j \<le> x \<and> x \<le> k \<longrightarrow> ?P x) \<and> k < 64 * N"
      show "k - j \<le> e - s"
      proof (cases "j \<le> k")
        case True
        with jk st obtain s' where s': "(s', k) \<in> set (streaks None (filter ?P [0..<64 * N]))" by blast
        then have "s' = 0 \<or> \<not> ?P (s' - 1)" "s' \<le> k" using st by (auto simp: maximal_streak_def)
        have "s' \<le> j"
        proof (rule ccontr)
          assume "\<not> s' \<le> j"
          then have "j \<le> s' - 1" "s' - 1 \<le> k" "s' \<noteq> 0" using \<open>s' \<le> k\<close> by linarith+
          with jk \<open>s' = 0 \<or> \<not> ?P (s' - 1)\<close> show False by blast
        qed
        moreover have "k - s' \<le> e - s" using mx s' by (auto simp: se)
        ultimately show ?thesis by linarith
      qed simp
    qed
    from that(2) [OF r free(1) en free(2) this] show ?thesis .
  qed
qed


subsection \<open>The memory that is marked as valid\<close>

text \<open>The large allocator covers memory from address 0 on, so the frame of an index is a multiple of its size.\<close>

definition large_inv :: "('b \<Rightarrow> bool list) \<Rightarrow> nat \<Rightarrow> 'b bitmap_allocator \<Rightarrow> bool" where
  "large_inv bits N a \<longleftrightarrow> bitmap_inv bits SIZE_2MIB N (64 * N) a \<and> fr_start (ba_range a) = 0"

definition large_region :: "nat \<Rightarrow> nat set" where
  "large_region i = {i * 2 ^ 21 ..< Suc i * 2 ^ 21}"

definition valid_slots :: "('b \<Rightarrow> bool list) \<Rightarrow> nat \<Rightarrow> 'b bitmap_allocator \<Rightarrow> nat set" where
  "valid_slots bits N a = {i. i < 64 * N \<and> bits (ba_valid a) ! i}"

lemma SIZE_2MIB_power: "SIZE_2MIB = 2 ^ 21" "unat SIZE_2MIB = 2 ^ 21"
  by (simp_all add: SIZE_2MIB_def)

lemma pm_new_inv:
  assumes L: "kernel_lib_correct L bits" and N: "N < 2 ^ 25" and p: "pm_new L N = Ok p"
  shows "large_inv bits N (large_frames p)" "valid_slots bits N (large_frames p) = {}" "small_frames p = None"
proof -
  have e: "unat (of_nat N * 64 * SIZE_2MIB) = 64 * N * 2 ^ 21"
  proof -
    have "of_nat N * 64 * SIZE_2MIB = (of_nat (64 * N * 2 ^ 21) :: u64)" by (simp add: SIZE_2MIB_def)
    moreover have "64 * N * 2 ^ 21 < 2 ^ 64" using N by simp
    ultimately show ?thesis by (simp only: unat_of_nat) simp
  qed
  from p have p': "p = \<lparr>large_frames = \<lparr>ba_allocated = bits_zero L N, ba_valid = bits_zero L N,
      ba_range = \<lparr>fr_start = 0, fr_end = of_nat N * 64 * SIZE_2MIB\<rparr>\<rparr>, small_frames = None\<rparr>"
    by (auto simp: pm_new_def pm_new_range_def bitmap_new_def result_simps Let_def split: if_splits)
  note z = kernel_lib_zero [OF L]
  have "64 * N * 2 ^ 21 < 2 ^ 52" using N by simp
  then show "large_inv bits N (large_frames p)" using z e by (simp add: p' large_inv_def bitmap_inv_def SIZE_2MIB_def)
  show "valid_slots bits N (large_frames p) = {}" "small_frames p = None" by (auto simp: p' valid_slots_def z)
qed

text \<open>Aligned addresses and their ranges.\<close>

lemma aligned_down_Ok:
  assumes "kernel_lib_correct L bits" "aligned_addr (align_down L) L x = Ok y"
  shows "unat y = unat x div 2 ^ 21 * 2 ^ 21"
proof -
  have "align_down L x (2 ^ 21) = Some (x - x mod 2 ^ 21)" by (rule kernel_lib_align_down [OF assms(1)]) simp
  then have "y = x - x mod 2 ^ 21"
    using assms(2) unfolding aligned_addr_def SIZE_2MIB_power(1) by (simp add: kernel_lib_phys_addr [OF assms(1)] split: if_splits)
  moreover have "unat (x - x mod 2 ^ 21) = unat x - unat x mod 2 ^ 21"
    by (subst unat_sub) (simp_all add: word_le_nat_alt unat_mod)
  ultimately show ?thesis by (metis minus_mod_eq_div_mult)
qed

lemma aligned_up_Ok:
  assumes "kernel_lib_correct L bits" "aligned_addr (align_up L) L x = Ok y"
  shows "unat y = (unat x + 2 ^ 21 - 1) div 2 ^ 21 * 2 ^ 21"
proof -
  define n where "n = (unat x + 2 ^ 21 - 1) div 2 ^ 21 * 2 ^ 21"
  have "align_up L x (2 ^ 21) = (if n < 2 ^ 64 then Some (of_nat n) else None)"
    using kernel_lib_align_up [OF assms(1), of 21 x] unfolding n_def Let_def by linarith
  then have "n < 2 ^ 64" "y = of_nat n"
    using assms(2) unfolding aligned_addr_def SIZE_2MIB_power(1) by (simp_all add: kernel_lib_phys_addr [OF assms(1)] split: if_splits)
  then show ?thesis unfolding n_def [symmetric] by (simp only: unat_of_nat) simp
qed

lemma frame_idx_exact:
  assumes i: "large_inv bits N a" and f: "frame_idx SIZE_2MIB a f = Some i" "unat f = k * 2 ^ 21"
  shows "k = i"
proof -
  have "i * 2 ^ 21 \<le> k * 2 ^ 21" "k * 2 ^ 21 < Suc i * 2 ^ 21"
    using idx_slot [of bits SIZE_2MIB N "64 * N" a f i] i f by (simp_all add: large_inv_def SIZE_2MIB_power)
  then have "i \<le> k" "k < Suc i" by simp_all
  then show ?thesis by simp
qed

lemma mark_valid_large:
  assumes L: "kernel_lib_correct L bits" and i: "large_inv bits N (large_frames p)"
    and rg: "unat (fr_start rg) = s * 2 ^ 21" "unat (fr_end rg) = e * 2 ^ 21" and m: "pm_mark_valid L p rg v = Ok p'"
  shows "large_inv bits N (large_frames p')" "small_frames p' = small_frames p" "ba_allocated (large_frames p') = ba_allocated (large_frames p)"
    "ba_range (large_frames p') = ba_range (large_frames p)"
    "valid_slots bits N (large_frames p') =
       (if v then valid_slots bits N (large_frames p) \<union> {s..<e} else valid_slots bits N (large_frames p) - {s..<e})"
proof -
  let ?a = "large_frames p"
  from m obtain a' where a': "bitmap_mark_valid L SIZE_2MIB ?a rg v = Ok a'" and p': "p' = p\<lparr>large_frames := a'\<rparr>"
    by (auto simp: pm_mark_valid_def result_simps)
  have i': "bitmap_inv bits SIZE_2MIB N (64 * N) ?a" using i by (simp add: large_inv_def)
  from mark_valid_effect [OF L i' a'] obtain s' e' where
    se: "frame_idx SIZE_2MIB ?a (fr_start rg) = Some s'" "frame_idx SIZE_2MIB ?a (fr_end rg) = Some e'" "e' \<le> 64 * N"
    and r: "bitmap_inv bits SIZE_2MIB N (64 * N) a'" "ba_allocated a' = ba_allocated ?a" "ba_range a' = ba_range ?a"
    "\<forall>i < 64 * N. bits (ba_valid a') ! i = (if s' \<le> i \<and> i < e' then v else bits (ba_valid ?a) ! i)" by blast
  have "s' = s" "e' = e" using frame_idx_exact [OF i se(1) rg(1)] frame_idx_exact [OF i se(2) rg(2)] by simp_all
  then show "valid_slots bits N (large_frames p') = (if v then valid_slots bits N ?a \<union> {s..<e} else valid_slots bits N ?a - {s..<e})"
    using r(4) se(3) by (auto simp: valid_slots_def p' split: if_splits)
  show "large_inv bits N (large_frames p')" "small_frames p' = small_frames p" "ba_allocated (large_frames p') = ba_allocated ?a"
    "ba_range (large_frames p') = ba_range ?a"
    using r i by (simp_all add: p' large_inv_def)
qed

definition ram_region :: "e820_entry \<Rightarrow> nat set" where
  "ram_region e = (if entry_type e = Some E820_RAM then {unat (e820_addr e) ..< unat (e820_addr e) + unat (e820_size e)} else {})"

definition load_region :: "program_header \<Rightarrow> nat set" where
  "load_region ph = (if p_load ph then {unat (p_paddr ph) ..< unat (p_paddr ph) + unat (p_memsz ph)} else {})"

definition ramdisk_region :: "ramdisk \<Rightarrow> nat set" where
  "ramdisk_region rd = {unat (rd_addr rd) ..< unat (rd_addr rd) + unat (rd_size rd)}"

lemma outer_range_Ok:
  assumes L: "kernel_lib_correct L bits" and r: "outer_range L start limit = Ok rg"
  obtains s e where "unat (fr_start rg) = s * 2 ^ 21" "unat (fr_end rg) = e * 2 ^ 21"
    "s * 2 ^ 21 \<le> unat start" "unat start < Suc s * 2 ^ 21" "unat limit \<le> e * 2 ^ 21"
proof -
  from r obtain x y where x: "aligned_addr (align_down L) L start = Ok x" and y: "aligned_addr (align_up L) L limit = Ok y"
    and rg: "rg = \<lparr>fr_start = x, fr_end = y\<rparr>"
    by (auto simp: outer_range_def result_simps dest!: kernel_lib_from_start [OF L])
  have "unat start div 2 ^ 21 * 2 ^ 21 \<le> unat start" by (rule div_times_less_eq_dividend)
  moreover have "unat start < Suc (unat start div 2 ^ 21) * 2 ^ 21" using dividend_less_div_times [of "2 ^ 21" "unat start"] by simp
  moreover have "unat limit \<le> (unat limit + 2 ^ 21 - 1) div 2 ^ 21 * 2 ^ 21"
    using dividend_less_div_times [of "2 ^ 21" "unat limit + 2 ^ 21 - 1"] by simp
  ultimately show ?thesis using that aligned_down_Ok [OF L x] aligned_up_Ok [OF L y] by (simp add: rg)
qed

lemma disjoint_outer:
  assumes "s * 2 ^ 21 \<le> a" "b \<le> e * 2 ^ 21" "i \<notin> {s..<e}"
  shows "large_region i \<inter> {a..<b} = {}"
proof (cases "i < s")
  case True
  then have "Suc i * 2 ^ 21 \<le> s * 2 ^ 21" by (intro mult_le_mono1) simp
  with assms(1) show ?thesis by (auto simp: large_region_def)
next
  case False
  with assms(3) have "e * 2 ^ 21 \<le> i * 2 ^ 21" by (intro mult_le_mono1) simp
  with assms(2) show ?thesis by (auto simp: large_region_def)
qed

lemma mark_outer:
  assumes L: "kernel_lib_correct L bits" and i: "large_inv bits N (large_frames p)"
    and r: "outer_range L start limit = Ok rg" and m: "pm_mark_valid L p rg False = Ok p'"
  shows "large_inv bits N (large_frames p')" "small_frames p' = small_frames p"
    "valid_slots bits N (large_frames p') \<subseteq> {i \<in> valid_slots bits N (large_frames p). large_region i \<inter> {unat start ..< unat limit} = {}}"
proof -
  from outer_range_Ok [OF L r] obtain s e where se: "unat (fr_start rg) = s * 2 ^ 21" "unat (fr_end rg) = e * 2 ^ 21"
    "s * 2 ^ 21 \<le> unat start" "unat limit \<le> e * 2 ^ 21" by blast
  note mv = mark_valid_large [OF L i se(1,2) m]
  show "large_inv bits N (large_frames p')" "small_frames p' = small_frames p" by (rule mv)+
  show "valid_slots bits N (large_frames p') \<subseteq> {i \<in> valid_slots bits N (large_frames p). large_region i \<inter> {unat start ..< unat limit} = {}}"
    unfolding mv(5) using disjoint_outer [OF se(3,4)] by (simp add: subset_iff)
qed

lemma mark_ram_effect:
  assumes L: "kernel_lib_correct L bits" and i: "large_inv bits N (large_frames p)" and m: "mark_ram L e p = Ok p'"
  shows "large_inv bits N (large_frames p')" "small_frames p' = small_frames p"
    "valid_slots bits N (large_frames p') \<subseteq> valid_slots bits N (large_frames p) \<union> {i. large_region i \<subseteq> ram_region e}"
proof -
  have "large_inv bits N (large_frames p') \<and> small_frames p' = small_frames p \<and>
    valid_slots bits N (large_frames p') \<subseteq> valid_slots bits N (large_frames p) \<union> {i. large_region i \<subseteq> ram_region e}"
  proof (cases "p' = p")
    case False
    with m obtain x y rg where t: "entry_type e = Some E820_RAM" and x: "aligned_addr (align_up L) L (e820_addr e) = Ok x"
      and y: "aligned_addr (align_down L) L (e820_addr e + e820_size e) = Ok y" and xy: "x < y" and rg: "large_range L x y = Ok rg"
      and p': "pm_mark_valid L p rg True = Ok p'"
      by (auto simp: mark_ram_def result_simps split: if_splits)
    have rg': "rg = \<lparr>fr_start = x, fr_end = y\<rparr>" using rg by (auto simp: large_range_def result_simps dest!: kernel_lib_from_start [OF L])
    define s where "s = (unat (e820_addr e) + 2 ^ 21 - 1) div 2 ^ 21"
    define f where "f = unat (e820_addr e + e820_size e) div 2 ^ 21"
    have s: "unat (fr_start rg) = s * 2 ^ 21" "unat (fr_end rg) = f * 2 ^ 21"
      using aligned_up_Ok [OF L x] aligned_down_Ok [OF L y] by (simp_all add: rg' s_def f_def)
    have lo: "unat (e820_addr e) \<le> s * 2 ^ 21" unfolding s_def
      using dividend_less_div_times [of "2 ^ 21" "unat (e820_addr e) + 2 ^ 21 - 1"] by simp
    have hi: "f * 2 ^ 21 \<le> unat (e820_addr e + e820_size e)" unfolding f_def by (rule div_times_less_eq_dividend)
    have "unat (e820_addr e + e820_size e) \<le> unat (e820_addr e) + unat (e820_size e)" by (simp add: unat_word_ariths)
    with hi have hi': "f * 2 ^ 21 \<le> unat (e820_addr e) + unat (e820_size e)" by linarith
    have "large_region j \<subseteq> ram_region e" if "j \<in> {s..<f}" for j
    proof -
      have "s * 2 ^ 21 \<le> j * 2 ^ 21" "Suc j * 2 ^ 21 \<le> f * 2 ^ 21" using that by (intro mult_le_mono1; simp)+
      with lo hi' t show ?thesis by (auto simp: large_region_def ram_region_def)
    qed
    with mark_valid_large [OF L i s p'] show ?thesis by (simp add: subset_iff)
  qed (use i in auto)
  then show "large_inv bits N (large_frames p')" "small_frames p' = small_frames p"
    "valid_slots bits N (large_frames p') \<subseteq> valid_slots bits N (large_frames p) \<union> {i. large_region i \<subseteq> ram_region e}" by auto
qed

lemma mark_loaded_effect:
  assumes L: "kernel_lib_correct L bits" and i: "large_inv bits N (large_frames p)" and m: "mark_loaded L ph p = Ok p'"
    and w: "unat (p_paddr ph) + unat (p_memsz ph) < 2 ^ 64"
  shows "large_inv bits N (large_frames p')" "small_frames p' = small_frames p"
    "valid_slots bits N (large_frames p') \<subseteq> {i \<in> valid_slots bits N (large_frames p). large_region i \<inter> load_region ph = {}}"
proof -
  have u: "unat (p_paddr ph + p_memsz ph) = unat (p_paddr ph) + unat (p_memsz ph)" using w by (simp add: unat_word_ariths)
  have "large_inv bits N (large_frames p') \<and> small_frames p' = small_frames p \<and>
    valid_slots bits N (large_frames p') \<subseteq> {i \<in> valid_slots bits N (large_frames p). large_region i \<inter> load_region ph = {}}"
  proof (cases "p_load ph")
    case True
    with m obtain rg where "outer_range L (p_paddr ph) (p_paddr ph + p_memsz ph) = Ok rg" "pm_mark_valid L p rg False = Ok p'"
      by (auto simp: mark_loaded_def result_simps)
    from mark_outer [OF L i this] True show ?thesis by (simp add: load_region_def u)
  qed (use i m in \<open>auto simp: mark_loaded_def load_region_def\<close>)
  then show "large_inv bits N (large_frames p')" "small_frames p' = small_frames p"
    "valid_slots bits N (large_frames p') \<subseteq> {i \<in> valid_slots bits N (large_frames p). large_region i \<inter> load_region ph = {}}" by auto
qed

lemma mark_all_ram:
  assumes L: "kernel_lib_correct L bits" and "large_inv bits N (large_frames p)" "fold_result (mark_ram L) es p = Ok p'"
  shows "large_inv bits N (large_frames p') \<and> small_frames p' = small_frames p \<and>
    valid_slots bits N (large_frames p') \<subseteq> valid_slots bits N (large_frames p) \<union> {i. \<exists>e \<in> set es. large_region i \<subseteq> ram_region e}"
  using assms(2,3)
proof (induction es arbitrary: p)
  case (Cons e es)
  from Cons.prems(2) obtain q where q: "mark_ram L e p = Ok q" "fold_result (mark_ram L) es q = Ok p'" by (auto simp: result_simps)
  from mark_ram_effect [OF L Cons.prems(1) q(1)] Cons.IH [OF _ q(2)] show ?case by fastforce
qed auto

lemma mark_all_loaded:
  assumes L: "kernel_lib_correct L bits" and "large_inv bits N (large_frames p)" "fold_result (mark_loaded L) phs p = Ok p'"
    "\<forall>ph \<in> set phs. unat (p_paddr ph) + unat (p_memsz ph) < 2 ^ 64"
  shows "large_inv bits N (large_frames p') \<and> small_frames p' = small_frames p \<and>
    valid_slots bits N (large_frames p') \<subseteq> {i \<in> valid_slots bits N (large_frames p). \<forall>ph \<in> set phs. large_region i \<inter> load_region ph = {}}"
  using assms(2-4)
proof (induction phs arbitrary: p)
  case (Cons ph phs)
  from Cons.prems(2) obtain q where q: "mark_loaded L ph p = Ok q" "fold_result (mark_loaded L) phs q = Ok p'" by (auto simp: result_simps)
  have w: "unat (p_paddr ph) + unat (p_memsz ph) < 2 ^ 64" using Cons.prems(3) by simp
  from mark_loaded_effect [OF L Cons.prems(1) q(1) w] Cons.IH [OF _ q(2)] Cons.prems(3) show ?case by fastforce
qed auto

text \<open>The frames that are neither outside of RAM nor in use from the start.\<close>

definition usable_frame :: "e820_entry list \<Rightarrow> program_header list \<Rightarrow> ramdisk \<Rightarrow> nat \<Rightarrow> bool" where
  "usable_frame es phs rd i \<longleftrightarrow>
     (\<exists>e \<in> set es. large_region i \<subseteq> ram_region e) \<and> i \<noteq> 0 \<and>
     (\<forall>ph \<in> set phs. large_region i \<inter> load_region ph = {}) \<and> large_region i \<inter> ramdisk_region rd = {}"

lemma mm_init_valid:
  assumes L: "kernel_lib_correct L bits" and i: "large_inv bits N (large_frames p)" "valid_slots bits N (large_frames p) = {}"
    and m: "mm_init L es phs rd p = Ok p'"
    and w: "\<forall>ph \<in> set phs. unat (p_paddr ph) + unat (p_memsz ph) < 2 ^ 64" "unat (rd_addr rd) + unat (rd_size rd) < 2 ^ 32"
  shows "large_inv bits N (large_frames p')" "small_frames p' = small_frames p"
    "valid_slots bits N (large_frames p') \<subseteq> {i. usable_frame es phs rd i}"
proof -
  from m obtain p1 low p2 p3 rg where p1: "fold_result (mark_ram L) es p = Ok p1" and low: "large_range L 0 SIZE_2MIB = Ok low"
    and p2: "pm_mark_valid L p1 low False = Ok p2" and p3: "fold_result (mark_loaded L) phs p2 = Ok p3"
    and rg: "ramdisk_range L rd = Ok rg" and p': "pm_mark_valid L p3 rg False = Ok p'"
    by (auto simp: mm_init_def result_simps kernel_lib_phys_addr [OF L] split: if_splits)
  note i1 = mark_all_ram [OF L i(1) p1]
  have low': "unat (fr_start low) = 0 * 2 ^ 21" "unat (fr_end low) = 1 * 2 ^ 21"
    using low by (auto simp: large_range_def result_simps SIZE_2MIB_def dest!: kernel_lib_from_start [OF L])
  note i2 = mark_valid_large [OF L conjunct1 [OF i1] low' p2]
  note i3 = mark_all_loaded [OF L i2(1) p3 w(1)]
  have "unat (rd_addr rd + rd_size rd) = unat (rd_addr rd) + unat (rd_size rd)" using w(2) by (simp add: unat_word_ariths)
  then have u: "unat (ucast (rd_addr rd + rd_size rd) :: u64) = unat (rd_addr rd) + unat (rd_size rd)"
    by (simp add: unat_ucast_up)
  note i4 = mark_outer [OF L conjunct1 [OF i3] rg [unfolded ramdisk_range_def] p']
  show "large_inv bits N (large_frames p')" by (rule i4(1))
  show "small_frames p' = small_frames p" using i1 i2 i3 i4 by simp
  have "valid_slots bits N (large_frames p2) \<subseteq> {i. (\<exists>e \<in> set es. large_region i \<subseteq> ram_region e) \<and> i \<noteq> 0}"
    using i1 i(2) unfolding i2(5) by auto
  then show "valid_slots bits N (large_frames p') \<subseteq> {i. usable_frame es phs rd i}"
    using i3 i4(3) by (simp add: usable_frame_def ramdisk_region_def u unat_ucast_up subset_iff)
qed


subsection \<open>The use of physical memory\<close>

text \<open>
  The state of a run: the allocator, the frames that its users hold, and whether the memory of
  the ramdisk was released. Users give back only frames that they hold, which is what the
  unsafe \<open>deallocate_frame\<close> asks of them.
\<close>

record 'b memory_state =
  ms_alloc :: "'b physical_memory_allocator"
  ms_large :: "u64 set"
  ms_small :: "u64 set"
  ms_released :: bool

definition range_frames :: "u64 \<Rightarrow> frame_range \<Rightarrow> u64 set" where
  "range_frames sz rg = {fr_start rg + of_nat k * sz | k. unat (fr_start rg) + k * unat sz < unat (fr_end rg)}"

definition taken_frames :: "frame_range option \<Rightarrow> u64 set" where
  "taken_frames r = (case r of None \<Rightarrow> {} | Some rg \<Rightarrow> range_frames SIZE_2MIB rg)"

inductive memory_reachable :: "'b kernel_lib \<Rightarrow> ramdisk \<Rightarrow> 'b physical_memory_allocator \<Rightarrow> 'b memory_state \<Rightarrow> bool"
  for L rd p where
  start: "memory_reachable L rd p \<lparr>ms_alloc = p, ms_large = {}, ms_small = {}, ms_released = False\<rparr>"
| take_large: "memory_reachable L rd p s \<Longrightarrow> allocate_frame_2mib L (ms_alloc s) = Ok (f, q) \<Longrightarrow>
    memory_reachable L rd p (s\<lparr>ms_alloc := q, ms_large := ms_large s \<union> set_option f\<rparr>)"
| take_range: "memory_reachable L rd p s \<Longrightarrow> pm_allocate_contiguous L (ms_alloc s) num = Ok (r, q) \<Longrightarrow>
    memory_reachable L rd p (s\<lparr>ms_alloc := q, ms_large := ms_large s \<union> taken_frames r\<rparr>)"
| take_small: "memory_reachable L rd p s \<Longrightarrow> allocate_frame_4kib L (ms_alloc s) = Ok (f, q) \<Longrightarrow>
    memory_reachable L rd p (s\<lparr>ms_alloc := q, ms_small := ms_small s \<union> set_option f\<rparr>)"
| free_large: "memory_reachable L rd p s \<Longrightarrow> f \<in> ms_large s \<Longrightarrow> deallocate_frame_2mib L (ms_alloc s) f = Ok q \<Longrightarrow>
    memory_reachable L rd p (s\<lparr>ms_alloc := q, ms_large := ms_large s - {f}\<rparr>)"
| free_small: "memory_reachable L rd p s \<Longrightarrow> f \<in> ms_small s \<Longrightarrow> deallocate_frame_4kib L (ms_alloc s) f = Ok q \<Longrightarrow>
    memory_reachable L rd p (s\<lparr>ms_alloc := q, ms_small := ms_small s - {f}\<rparr>)"
| release: "memory_reachable L rd p s \<Longrightarrow> release_ramdisk L rd (ms_alloc s) = Ok q \<Longrightarrow>
    memory_reachable L rd p (s\<lparr>ms_alloc := q, ms_released := True\<rparr>)"

definition in_ramdisk_range :: "'b kernel_lib \<Rightarrow> ramdisk \<Rightarrow> nat \<Rightarrow> bool" where
  "in_ramdisk_range L rd i \<longleftrightarrow>
     (case ramdisk_range L rd of Ok rg \<Rightarrow> large_region i \<subseteq> {unat (fr_start rg) ..< unat (fr_end rg)} | _ \<Rightarrow> False)"

definition may_hold :: "'b kernel_lib \<Rightarrow> ramdisk \<Rightarrow> (nat \<Rightarrow> bool) \<Rightarrow> bool \<Rightarrow> nat \<Rightarrow> bool" where
  "may_hold L rd U released i \<longleftrightarrow> U i \<or> released \<and> in_ramdisk_range L rd i"

text \<open>A frame of the large allocator that is taken, and the invariant of a run.\<close>

definition taken_slot :: "('b \<Rightarrow> bool list) \<Rightarrow> nat \<Rightarrow> (nat \<Rightarrow> bool) \<Rightarrow> 'b bitmap_allocator \<Rightarrow> nat \<Rightarrow> bool" where
  "taken_slot bits N H a i \<longleftrightarrow> i < 64 * N \<and> bits (ba_allocated a) ! i \<and> H i"

definition small_inv :: "('b \<Rightarrow> bool list) \<Rightarrow> nat \<Rightarrow> (nat \<Rightarrow> bool) \<Rightarrow> 'b bitmap_allocator \<Rightarrow> u64 set \<Rightarrow> u64 set \<Rightarrow> 'b bitmap_allocator \<Rightarrow> bool" where
  "small_inv bits N H a large small b \<longleftrightarrow>
     bitmap_inv bits SIZE_4KIB 8 512 b \<and>
     (\<exists>i. taken_slot bits N H a i \<and> fr_start (ba_range b) = slot_addr SIZE_2MIB a i \<and> slot_addr SIZE_2MIB a i \<notin> large) \<and>
     (\<forall>g \<in> small. \<exists>j < 512. g = slot_addr SIZE_4KIB b j \<and> bits (ba_allocated b) ! j)"

definition memory_inv :: "('b \<Rightarrow> bool list) \<Rightarrow> nat \<Rightarrow> (nat \<Rightarrow> bool) \<Rightarrow> 'b physical_memory_allocator \<Rightarrow> u64 set \<Rightarrow> u64 set \<Rightarrow> bool" where
  "memory_inv bits N H p large small \<longleftrightarrow>
     large_inv bits N (large_frames p) \<and> valid_slots bits N (large_frames p) \<subseteq> {i. H i} \<and>
     (\<forall>f \<in> large. \<exists>i. taken_slot bits N H (large_frames p) i \<and> f = slot_addr SIZE_2MIB (large_frames p) i) \<and>
     (case small_frames p of None \<Rightarrow> small = {} | Some b \<Rightarrow> small_inv bits N H (large_frames p) large small b)"

lemma large_slot_unat: "large_inv bits N a \<Longrightarrow> i \<le> 64 * N \<Longrightarrow> unat (slot_addr SIZE_2MIB a i) = i * 2 ^ 21"
  using slot_unat [of bits SIZE_2MIB N "64 * N" a i] by (simp only: large_inv_def SIZE_2MIB_power(2) unsigned_0 add_0)

lemma large_slot_inj:
  assumes "large_inv bits N a" "i \<le> 64 * N" "j \<le> 64 * N" "slot_addr SIZE_2MIB a i = slot_addr SIZE_2MIB a j"
  shows "i = j"
proof -
  have "i * 2 ^ 21 = j * (2 ^ 21 :: nat)"
    unfolding large_slot_unat [OF assms(1,2), symmetric] large_slot_unat [OF assms(1,3), symmetric] assms(4) by (rule refl)
  then show ?thesis by simp
qed

text \<open>
  Taking frames of the large allocator that are free, in one step: the frames taken before stay
  taken, and the new ones are none of them.
\<close>

lemma take_slots:
  assumes m: "memory_inv bits N H p large small" and J: "J \<subseteq> {j. j < 64 * N \<and> free_slot bits (large_frames p) j}"
    and a: "large_inv bits N a" "ba_valid a = ba_valid (large_frames p)" "ba_range a = ba_range (large_frames p)"
    "\<forall>k < 64 * N. bits (ba_allocated a) ! k \<longleftrightarrow> k \<in> J \<or> bits (ba_allocated (large_frames p)) ! k"
  shows "memory_inv bits N H (p\<lparr>large_frames := a\<rparr>) (large \<union> slot_addr SIZE_2MIB a ` J) small"
    "slot_addr SIZE_2MIB a ` J \<inter> large = {}" "\<forall>j \<in> J. taken_slot bits N H a j"
proof -
  let ?a = "large_frames p"
  have sl: "slot_addr SIZE_2MIB a i = slot_addr SIZE_2MIB ?a i" for i by (simp add: slot_addr_def a(3))
  have keep: "taken_slot bits N H a i" if "taken_slot bits N H ?a i" for i using that a(4) by (simp add: taken_slot_def)
  have li: "large_inv bits N ?a" and vs: "valid_slots bits N ?a \<subseteq> {i. H i}"
    and lg: "\<forall>f \<in> large. \<exists>i. taken_slot bits N H ?a i \<and> f = slot_addr SIZE_2MIB ?a i" using m by (simp_all add: memory_inv_def)
  show new: "\<forall>j \<in> J. taken_slot bits N H a j"
    using J vs a(4) by (auto simp: taken_slot_def valid_slots_def free_slot_def)
  have fresh: "slot_addr SIZE_2MIB a i \<notin> slot_addr SIZE_2MIB a ` J" if i: "taken_slot bits N H ?a i" for i
  proof
    assume "slot_addr SIZE_2MIB a i \<in> slot_addr SIZE_2MIB a ` J"
    then obtain j where j: "j \<in> J" "slot_addr SIZE_2MIB a i = slot_addr SIZE_2MIB a j" by blast
    then have "i = j" using large_slot_inj [OF a(1), of i j] i J by (auto simp: taken_slot_def)
    with i j(1) J show False by (auto simp: taken_slot_def free_slot_def)
  qed
  show "slot_addr SIZE_2MIB a ` J \<inter> large = {}"
  proof (intro equals0I)
    fix f assume f: "f \<in> slot_addr SIZE_2MIB a ` J \<inter> large"
    then obtain i where "taken_slot bits N H ?a i" "f = slot_addr SIZE_2MIB a i" using lg by (auto simp: sl)
    with fresh f show False by simp
  qed
  have "case small_frames p of None \<Rightarrow> small = {} | Some b \<Rightarrow> small_inv bits N H a (large \<union> slot_addr SIZE_2MIB a ` J) small b"
  proof (cases "small_frames p")
    case (Some b)
    then have "small_inv bits N H ?a large small b" using m by (simp add: memory_inv_def)
    then obtain i where i: "taken_slot bits N H ?a i" "fr_start (ba_range b) = slot_addr SIZE_2MIB ?a i" "slot_addr SIZE_2MIB ?a i \<notin> large"
      and r: "bitmap_inv bits SIZE_4KIB 8 512 b" "\<forall>g \<in> small. \<exists>j < 512. g = slot_addr SIZE_4KIB b j \<and> bits (ba_allocated b) ! j"
      unfolding small_inv_def by blast
    have "slot_addr SIZE_2MIB a i \<notin> large \<union> slot_addr SIZE_2MIB a ` J" using i fresh [OF i(1)] by (simp add: sl)
    with i(2) keep [OF i(1)] have "\<exists>i. taken_slot bits N H a i \<and> fr_start (ba_range b) = slot_addr SIZE_2MIB a i \<and>
        slot_addr SIZE_2MIB a i \<notin> large \<union> slot_addr SIZE_2MIB a ` J" unfolding sl by blast
    with r Some show ?thesis by (simp add: small_inv_def)
  qed (use m in \<open>simp add: memory_inv_def\<close>)
  moreover have "valid_slots bits N a \<subseteq> {i. H i}" using vs by (simp add: valid_slots_def a(2))
  moreover have "\<forall>f \<in> large \<union> slot_addr SIZE_2MIB a ` J. \<exists>i. taken_slot bits N H a i \<and> f = slot_addr SIZE_2MIB a i"
  proof
    fix f assume "f \<in> large \<union> slot_addr SIZE_2MIB a ` J"
    then show "\<exists>i. taken_slot bits N H a i \<and> f = slot_addr SIZE_2MIB a i"
    proof
      assume "f \<in> large"
      then obtain i where "taken_slot bits N H ?a i" "f = slot_addr SIZE_2MIB ?a i" using lg by blast
      with keep show ?thesis unfolding sl by blast
    qed (use new in blast)
  qed
  ultimately show "memory_inv bits N H (p\<lparr>large_frames := a\<rparr>) (large \<union> slot_addr SIZE_2MIB a ` J) small"
    using a(1) by (cases "small_frames p") (simp_all add: memory_inv_def)
qed

lemma take_large_inv:
  assumes L: "kernel_lib_correct L bits" and m: "memory_inv bits N H p large small" and t: "allocate_frame_2mib L p = Ok (f, q)"
  shows "memory_inv bits N H q (large \<union> set_option f) small \<and> set_option f \<inter> large = {}"
proof -
  let ?a = "large_frames p"
  have i: "large_inv bits N ?a" "bitmap_inv bits SIZE_2MIB N (64 * N) ?a" using m by (simp_all add: memory_inv_def large_inv_def)
  from t obtain a where a: "bitmap_allocate_frame L SIZE_2MIB ?a = Ok (f, a)" and q: "q = p\<lparr>large_frames := a\<rparr>"
    by (auto simp: allocate_frame_2mib_def result_simps)
  show ?thesis
  proof (cases f)
    case None
    with a allocate_frame_none(2) [OF L i(2)] have "q = p" by (auto simp: q)
    with m None show ?thesis by simp
  next
    case (Some g)
    from allocate_frame_effect [OF L i(2) a [unfolded Some]] obtain j where
      j: "j < 64 * N" "free_slot bits ?a j" "g = slot_addr SIZE_2MIB ?a j" "bitmap_inv bits SIZE_2MIB N (64 * N) a"
      "ba_valid a = ba_valid ?a" "ba_range a = ba_range ?a" "bits (ba_allocated a) = (bits (ba_allocated ?a))[j := True]" by blast
    have al: "\<forall>k < 64 * N. bits (ba_allocated a) ! k \<longleftrightarrow> k \<in> {j} \<or> bits (ba_allocated ?a) ! k"
      using j(1,7) i(2) by (auto simp: bitmap_inv_def nth_list_update)
    have "large_inv bits N a" using i(1) j(4,6) by (simp add: large_inv_def)
    from take_slots(1,2) [OF m _ this j(5,6) al] j(1,2)
    have "memory_inv bits N H q (large \<union> slot_addr SIZE_2MIB a ` {j}) small" "slot_addr SIZE_2MIB a ` {j} \<inter> large = {}" by (simp_all add: q)
    moreover have "slot_addr SIZE_2MIB a j = g" using j(3,6) by (simp add: slot_addr_def)
    ultimately show ?thesis by (simp add: Some)
  qed
qed

lemma range_frames_slots:
  assumes i: "large_inv bits N a" and n: "j + num \<le> 64 * N"
  shows "range_frames SIZE_2MIB \<lparr>fr_start = slot_addr SIZE_2MIB a j, fr_end = slot_addr SIZE_2MIB a (j + num)\<rparr> =
    slot_addr SIZE_2MIB a ` {j..<j + num}"
proof -
  have u: "unat (slot_addr SIZE_2MIB a j) = j * 2 ^ 21" "unat (slot_addr SIZE_2MIB a (j + num)) = (j + num) * 2 ^ 21"
    using n by (intro large_slot_unat [OF i]; linarith)+
  have c: "j * 2 ^ 21 + k * 2 ^ 21 < (j + num) * (2 ^ 21 :: nat) \<longleftrightarrow> k < num" for k by (simp add: distrib_right)
  have s: "slot_addr SIZE_2MIB a j + of_nat k * SIZE_2MIB = slot_addr SIZE_2MIB a (j + k)" for k
    by (simp add: slot_addr_def algebra_simps)
  have "range_frames SIZE_2MIB \<lparr>fr_start = slot_addr SIZE_2MIB a j, fr_end = slot_addr SIZE_2MIB a (j + num)\<rparr> =
    (\<lambda>k. slot_addr SIZE_2MIB a (j + k)) ` {..<num}"
    by (auto simp only: range_frames_def frame_range.simps u SIZE_2MIB_power(2) c s image_def lessThan_iff)
  also have "\<dots> = slot_addr SIZE_2MIB a ` ((+) j ` {..<num})" by (simp add: image_image)
  finally show ?thesis by (simp add: lessThan_atLeast0 add.commute)
qed

lemma take_range_inv:
  assumes L: "kernel_lib_correct L bits" and m: "memory_inv bits N H p large small" and t: "pm_allocate_contiguous L p num = Ok (r, q)"
  shows "memory_inv bits N H q (large \<union> taken_frames r) small"
proof -
  let ?a = "large_frames p"
  have i: "large_inv bits N ?a" "bitmap_inv bits SIZE_2MIB N (64 * N) ?a" using m by (simp_all add: memory_inv_def large_inv_def)
  from t obtain a where a: "bitmap_allocate_contiguous L SIZE_2MIB ?a num = Ok (r, a)" and q: "q = p\<lparr>large_frames := a\<rparr>"
    by (auto simp: pm_allocate_contiguous_def result_simps)
  show ?thesis
  proof (cases r)
    case None
    with a have "a = ?a"
      by (auto simp: bitmap_allocate_contiguous_def bitmap_allocate_def result_simps split: option.splits if_splits)
    with m None show ?thesis by (simp add: q taken_frames_def)
  next
    case (Some rg)
    from contiguous_effect [OF L i(2) a [unfolded Some]] obtain j where
      j: "j + num \<le> 64 * N" "\<forall>k. j \<le> k \<and> k < j + num \<longrightarrow> free_slot bits ?a k"
      "rg = \<lparr>fr_start = slot_addr SIZE_2MIB ?a j, fr_end = slot_addr SIZE_2MIB ?a (j + num)\<rparr>"
      "bitmap_inv bits SIZE_2MIB N (64 * N) a" "ba_valid a = ba_valid ?a" "ba_range a = ba_range ?a"
      "\<forall>k < 64 * N. bits (ba_allocated a) ! k = (if j \<le> k \<and> k < j + num then True else bits (ba_allocated ?a) ! k)" by blast
    have li: "large_inv bits N a" using i(1) j(4,6) by (simp add: large_inv_def)
    have J: "{j..<j + num} \<subseteq> {k. k < 64 * N \<and> free_slot bits ?a k}" using j(1,2) by auto
    have al: "\<forall>k < 64 * N. bits (ba_allocated a) ! k \<longleftrightarrow> k \<in> {j..<j + num} \<or> bits (ba_allocated ?a) ! k" using j(7) by auto
    have "slot_addr SIZE_2MIB a = slot_addr SIZE_2MIB ?a" using j(6) by (simp add: slot_addr_def fun_eq_iff)
    with take_slots(1) [OF m J li j(5,6) al] range_frames_slots [OF i(1) j(1)] show ?thesis by (simp add: q Some taken_frames_def j(3))
  qed
qed

lemma memory_inv_mono:
  assumes "memory_inv bits N H p large small" "\<forall>i. H i \<longrightarrow> H' i"
  shows "memory_inv bits N H' p large small"
proof -
  have t: "taken_slot bits N H' a i" if "taken_slot bits N H a i" for a i using that assms(2) by (simp add: taken_slot_def)
  have "small_inv bits N H' (large_frames p) large small b" if "small_frames p = Some b" for b
  proof -
    have "small_inv bits N H (large_frames p) large small b" using assms(1) that by (simp add: memory_inv_def)
    with t show ?thesis unfolding small_inv_def by blast
  qed
  moreover have "valid_slots bits N (large_frames p) \<subseteq> {i. H' i}" using assms by (auto simp: memory_inv_def)
  moreover have "\<forall>f \<in> large. \<exists>i. taken_slot bits N H' (large_frames p) i \<and> f = slot_addr SIZE_2MIB (large_frames p) i"
    using assms(1) t unfolding memory_inv_def by blast
  ultimately show ?thesis using assms(1) by (cases "small_frames p") (simp_all add: memory_inv_def)
qed

lemma SIZE_4KIB_unat: "unat SIZE_4KIB = 4096"
  by (simp add: SIZE_4KIB_def)

lemma split_inv:
  assumes L: "kernel_lib_correct L bits" and m: "memory_inv bits N H p large small" and n: "small_frames p = None"
    and t: "split_large_frame L (large_frames p) = Ok (a, b)"
  shows "memory_inv bits N H \<lparr>large_frames = a, small_frames = Some b\<rparr> large small"
proof -
  let ?a = "large_frames p"
  from t obtain f e b0 where f: "bitmap_allocate_frame L SIZE_2MIB ?a = Ok (Some f, a)"
    and fe: "phys_addr_add L f SIZE_2MIB = Some e" and b0: "bitmap_new L SIZE_4KIB 8 \<lparr>fr_start = f, fr_end = e\<rparr> = Ok b0"
    and b: "bitmap_mark_valid L SIZE_4KIB b0 \<lparr>fr_start = f, fr_end = e\<rparr> True = Ok b"
    by (auto simp: split_large_frame_def result_simps Let_def dest!: kernel_lib_from_start [OF L])
  have e: "unat f + 2 ^ 21 < 2 ^ 52" "e = f + SIZE_2MIB" using fe by (auto simp: kernel_lib_phys_add [OF L] SIZE_2MIB_def split: if_splits)
  have ue: "unat e = unat f + 512 * unat SIZE_4KIB"
    using e unat_slot [of f 1 SIZE_2MIB] by (simp add: SIZE_2MIB_def SIZE_4KIB_def)
  note z = kernel_lib_zero [OF L]
  have "bitmap_inv bits SIZE_4KIB 8 512 b0"
    using b0 z ue e(1) by (auto simp: bitmap_new_def bitmap_inv_def SIZE_4KIB_def Let_def split: if_splits)
  then obtain b: "bitmap_inv bits SIZE_4KIB 8 512 b" "fr_start (ba_range b) = f"
    using mark_valid_effect [OF L _ b] b0 by (force simp: bitmap_new_def Let_def split: if_splits)
  have "allocate_frame_2mib L p = Ok (Some f, p\<lparr>large_frames := a\<rparr>)" using f by (simp add: allocate_frame_2mib_def)
  from take_large_inv [OF L m this] have m': "memory_inv bits N H (p\<lparr>large_frames := a\<rparr>) (large \<union> {f}) small" "f \<notin> large" by auto
  have "small = {}" using m n by (simp add: memory_inv_def)
  moreover from m' have "\<exists>i. taken_slot bits N H a i \<and> f = slot_addr SIZE_2MIB a i" by (simp add: memory_inv_def)
  ultimately have "small_inv bits N H a large small b" using b m'(2) unfolding small_inv_def by auto
  with m'(1) show ?thesis by (simp add: memory_inv_def)
qed

lemma take_from_small:
  assumes L: "kernel_lib_correct L bits" and i: "small_inv bits N H a large small b" and t: "bitmap_allocate_frame L SIZE_4KIB b = Ok (f, b')"
  shows "small_inv bits N H a large (small \<union> set_option f) b'"
proof -
  have bi: "bitmap_inv bits SIZE_4KIB 8 512 b" using i by (simp add: small_inv_def)
  show ?thesis
  proof (cases f)
    case None
    with t allocate_frame_none(2) [OF L bi] have "b' = b" by auto
    with i None show ?thesis by simp
  next
    case (Some g)
    from allocate_frame_effect [OF L bi t [unfolded Some]] obtain j where
      j: "j < 512" "g = slot_addr SIZE_4KIB b j" "bitmap_inv bits SIZE_4KIB 8 512 b'" "ba_range b' = ba_range b"
      "bits (ba_allocated b') = (bits (ba_allocated b))[j := True]" by blast
    have sl: "slot_addr SIZE_4KIB b' k = slot_addr SIZE_4KIB b k" for k by (simp add: slot_addr_def j(4))
    have al: "bits (ba_allocated b') ! k \<longleftrightarrow> k = j \<or> bits (ba_allocated b) ! k" if "k < 512" for k
      using that j(1,5) bi by (auto simp: bitmap_inv_def nth_list_update)
    have "\<forall>g \<in> small \<union> {slot_addr SIZE_4KIB b j}. \<exists>k < 512. g = slot_addr SIZE_4KIB b k \<and> bits (ba_allocated b') ! k"
      using i al j(1) unfolding small_inv_def by blast
    with i j(3,4) show ?thesis unfolding small_inv_def by (simp add: Some j(2) sl)
  qed
qed

lemma take_small_inv:
  assumes L: "kernel_lib_correct L bits" and m: "memory_inv bits N H p large small" and t: "allocate_frame_4kib L p = Ok (f, q)"
  shows "memory_inv bits N H q large (small \<union> set_option f)"
proof -
  from t obtain a b b' where ab: "(case small_frames p of Some small \<Rightarrow> Ok (large_frames p, small) | None \<Rightarrow> split_large_frame L (large_frames p)) = Ok (a, b)"
    and b': "bitmap_allocate_frame L SIZE_4KIB b = Ok (f, b')" and q: "q = \<lparr>large_frames = a, small_frames = Some b'\<rparr>"
    by (auto simp: allocate_frame_4kib_def result_simps)
  have m': "memory_inv bits N H \<lparr>large_frames = a, small_frames = Some b\<rparr> large small"
  proof (cases "small_frames p")
    case None
    with ab have "split_large_frame L (large_frames p) = Ok (a, b)" by simp
    from split_inv [OF L m None this] show ?thesis .
  next
    case (Some c)
    with ab m show ?thesis by (simp add: memory_inv_def)
  qed
  then have "small_inv bits N H a large small b" by (simp add: memory_inv_def)
  from take_from_small [OF L this b'] m' show ?thesis by (simp add: memory_inv_def q)
qed

lemma free_large_inv:
  assumes L: "kernel_lib_correct L bits" and m: "memory_inv bits N H p large small" and f: "f \<in> large"
    and t: "deallocate_frame_2mib L p f = Ok q"
  shows "memory_inv bits N H q (large - {f}) small"
proof -
  let ?a = "large_frames p"
  have i: "large_inv bits N ?a" "bitmap_inv bits SIZE_2MIB N (64 * N) ?a" using m by (simp_all add: memory_inv_def large_inv_def)
  from t obtain a where a: "bitmap_deallocate_frame L SIZE_2MIB ?a f = Ok a" and q: "q = p\<lparr>large_frames := a\<rparr>"
    by (auto simp: deallocate_frame_2mib_def result_simps)
  from m f obtain j where j: "j < 64 * N" "f = slot_addr SIZE_2MIB ?a j" by (auto simp: memory_inv_def taken_slot_def)
  note d = deallocate_effect [OF L i(2) j(1) a [unfolded j(2)]]
  have sl: "slot_addr SIZE_2MIB a k = slot_addr SIZE_2MIB ?a k" for k by (simp add: slot_addr_def d(3))
  have keep: "taken_slot bits N H a k" if "taken_slot bits N H ?a k" "slot_addr SIZE_2MIB ?a k \<noteq> f" for k
    using that j(2) by (cases "k = j") (simp_all add: taken_slot_def d(4))
  have "small_inv bits N H a (large - {f}) small b" if "small_frames p = Some b" for b
  proof -
    have si: "small_inv bits N H ?a large small b" using m that by (simp add: memory_inv_def)
    then obtain k where k: "taken_slot bits N H ?a k" "fr_start (ba_range b) = slot_addr SIZE_2MIB ?a k" "slot_addr SIZE_2MIB ?a k \<notin> large"
      unfolding small_inv_def by blast
    have "taken_slot bits N H a k" using keep [OF k(1)] k(3) f by blast
    with si k show ?thesis unfolding small_inv_def sl by blast
  qed
  moreover have "\<forall>g \<in> large - {f}. \<exists>k. taken_slot bits N H a k \<and> g = slot_addr SIZE_2MIB a k"
    using m keep unfolding memory_inv_def sl by blast
  moreover have "valid_slots bits N a \<subseteq> {i. H i}" using m by (simp add: memory_inv_def valid_slots_def d(2))
  moreover have "large_inv bits N a" using i d by (simp add: large_inv_def)
  ultimately show ?thesis using m by (cases "small_frames p") (simp_all add: memory_inv_def q)
qed

lemma free_small_inv:
  assumes L: "kernel_lib_correct L bits" and m: "memory_inv bits N H p large small" and f: "f \<in> small"
    and t: "deallocate_frame_4kib L p f = Ok q"
  shows "memory_inv bits N H q large (small - {f})"
proof -
  from t obtain b b' where b: "small_frames p = Some b" "bitmap_deallocate_frame L SIZE_4KIB b f = Ok b'" and q: "q = p\<lparr>small_frames := Some b'\<rparr>"
    by (auto simp: deallocate_frame_4kib_def result_simps)
  have si: "small_inv bits N H (large_frames p) large small b" using m b(1) by (simp add: memory_inv_def)
  then have bi: "bitmap_inv bits SIZE_4KIB 8 512 b" by (simp add: small_inv_def)
  from si f obtain j where j: "j < 512" "f = slot_addr SIZE_4KIB b j" unfolding small_inv_def by blast
  note d = deallocate_effect [OF L bi j(1) b(2) [unfolded j(2)]]
  have sl: "slot_addr SIZE_4KIB b' k = slot_addr SIZE_4KIB b k" for k by (simp add: slot_addr_def d(3))
  have "\<forall>g \<in> small - {f}. \<exists>k < 512. g = slot_addr SIZE_4KIB b k \<and> bits (ba_allocated b') ! k"
  proof
    fix g assume g: "g \<in> small - {f}"
    with si obtain k where k: "k < 512" "g = slot_addr SIZE_4KIB b k" "bits (ba_allocated b) ! k" unfolding small_inv_def by blast
    with g j(2) have "k \<noteq> j" by auto
    with k show "\<exists>k < 512. g = slot_addr SIZE_4KIB b k \<and> bits (ba_allocated b') ! k" by (auto simp: d(4))
  qed
  with si d(1,3) have "small_inv bits N H (large_frames p) large (small - {f}) b'" unfolding small_inv_def sl by simp
  with m show ?thesis by (simp add: memory_inv_def q)
qed

lemma release_inv:
  assumes L: "kernel_lib_correct L bits" and m: "memory_inv bits N (may_hold L rd U r) p large small" and t: "release_ramdisk L rd p = Ok q"
  shows "memory_inv bits N (may_hold L rd U True) q large small"
proof -
  let ?H = "may_hold L rd U True"
  have m': "memory_inv bits N ?H p large small" by (rule memory_inv_mono [OF m]) (simp add: may_hold_def)
  from t obtain rg where rg: "ramdisk_range L rd = Ok rg" "pm_mark_valid L p rg True = Ok q" by (auto simp: release_ramdisk_def result_simps)
  from outer_range_Ok [OF L rg(1) [unfolded ramdisk_range_def]] obtain s e where
    se: "unat (fr_start rg) = s * 2 ^ 21" "unat (fr_end rg) = e * 2 ^ 21" by blast
  have li: "large_inv bits N (large_frames p)" using m by (simp add: memory_inv_def)
  note mv = mark_valid_large [OF L li se rg(2)]
  have sl: "slot_addr SIZE_2MIB (large_frames q) = slot_addr SIZE_2MIB (large_frames p)" by (simp add: slot_addr_def mv(4) fun_eq_iff)
  have tk: "taken_slot bits N ?H (large_frames q) = taken_slot bits N ?H (large_frames p)" by (simp add: taken_slot_def mv(3) fun_eq_iff)
  have "in_ramdisk_range L rd i" if "i \<in> {s..<e}" for i
  proof -
    have "s * 2 ^ 21 \<le> i * 2 ^ 21" "Suc i * 2 ^ 21 \<le> e * 2 ^ 21" using that by (intro mult_le_mono1; simp)+
    then show ?thesis using rg(1) se by (auto simp: in_ramdisk_range_def large_region_def)
  qed
  then have "valid_slots bits N (large_frames q) \<subseteq> {i. ?H i}" using m' unfolding mv(5) memory_inv_def by (auto simp: may_hold_def)
  with m' mv(1,2) show ?thesis unfolding memory_inv_def small_inv_def sl tk by simp
qed

lemma memory_reachable_inv:
  assumes L: "kernel_lib_correct L bits" and p: "large_inv bits N (large_frames p)" "valid_slots bits N (large_frames p) \<subseteq> {i. U i}" "small_frames p = None"
  shows "memory_reachable L rd p s \<Longrightarrow> memory_inv bits N (may_hold L rd U (ms_released s)) (ms_alloc s) (ms_large s) (ms_small s)"
proof (induction rule: memory_reachable.induct)
  case start
  then show ?case using p by (auto simp: memory_inv_def may_hold_def)
next
  case (take_large s f q)
  then show ?case using take_large_inv [OF L] by simp
next
  case (take_range s num r q)
  then show ?case using take_range_inv [OF L] by simp
next
  case (take_small s f q)
  then show ?case using take_small_inv [OF L] by simp
next
  case (free_large s f q)
  then show ?case using free_large_inv [OF L] by simp
next
  case (free_small s f q)
  then show ?case using free_small_inv [OF L] by simp
next
  case (release s q)
  then show ?case using release_inv [OF L] by simp
qed

definition region :: "u64 \<Rightarrow> u64 \<Rightarrow> nat set" where
  "region sz f = {unat f ..< unat f + unat sz}"

lemma multiples_disjoint:
  assumes "i \<noteq> (j :: nat)"
  shows "{b + i * m ..< b + i * m + m} \<inter> {b + j * m ..< b + j * m + m} = {}"
proof -
  have "{b + i * m ..< b + i * m + m} \<inter> {b + j * m ..< b + j * m + m} = {}" if "i < j" for i j
  proof -
    have "Suc i * m \<le> j * m" using that by (intro mult_le_mono1) simp
    then show ?thesis by auto
  qed
  with assms show ?thesis by (cases "i < j") (simp_all add: Int_commute)
qed

lemma region_large:
  assumes "large_inv bits N a" "i < 64 * N"
  shows "region SIZE_2MIB (slot_addr SIZE_2MIB a i) = large_region i"
  using large_slot_unat [OF assms(1), of i] assms(2) by (simp only: region_def large_region_def SIZE_2MIB_power(2) less_imp_le) (simp add: add.commute)

lemma large_regions_disjoint: "i \<noteq> j \<Longrightarrow> large_region i \<inter> large_region j = {}"
  using multiples_disjoint [of i j 0 "2 ^ 21"] by (simp add: large_region_def add.commute)

lemma region_small:
  assumes b: "bitmap_inv bits SIZE_4KIB 8 512 b" and i: "large_inv bits N a" "i < 64 * N" "fr_start (ba_range b) = slot_addr SIZE_2MIB a i" and j: "j < 512"
  shows "region SIZE_4KIB (slot_addr SIZE_4KIB b j) = {i * 2 ^ 21 + j * 4096 ..< i * 2 ^ 21 + j * 4096 + 4096}"
    "region SIZE_4KIB (slot_addr SIZE_4KIB b j) \<subseteq> large_region i"
proof -
  have "unat (slot_addr SIZE_4KIB b j) = i * 2 ^ 21 + j * 4096"
    using slot_unat [OF b, of j] large_slot_unat [OF i(1), of i] i(2,3) j by (simp only: SIZE_4KIB_unat less_imp_le)
  then show r: "region SIZE_4KIB (slot_addr SIZE_4KIB b j) = {i * 2 ^ 21 + j * 4096 ..< i * 2 ^ 21 + j * 4096 + 4096}"
    by (simp only: region_def SIZE_4KIB_unat)
  have "Suc j * 4096 \<le> 512 * 4096" using j by (intro mult_le_mono1) simp
  then show "region SIZE_4KIB (slot_addr SIZE_4KIB b j) \<subseteq> large_region i" unfolding r large_region_def by auto
qed

lemma memory_inv_small:
  assumes m: "memory_inv bits N H p large small" and g: "g \<in> small"
  obtains b i j where "small_frames p = Some b" "bitmap_inv bits SIZE_4KIB 8 512 b" "taken_slot bits N H (large_frames p) i"
    "fr_start (ba_range b) = slot_addr SIZE_2MIB (large_frames p) i" "slot_addr SIZE_2MIB (large_frames p) i \<notin> large"
    "j < 512" "g = slot_addr SIZE_4KIB b j"
proof -
  obtain b where b: "small_frames p = Some b" using m g by (cases "small_frames p") (auto simp: memory_inv_def)
  then have "small_inv bits N H (large_frames p) large small b" using m by (simp add: memory_inv_def)
  with g b that show ?thesis unfolding small_inv_def by blast
qed

lemma memory_inv_disjoint:
  assumes m: "memory_inv bits N H p large small"
  shows "f \<in> large \<Longrightarrow> g \<in> large \<Longrightarrow> f \<noteq> g \<Longrightarrow> region SIZE_2MIB f \<inter> region SIZE_2MIB g = {}"
    "f \<in> large \<Longrightarrow> h \<in> small \<Longrightarrow> region SIZE_2MIB f \<inter> region SIZE_4KIB h = {}"
    "h \<in> small \<Longrightarrow> k \<in> small \<Longrightarrow> h \<noteq> k \<Longrightarrow> region SIZE_4KIB h \<inter> region SIZE_4KIB k = {}"
    "f \<in> large \<Longrightarrow> \<exists>i. region SIZE_2MIB f \<subseteq> large_region i \<and> H i"
    "h \<in> small \<Longrightarrow> \<exists>i. region SIZE_4KIB h \<subseteq> large_region i \<and> H i"
proof -
  let ?a = "large_frames p"
  have li: "large_inv bits N ?a" using m by (simp add: memory_inv_def)
  have lg: "\<exists>i < 64 * N. H i \<and> f = slot_addr SIZE_2MIB ?a i \<and> region SIZE_2MIB f = large_region i" if f: "f \<in> large" for f
  proof -
    from m f obtain i where i: "i < 64 * N" "H i" "f = slot_addr SIZE_2MIB ?a i" unfolding memory_inv_def taken_slot_def by blast
    with region_large [OF li i(1)] show ?thesis by (intro exI [of _ i]) simp
  qed
  show "\<exists>i. region SIZE_2MIB f \<subseteq> large_region i \<and> H i" if "f \<in> large" using lg [OF that] by blast
  show "region SIZE_2MIB f \<inter> region SIZE_2MIB g = {}" if fg: "f \<in> large" "g \<in> large" "f \<noteq> g"
  proof -
    obtain i j where "f = slot_addr SIZE_2MIB ?a i" "region SIZE_2MIB f = large_region i"
      "g = slot_addr SIZE_2MIB ?a j" "region SIZE_2MIB g = large_region j"
      using lg [OF fg(1)] lg [OF fg(2)] by blast
    with fg(3) large_regions_disjoint [of i j] show ?thesis by (cases "i = j") simp_all
  qed
  show "region SIZE_2MIB f \<inter> region SIZE_4KIB h = {}" if f: "f \<in> large" and h: "h \<in> small"
  proof -
    obtain b i j where b0: "small_frames p = Some b" and b: "bitmap_inv bits SIZE_4KIB 8 512 b" "taken_slot bits N H ?a i"
      "fr_start (ba_range b) = slot_addr SIZE_2MIB ?a i" "slot_addr SIZE_2MIB ?a i \<notin> large" "j < 512" "h = slot_addr SIZE_4KIB b j"
      by (rule memory_inv_small [OF m h])
    have "i < 64 * N" using b(2) by (simp add: taken_slot_def)
    from region_small(2) [OF b(1) li this b(3,5)] have "region SIZE_4KIB h \<subseteq> large_region i" by (simp add: b(6))
    moreover obtain k where k: "f = slot_addr SIZE_2MIB ?a k" "region SIZE_2MIB f = large_region k" using lg [OF f] by blast
    moreover have "k \<noteq> i" using k(1) b(4) f by blast
    ultimately show ?thesis using large_regions_disjoint [of k i] by blast
  qed
  show "\<exists>i. region SIZE_4KIB h \<subseteq> large_region i \<and> H i" if h: "h \<in> small"
  proof -
    obtain b i j where b0: "small_frames p = Some b" and b: "bitmap_inv bits SIZE_4KIB 8 512 b" "taken_slot bits N H ?a i"
      "fr_start (ba_range b) = slot_addr SIZE_2MIB ?a i" and bl: "slot_addr SIZE_2MIB ?a i \<notin> large" and b': "j < 512" "h = slot_addr SIZE_4KIB b j"
      by (rule memory_inv_small [OF m h])
    note b = b b'
    have i: "i < 64 * N" "H i" using b(2) by (simp_all add: taken_slot_def)
    from region_small(2) [OF b(1) li i(1) b(3,4)] i(2) show ?thesis by (auto simp: b(5))
  qed
  show "region SIZE_4KIB h \<inter> region SIZE_4KIB k = {}" if h: "h \<in> small" and k: "k \<in> small" and hk: "h \<noteq> k"
  proof -
    obtain b i j where b: "small_frames p = Some b" "bitmap_inv bits SIZE_4KIB 8 512 b" "taken_slot bits N H ?a i"
      "fr_start (ba_range b) = slot_addr SIZE_2MIB ?a i" and bl: "slot_addr SIZE_2MIB ?a i \<notin> large" and bj: "j < 512" "h = slot_addr SIZE_4KIB b j"
      by (rule memory_inv_small [OF m h])
    note b = b bj
    obtain b' i' j' where b': "small_frames p = Some b'" "bitmap_inv bits SIZE_4KIB 8 512 b'" "taken_slot bits N H ?a i'"
      "fr_start (ba_range b') = slot_addr SIZE_2MIB ?a i'" "slot_addr SIZE_2MIB ?a i' \<notin> large" and j': "j' < 512" "k = slot_addr SIZE_4KIB b' j'"
      by (rule memory_inv_small [OF m k])
    have "b' = b" using b'(1) b(1) by simp
    note j' = j' [unfolded this]
    have i: "i < 64 * N" using b(3) by (simp add: taken_slot_def)
    have "j \<noteq> j'" using hk b(6) j'(2) by blast
    then show ?thesis
      unfolding b(6) j'(2) region_small(1) [OF b(2) li i b(4,5)] region_small(1) [OF b(2) li i b(4) j'(1)] by (rule multiples_disjoint)
  qed
qed

text \<open>
  What the code does at its limits: the first request for a small frame panics when there is no
  large frame, a released ramdisk makes every frame of its range valid whatever else it holds,
  and the last page of a range of virtual addresses is never handed out.
\<close>

lemma small_frame_panics:
  assumes L: "kernel_lib_correct L bits" and i: "large_inv bits N (large_frames p)" and n: "small_frames p = None"
    and f: "\<forall>j < 64 * N. \<not> free_slot bits (large_frames p) j"
  shows "allocate_frame_4kib L p = Panic"
proof -
  have "bitmap_inv bits SIZE_2MIB N (64 * N) (large_frames p)" using i by (simp add: large_inv_def)
  with allocate_frame_none(1) [OF L this] f have "bitmap_allocate_frame L SIZE_2MIB (large_frames p) = Ok (None, large_frames p)" by simp
  then show ?thesis using n by (simp add: allocate_frame_4kib_def split_large_frame_def)
qed

lemma release_ignores_sections:
  assumes L: "kernel_lib_correct L bits" and p: "large_inv bits N (large_frames p)" and q: "release_ramdisk L rd p = Ok q"
    and i: "i < 64 * N" "unat (rd_addr rd) \<in> large_region i" "unat (rd_addr rd) < unat (rd_addr rd + rd_size rd)"
  shows "i \<in> valid_slots bits N (large_frames q)"
proof -
  from q obtain rg where rg: "ramdisk_range L rd = Ok rg" "pm_mark_valid L p rg True = Ok q" by (auto simp: release_ramdisk_def result_simps)
  from outer_range_Ok [OF L rg(1) [unfolded ramdisk_range_def]] obtain s e where
    se: "unat (fr_start rg) = s * 2 ^ 21" "unat (fr_end rg) = e * 2 ^ 21" and
    b: "s * 2 ^ 21 \<le> unat (rd_addr rd)" "unat (rd_addr rd) < Suc s * 2 ^ 21" "unat (rd_addr rd + rd_size rd) \<le> e * 2 ^ 21"
    by (auto simp: unat_ucast_up)
  have "i * 2 ^ 21 < Suc s * 2 ^ 21" "s * 2 ^ 21 < Suc i * 2 ^ 21" "i * 2 ^ 21 < e * 2 ^ 21"
    using b i(2,3) unfolding large_region_def atLeastLessThan_iff by linarith+
  then have "i \<in> {s..<e}" by simp
  then show ?thesis unfolding mark_valid_large(5) [OF L p se rg(2)] by simp
qed

lemma va_allocate_next:
  assumes L: "kernel_lib_correct L bits" and m: "va_allocate L sz va count = Ok (r, va')" and w: "unat count * unat sz < 2 ^ 64"
  shows "unat (fr_end (va_range va)) \<le> unat (va_cursor va) + unat count * unat sz \<longrightarrow> r = None \<and> va' = va"
    "unat (va_cursor va) + unat count * unat sz < unat (fr_end (va_range va)) \<longrightarrow>
       r = Some \<lparr>fr_start = va_cursor va, fr_end = va_cursor va'\<rparr> \<and> va_range va' = va_range va \<and>
       unat (va_cursor va') = unat (va_cursor va) + unat count * unat sz"
proof -
  from m obtain nx where nx: "page_add L sz (va_cursor va) count = Some nx"
    and r: "(if nx \<ge> fr_end (va_range va) then Ok (None, va)
      else Ok (Some \<lparr>fr_start = va_cursor va, fr_end = nx\<rparr>, va\<lparr>va_cursor := nx\<rparr>)) = (Ok (r, va') :: (_, unit) result)"
    by (auto simp: va_allocate_def result_simps)
  note pa = kernel_lib_page_add [OF L w nx]
  have u: "unat nx = unat (va_cursor va) + unat count * unat sz"
    using unat_slot [of "va_cursor va" "unat count" sz] pa by simp
  show "unat (fr_end (va_range va)) \<le> unat (va_cursor va) + unat count * unat sz \<longrightarrow> r = None \<and> va' = va"
    "unat (va_cursor va) + unat count * unat sz < unat (fr_end (va_range va)) \<longrightarrow>
       r = Some \<lparr>fr_start = va_cursor va, fr_end = va_cursor va'\<rparr> \<and> va_range va' = va_range va \<and>
       unat (va_cursor va') = unat (va_cursor va) + unat count * unat sz"
    using r u by (auto simp: word_le_nat_alt split: if_splits)
qed

lemma user_range_iff: "is_user_range start len \<longleftrightarrow> unat start + unat len \<le> 2 ^ 47"
proof (cases "unat start + unat len < 2 ^ 64")
  case True
  then have "unat (start + len) = unat start + unat len" by (simp add: unat_word_ariths)
  with True show ?thesis by (simp add: is_user_range_def checked_add_def USERSPACE_VIRT_END_def word_le_nat_alt)
qed (simp add: is_user_range_def checked_add_def)

lemma user_bytes_in_user_space:
  assumes "as_bytes ptr len = Some (Some q, n)"
  shows "q = ptr \<and> n = len \<and> {unat q ..< unat q + unat n} \<subseteq> {..< unat USERSPACE_VIRT_END}"
proof -
  from assms have "q = ptr" "n = len" "is_user_range ptr len"
    by (auto simp: as_bytes_def user_checked_def bind_eq_Some_conv split: if_splits)
  then show ?thesis using user_range_iff [of ptr len] by (auto simp: USERSPACE_VIRT_END_def)
qed

text \<open>
  C40. Physical memory is safe, for bitmaps of less than \<open>2 ^ 25\<close> words, and program headers and
  a ramdisk whose ends do not wrap around: after \<open>mm::init\<close>, in every run in which users take and give back
  frames, the 2 MiB frames and the 4 KiB frames that are in use at the same time never overlap,
  and each lies in a frame of RAM that has no byte of the first 2 MiB, of a loaded section of the
  kernel or of the ramdisk, or, once the ramdisk was released, in the range around the ramdisk.
\<close>

theorem physical_memory_safe:
  assumes "kernel_lib_correct L bits" "N < 2 ^ 25" "pm_new L N = Ok p0" "mm_init L es phs rd p0 = Ok p"
    and "\<forall>ph \<in> set phs. unat (p_paddr ph) + unat (p_memsz ph) < 2 ^ 64" "unat (rd_addr rd) + unat (rd_size rd) < 2 ^ 32"
    and "memory_reachable L rd p s"
  shows "(\<forall>f \<in> ms_large s. \<forall>g \<in> ms_large s. f \<noteq> g \<longrightarrow> region SIZE_2MIB f \<inter> region SIZE_2MIB g = {}) \<and>
    (\<forall>f \<in> ms_small s. \<forall>g \<in> ms_small s. f \<noteq> g \<longrightarrow> region SIZE_4KIB f \<inter> region SIZE_4KIB g = {}) \<and>
    (\<forall>f \<in> ms_large s. \<forall>g \<in> ms_small s. region SIZE_2MIB f \<inter> region SIZE_4KIB g = {}) \<and>
    (\<forall>r \<in> region SIZE_2MIB ` ms_large s \<union> region SIZE_4KIB ` ms_small s. \<exists>i. r \<subseteq> large_region i \<and>
       (usable_frame es phs rd i \<or> ms_released s \<and> in_ramdisk_range L rd i))"
proof -
  note p0 = pm_new_inv [OF assms(1-3)]
  note p = mm_init_valid [OF assms(1) p0(1,2) assms(4-6)]
  have "small_frames p = None" using p(2) p0(3) by simp
  note inv = memory_reachable_inv [OF assms(1) p(1,3) this assms(7)]
  note d = memory_inv_disjoint [OF inv, unfolded may_hold_def]
  show ?thesis
  proof (intro conjI ballI impI)
    fix r assume "r \<in> region SIZE_2MIB ` ms_large s \<union> region SIZE_4KIB ` ms_small s"
    then show "\<exists>i. r \<subseteq> large_region i \<and> (usable_frame es phs rd i \<or> ms_released s \<and> in_ramdisk_range L rd i)"
      using d(4,5) by blast
  qed (use d(1-3) in blast)+
qed

text \<open>A concrete library and machine: a bit array is the list of its bits.\<close>

definition example_kernel_lib :: "bool list kernel_lib" where
  "example_kernel_lib = \<lparr>
     elts = (\<lambda>n. (n + 63) div 64), bits_zero = (\<lambda>N. replicate (64 * N) False), bits_len = length,
     bits_get = (\<lambda>b i. if i < length b then Some (b ! i) else None),
     bits_set = (\<lambda>b i v. if i < length b then Some (b[i := v]) else None),
     bits_fill = (\<lambda>b s e v. if s \<le> e \<and> e \<le> length b then Some (take s b @ replicate (e - s) v @ drop e b) else None),
     bits_and = map2 (\<and>), bits_not = map Not,
     iter_ones = (\<lambda>b. filter (\<lambda>i. b ! i) [0..<length b]), first_one = (\<lambda>b. find (\<lambda>i. b ! i) [0..<length b]),
     count_ones = (\<lambda>b. length (filter id b)),
     not_all = (\<lambda>b s e. if s \<le> e \<and> e \<le> length b then Some (\<not> list_all id (drop s (take e b))) else None),
     windows_all = (\<lambda>b n. if n = 0 then None else Some (map (\<lambda>i. list_all id (take n (drop i b))) [0..<length b + 1 - n])),
     frame_add = (\<lambda>sz f n. if unat f + unat n * unat sz < 2 ^ 52 then Some (f + n * sz) else None),
     page_add = (\<lambda>sz f n. if unat f + unat n * unat sz < 2 ^ 64 then Some (f + n * sz) else None),
     from_start_address = (\<lambda>sz a. if unat sz dvd unat a then Some a else None),
     phys_addr_new = (\<lambda>a. if unat a < 2 ^ 52 then Some a else None),
     phys_addr_add = (\<lambda>a n. if unat a + unat n < 2 ^ 52 then Some (a + n) else None),
     align_down = (\<lambda>a al. Some (a - a mod al)),
     align_up = (\<lambda>a al. let n = (unat a + unat al - 1) div unat al * unat al in if n < 2 ^ 64 then Some (of_nat n) else None)\<rparr>"

lemma example_kernel_lib_simps [simp]:
  "elts example_kernel_lib n = (n + 63) div 64" "bits_zero example_kernel_lib N = replicate (64 * N) False"
  "bits_len example_kernel_lib b = length b" "bits_and example_kernel_lib b c = map2 (\<and>) b c" "bits_not example_kernel_lib b = map Not b"
  "from_start_address example_kernel_lib sz x = (if unat sz dvd unat x then Some x else None)"
  "phys_addr_new example_kernel_lib x = (if unat x < 2 ^ 52 then Some x else None)"
  "phys_addr_add example_kernel_lib x k = (if unat x + unat k < 2 ^ 52 then Some (x + k) else None)"
  "align_down example_kernel_lib x al = Some (x - x mod al)"
  "align_up example_kernel_lib x al =
     (let n = (unat x + unat al - 1) div unat al * unat al in if n < 2 ^ 64 then Some (of_nat n) else None)"
  by (simp_all add: example_kernel_lib_def)

lemma unat_2_power_64: "k < 64 \<Longrightarrow> unat (2 ^ k :: u64) = 2 ^ k"
proof -
  assume "k < 64"
  then have "(2 :: nat) ^ k < 2 ^ 64" by (intro power_strict_increasing) simp_all
  then have "unat (of_nat (2 ^ k) :: u64) = 2 ^ k" by (simp only: unat_of_nat) simp
  then show ?thesis by simp
qed

lemma example_kernel_lib_correct: "kernel_lib_correct example_kernel_lib id"
  unfolding kernel_lib_correct_def
proof (intro conjI allI impI)
  fix a :: u64 and k :: nat assume "k < 64"
  then show "align_up example_kernel_lib a (2 ^ k) =
    (let n = (unat a + 2 ^ k - 1) div 2 ^ k * 2 ^ k in if n < 2 ^ 64 then Some (of_nat n) else None)"
    by (simp only: example_kernel_lib_simps unat_2_power_64)
qed (simp_all add: example_kernel_lib_def split: if_splits)

lemma mark_valid_total:
  assumes L: "kernel_lib_correct L bits" and i: "large_inv bits N (large_frames p)"
    and rg: "unat (fr_start rg) = s * 2 ^ 21" "unat (fr_end rg) = e * 2 ^ 21" "s \<le> e" "e \<le> 64 * N"
  shows "\<exists>p'. pm_mark_valid L p rg v = Ok p'"
proof -
  let ?a = "large_frames p"
  have "frame_idx SIZE_2MIB ?a f = Some k" if "unat f = k * 2 ^ 21" "k \<le> 64 * N" for f k
  proof -
    have "f = slot_addr SIZE_2MIB ?a k" using large_slot_unat [OF i that(2)] that(1) by (simp only: word_unat_eq_iff)
    then show ?thesis using slot_idx [of bits SIZE_2MIB N "64 * N" ?a k] i that(2) by (simp add: large_inv_def)
  qed
  then have "frame_idx SIZE_2MIB ?a (fr_start rg) = Some s" "frame_idx SIZE_2MIB ?a (fr_end rg) = Some e" using rg by simp_all
  moreover have "bits_fill L (ba_valid ?a) s e v \<noteq> None"
    using kernel_lib_fill [OF L, of "ba_valid ?a" s e v] rg(3,4) i by (auto simp: large_inv_def bitmap_inv_def)
  ultimately show ?thesis by (auto simp: pm_mark_valid_def bitmap_mark_valid_def)
qed

definition example_memory_map :: "e820_entry list" where
  "example_memory_map = [\<lparr>e820_addr = 0, e820_size = 0xA00000, e820_type = 1\<rparr>, \<lparr>e820_addr = 0xA00000, e820_size = 0x1000, e820_type = 2\<rparr>]"

definition example_headers :: "program_header list" where
  "example_headers = [\<lparr>p_load = True, p_paddr = 0x200000, p_memsz = 0x1234\<rparr>]"

definition example_ramdisk :: ramdisk where
  "example_ramdisk = \<lparr>rd_addr = 0x400000, rd_size = 0x5000\<rparr>"

lemma example_mark:
  assumes "large_inv id 1 (large_frames p)" "s \<le> e" "e \<le> 64" "unat x = s * 2 ^ 21" "unat y = e * 2 ^ 21"
  obtains p' where "pm_mark_valid example_kernel_lib p \<lparr>fr_start = x, fr_end = y\<rparr> v = Ok p'" "large_inv id 1 (large_frames p')"
    "ba_allocated (large_frames p') = ba_allocated (large_frames p)"
    "valid_slots id 1 (large_frames p') = (if v then valid_slots id 1 (large_frames p) \<union> {s..<e} else valid_slots id 1 (large_frames p) - {s..<e})"
proof -
  let ?rg = "\<lparr>fr_start = x, fr_end = y\<rparr>"
  have rg: "unat (fr_start ?rg) = s * 2 ^ 21" "unat (fr_end ?rg) = e * 2 ^ 21" using assms(4,5) by simp_all
  have "e \<le> 64 * 1" using assms(3) by simp
  from mark_valid_total [OF example_kernel_lib_correct assms(1) rg assms(2) this, of v] obtain p' where
    p': "pm_mark_valid example_kernel_lib p ?rg v = Ok p'" by blast
  note mv = mark_valid_large [OF example_kernel_lib_correct assms(1) rg p']
  from that [OF p' mv(1,3,5)] show ?thesis .
qed

lemma example_mm_init:
  obtains p0 p where "pm_new example_kernel_lib 1 = Ok p0"
    "mm_init example_kernel_lib example_memory_map example_headers example_ramdisk p0 = Ok p"
    "large_inv id 1 (large_frames p)" "valid_slots id 1 (large_frames p) = {3, 4}" "ba_allocated (large_frames p) = replicate 64 False"
proof -
  obtain p0 where p0: "pm_new example_kernel_lib 1 = Ok p0"
    by (simp add: pm_new_def pm_new_range_def bitmap_new_def SIZE_2MIB_def)
  have "(1 :: nat) < 2 ^ 25" by simp
  note i0 = pm_new_inv(1,2) [OF example_kernel_lib_correct this p0]
  obtain p1 where p1: "pm_mark_valid example_kernel_lib p0 \<lparr>fr_start = 0, fr_end = 0xA00000\<rparr> True = Ok p1"
    "large_inv id 1 (large_frames p1)" "valid_slots id 1 (large_frames p1) = {0..<5}" "ba_allocated (large_frames p1) = ba_allocated (large_frames p0)"
    by (rule example_mark [OF i0(1), of 0 5 0 "0xA00000" True]) (simp_all add: i0(2) del: One_nat_def)
  obtain p2 where p2: "pm_mark_valid example_kernel_lib p1 \<lparr>fr_start = 0, fr_end = 0x200000\<rparr> False = Ok p2"
    "large_inv id 1 (large_frames p2)" "valid_slots id 1 (large_frames p2) = {0..<5} - {0..<1}" "ba_allocated (large_frames p2) = ba_allocated (large_frames p1)"
    by (rule example_mark [OF p1(2), of 0 1 0 "0x200000" False]) (simp_all add: p1(3) del: One_nat_def)
  obtain p3 where p3: "pm_mark_valid example_kernel_lib p2 \<lparr>fr_start = 0x200000, fr_end = 0x400000\<rparr> False = Ok p3"
    "large_inv id 1 (large_frames p3)" "valid_slots id 1 (large_frames p3) = {0..<5} - {0..<1} - {1..<2}" "ba_allocated (large_frames p3) = ba_allocated (large_frames p2)"
    by (rule example_mark [OF p2(2), of 1 2 "0x200000" "0x400000" False]) (simp_all add: p2(3) del: One_nat_def)
  obtain p4 where p4: "pm_mark_valid example_kernel_lib p3 \<lparr>fr_start = 0x400000, fr_end = 0x600000\<rparr> False = Ok p4"
    "large_inv id 1 (large_frames p4)" "valid_slots id 1 (large_frames p4) = {0..<5} - {0..<1} - {1..<2} - {2..<3}" "ba_allocated (large_frames p4) = ba_allocated (large_frames p3)"
    by (rule example_mark [OF p3(2), of 2 3 "0x400000" "0x600000" False]) (simp_all add: p3(3) del: One_nat_def)
  have "mm_init example_kernel_lib example_memory_map example_headers example_ramdisk p0 = Ok p4"
    using p1(1) p2(1) p3(1) p4(1)
    by (simp add: mm_init_def example_memory_map_def example_headers_def example_ramdisk_def mark_ram_def entry_type_def
        aligned_addr_def large_range_def mark_loaded_def outer_range_def ramdisk_range_def SIZE_2MIB_def Let_def)
  moreover have "valid_slots id 1 (large_frames p4) = {3, 4}" unfolding p4(3) by auto
  moreover have "ba_allocated (large_frames p0) = replicate 64 False"
    using p0 by (auto simp: pm_new_def pm_new_range_def bitmap_new_def result_simps SIZE_2MIB_def)
  ultimately show ?thesis using that [OF p0 _ p4(2)] p1(4) p2(4) p3(4) p4(4) by simp
qed

lemma example_take:
  assumes i: "large_inv id 1 (large_frames p)" and j: "j < 64" "free_slot id (large_frames p) j"
  obtains f q k where "allocate_frame_2mib example_kernel_lib p = Ok (Some f, q)" "large_inv id 1 (large_frames q)"
    "f = slot_addr SIZE_2MIB (large_frames p) k" "k < 64" "free_slot id (large_frames p) k" "\<forall>m. m \<noteq> k \<longrightarrow> free_slot id (large_frames q) m = free_slot id (large_frames p) m"
    "\<not> free_slot id (large_frames q) k" "ba_range (large_frames q) = ba_range (large_frames p)"
proof -
  have bi: "bitmap_inv id SIZE_2MIB 1 (64 * 1) (large_frames p)" using i by (simp add: large_inv_def)
  have "bitmap_allocate_frame example_kernel_lib SIZE_2MIB (large_frames p) \<noteq> Ok (None, large_frames p)"
    using allocate_frame_none(1) [OF example_kernel_lib_correct bi] j by auto
  with allocate_frame_none(2) [OF example_kernel_lib_correct bi] obtain f a where
    f: "bitmap_allocate_frame example_kernel_lib SIZE_2MIB (large_frames p) = Ok (Some f, a)" by blast
  from allocate_frame_effect [OF example_kernel_lib_correct bi f] obtain k where
    k: "k < 64 * 1" and kf: "free_slot id (large_frames p) k" and k': "f = slot_addr SIZE_2MIB (large_frames p) k" "bitmap_inv id SIZE_2MIB 1 (64 * 1) a"
    "ba_valid a = ba_valid (large_frames p)" "ba_range a = ba_range (large_frames p)"
    "id (ba_allocated a) = (id (ba_allocated (large_frames p)))[k := True]" by blast
  note k = k k'
  have fr: "\<forall>m. m \<noteq> k \<longrightarrow> free_slot id a m = free_slot id (large_frames p) m" "\<not> free_slot id a k"
    using k(1,4,6) bi by (auto simp: free_slot_def bitmap_inv_def)
  have "allocate_frame_2mib example_kernel_lib p = Ok (Some f, p\<lparr>large_frames := a\<rparr>)" using f by (simp add: allocate_frame_2mib_def)
  from that [OF this _ k(2) _ kf] k(1,3,5) i fr show ?thesis by (simp add: large_inv_def)
qed

theorem physical_memory_safe_witness:
  "\<exists>p0 p s f g. pm_new example_kernel_lib 1 = Ok p0 \<and>
     mm_init example_kernel_lib example_memory_map example_headers example_ramdisk p0 = Ok p \<and>
     memory_reachable example_kernel_lib example_ramdisk p s \<and> ms_large s = {f, g} \<and> f \<noteq> g \<and>
     region SIZE_2MIB f \<inter> region SIZE_2MIB g = {}"
proof -
  let ?L = example_kernel_lib and ?rd = example_ramdisk
  obtain p0 p where p0: "pm_new ?L 1 = Ok p0" and p: "mm_init ?L example_memory_map example_headers ?rd p0 = Ok p"
    "large_inv id 1 (large_frames p)" "valid_slots id 1 (large_frames p) = {3, 4}" "ba_allocated (large_frames p) = replicate 64 False"
    by (rule example_mm_init)
  have "{3, 4} \<subseteq> {i. i < 64 * 1 \<and> id (ba_valid (large_frames p)) ! i}" using p(3) by (simp only: valid_slots_def) 
  then have free: "free_slot id (large_frames p) 3" "free_slot id (large_frames p) 4" by (simp_all add: free_slot_def p(4))
  obtain f q k where f: "allocate_frame_2mib ?L p = Ok (Some f, q)" "large_inv id 1 (large_frames q)" "f = slot_addr SIZE_2MIB (large_frames p) k" "k < 64"
    and fr: "\<forall>m. m \<noteq> k \<longrightarrow> free_slot id (large_frames q) m = free_slot id (large_frames p) m" "\<not> free_slot id (large_frames q) k"
      "ba_range (large_frames q) = ba_range (large_frames p)"
    by (rule example_take [OF p(2) _ free(1)]) simp
  have sl: "slot_addr SIZE_2MIB (large_frames p) = slot_addr SIZE_2MIB (large_frames q)" using fr(3) by (simp add: slot_addr_def fun_eq_iff)
  have "\<exists>j < 64. free_slot id (large_frames q) j" using fr(1) free by (cases "k = 3") force+
  then obtain j where j: "j < 64" "free_slot id (large_frames q) j" by blast
  obtain g r k' where g: "allocate_frame_2mib ?L q = Ok (Some g, r)"
    "g = slot_addr SIZE_2MIB (large_frames q) k'" "k' < 64" "free_slot id (large_frames q) k'"
    by (rule example_take [OF f(2) j])
  define s where "s = \<lparr>ms_alloc = r, ms_large = {f, g}, ms_small = {}, ms_released = False\<rparr>"
  have "memory_reachable ?L ?rd p \<lparr>ms_alloc = q, ms_large = {f}, ms_small = {}, ms_released = False\<rparr>"
    using memory_reachable.take_large [OF memory_reachable.start, of ?L p "Some f" q ?rd] f(1) by simp
  from memory_reachable.take_large [OF this, of "Some g" r] g(1) have s: "memory_reachable ?L ?rd p s" by (simp add: s_def insert_commute)
  have "k \<noteq> k'" using g(4) fr(2) by blast
  then have "f \<noteq> g" using large_slot_inj [OF f(2), of k k'] f(3,4) g(2,3) by (auto simp: sl)
  have "\<forall>f \<in> ms_large s. \<forall>g \<in> ms_large s. f \<noteq> g \<longrightarrow> region SIZE_2MIB f \<inter> region SIZE_2MIB g = {}"
    by (rule conjunct1 [OF physical_memory_safe [OF example_kernel_lib_correct _ p0 p(1) _ _ s]])
      (simp_all add: example_headers_def example_ramdisk_def)
  then have "region SIZE_2MIB f \<inter> region SIZE_2MIB g = {}" using \<open>f \<noteq> g\<close> by (simp add: s_def)
  then show ?thesis using p0 p(1) s \<open>f \<noteq> g\<close> by (intro exI [of _ p0] exI [of _ p] exI [of _ s] exI [of _ f] exI [of _ g]) (simp add: s_def)
qed

end
