(* ===== verification/Rust_Text.thy ===== *)
theory Rust_Text
  imports Oak_Prelude
begin

section \<open>Text\<close>

text \<open>
  The operations of Rust's \<open>str\<close> that the parsers of the repository use. A string is the list of
  its UTF-8 bytes, each as a \<open>char\<close>. All separators are ASCII, so searching bytes and searching
  characters agree. The lemmas say how the parts of a text are found again.
\<close>

definition NL :: char where "NL = CHR 0x0A"

definition CR :: char where "CR = CHR 0x0D"

definition SP :: char where "SP = CHR '' ''"

definition PLUS :: char where "PLUS = CHR ''+''"

text \<open>\<open>core::str::from_utf8\<close>, after the table of well-formed byte sequences of the Unicode standard.\<close>

definition continuation :: "byte \<Rightarrow> bool" where
  "continuation b \<longleftrightarrow> 0x80 \<le> b \<and> b \<le> 0xBF"

fun utf8_valid :: "bytes \<Rightarrow> bool" where
  "utf8_valid [] = True"
| "utf8_valid (a # s) =
     (if a < 0x80 then utf8_valid s
      else
        case s of
          [] \<Rightarrow> False
        | b # s \<Rightarrow>
            if 0xC2 \<le> a \<and> a \<le> 0xDF \<and> continuation b then utf8_valid s
            else
              case s of
                [] \<Rightarrow> False
              | c # s \<Rightarrow>
                  if continuation b \<and> continuation c \<and>
                    (a = 0xE0 \<and> 0xA0 \<le> b \<or> a = 0xED \<and> b \<le> 0x9F \<or>
                     0xE1 \<le> a \<and> a \<le> 0xEF \<and> a \<noteq> 0xED)
                  then utf8_valid s
                  else
                    case s of
                      [] \<Rightarrow> False
                    | d # s \<Rightarrow>
                        continuation b \<and> continuation c \<and> continuation d \<and>
                        (a = 0xF0 \<and> 0x90 \<le> b \<or> 0xF1 \<le> a \<and> a \<le> 0xF3 \<or> a = 0xF4 \<and> b \<le> 0x8F) \<and>
                        utf8_valid s)"

definition from_utf8 :: "bytes \<Rightarrow> string option" where
  "from_utf8 s = (if utf8_valid s then Some (map (\<lambda>b. char_of (unat b)) s) else None)"

text \<open>\<open>str::lines\<close>: a line feed ends a line and takes a carriage return before it along.\<close>

definition strip_cr :: "string \<Rightarrow> string" where
  "strip_cr l = (if l \<noteq> [] \<and> last l = CR then butlast l else l)"

function lines :: "string \<Rightarrow> string list" where
  "lines s =
     (if s = [] then []
      else
        let l = takeWhile (\<lambda>c. c \<noteq> NL) s; r = dropWhile (\<lambda>c. c \<noteq> NL) s in
        if r = [] then [l] else strip_cr l # lines (tl r))"
  by pat_completeness auto
termination
proof (relation "measure length")
  fix s l r :: string
  assume "s \<noteq> []" "r = dropWhile (\<lambda>c. c \<noteq> NL) s" "\<not> r = []"
  moreover have "length (dropWhile (\<lambda>c. c \<noteq> NL) s) \<le> length s" by (rule length_dropWhile_le)
  ultimately have "length r \<le> length s" "r \<noteq> []" by simp_all
  then show "(tl r, s) \<in> measure length" by (cases r) simp_all
qed simp

declare lines.simps [simp del]

text \<open>\<open>join\<close> of lines, \<open>strip_prefix\<close>, \<open>split_once\<close>, \<open>splitn(3, c)\<close>.\<close>

fun join :: "string \<Rightarrow> string list \<Rightarrow> string" where
  "join sep [] = []"
| "join sep [x] = x"
| "join sep (x # y # ys) = x @ sep @ join sep (y # ys)"

fun strip_prefix :: "string \<Rightarrow> string \<Rightarrow> string option" where
  "strip_prefix [] s = Some s"
| "strip_prefix (p # ps) [] = None"
| "strip_prefix (p # ps) (c # s) = (if p = c then strip_prefix ps s else None)"

definition starts_with :: "string \<Rightarrow> string \<Rightarrow> bool" where
  "starts_with p s \<longleftrightarrow> strip_prefix p s \<noteq> None"

definition split_once :: "char \<Rightarrow> string \<Rightarrow> (string \<times> string) option" where
  "split_once c s =
     (case dropWhile (\<lambda>d. d \<noteq> c) s of [] \<Rightarrow> None | _ # r \<Rightarrow> Some (takeWhile (\<lambda>d. d \<noteq> c) s, r))"

fun splitn :: "nat \<Rightarrow> char \<Rightarrow> string \<Rightarrow> string list" where
  "splitn 0 c s = []"
| "splitn (Suc 0) c s = [s]"
| "splitn (Suc (Suc n)) c s = (case split_once c s of None \<Rightarrow> [s] | Some (a, b) \<Rightarrow> a # splitn (Suc n) c b)"

text \<open>
  \<open>trim\<close> removes the characters with the Unicode property White_Space, given by their encodings,
  and \<open>split_ascii_whitespace\<close> splits at ASCII white space and drops empty parts.
\<close>

definition white_space :: "string list" where
  "white_space =
     map (\<lambda>c. [c]) [CHR 0x09, CHR 0x0A, CHR 0x0B, CHR 0x0C, CHR 0x0D, CHR 0x20] @
     [[CHR 0xC2, CHR 0x85], [CHR 0xC2, CHR 0xA0], [CHR 0xE1, CHR 0x9A, CHR 0x80]] @
     map (\<lambda>b. [CHR 0xE2, CHR 0x80, b])
       [CHR 0x80, CHR 0x81, CHR 0x82, CHR 0x83, CHR 0x84, CHR 0x85, CHR 0x86, CHR 0x87, CHR 0x88, CHR 0x89,
        CHR 0x8A, CHR 0xA8, CHR 0xA9, CHR 0xAF] @
     [[CHR 0xE2, CHR 0x81, CHR 0x9F], [CHR 0xE3, CHR 0x80, CHR 0x80]]"

definition strip_space :: "string list \<Rightarrow> string \<Rightarrow> string option" where
  "strip_space ws s = (case filter (\<lambda>w. starts_with w s) ws of [] \<Rightarrow> None | w # _ \<Rightarrow> strip_prefix w s)"

text \<open>The fuel is the length: each step removes at least one byte.\<close>

fun trim_front :: "nat \<Rightarrow> string list \<Rightarrow> string \<Rightarrow> string" where
  "trim_front 0 ws s = s"
| "trim_front (Suc n) ws s = (case strip_space ws s of None \<Rightarrow> s | Some r \<Rightarrow> trim_front n ws r)"

definition trim :: "string \<Rightarrow> string" where
  "trim s =
     (let s = trim_front (length s) white_space s
      in rev (trim_front (length s) (map rev white_space) (rev s)))"

definition ascii_space :: "char \<Rightarrow> bool" where
  "ascii_space c \<longleftrightarrow> c \<in> {CHR 0x09, CHR 0x0A, CHR 0x0C, CHR 0x0D, CHR 0x20}"

fun words_from :: "string \<Rightarrow> string \<Rightarrow> string list" where
  "words_from acc [] = (if acc = [] then [] else [rev acc])"
| "words_from acc (c # s) =
     (if ascii_space c then (if acc = [] then words_from [] s else rev acc # words_from [] s)
      else words_from (c # acc) s)"

definition split_ascii_whitespace :: "string \<Rightarrow> string list" where
  "split_ascii_whitespace s = words_from [] s"

text \<open>\<open>parse\<close> and \<open>Display\<close> of unsigned integers of \<open>w\<close> bits.\<close>

definition digit_value :: "char \<Rightarrow> nat option" where
  "digit_value c = (if 48 \<le> (of_char c :: nat) \<and> (of_char c :: nat) \<le> 57 then Some (of_char c - 48) else None)"

fun parse_digits :: "nat \<Rightarrow> nat \<Rightarrow> string \<Rightarrow> nat option" where
  "parse_digits w acc [] = Some acc"
| "parse_digits w acc (c # s) =
     (case digit_value c of
        None \<Rightarrow> None
      | Some d \<Rightarrow> let n = 10 * acc + d in if n < 2 ^ w then parse_digits w n s else None)"

definition parse_uint :: "nat \<Rightarrow> string \<Rightarrow> nat option" where
  "parse_uint w s =
     (case s of
        [] \<Rightarrow> None
      | c # r \<Rightarrow> if c = PLUS then (if r = [] then None else parse_digits w 0 r) else parse_digits w 0 s)"

fun show_nat :: "nat \<Rightarrow> string" where
  "show_nat n = (if n < 10 then [char_of (48 + n)] else show_nat (n div 10) @ [char_of (48 + n mod 10)])"

declare show_nat.simps [simp del]


subsection \<open>Lemmas\<close>

lemma lines_Nil [simp]: "lines [] = []"
  by (subst lines.simps) simp

lemma lines_line:
  assumes "NL \<notin> set l"
  shows "lines (l @ NL # r) = strip_cr l # lines r"
proof -
  have "takeWhile (\<lambda>c. c \<noteq> NL) (l @ NL # r) = l" "dropWhile (\<lambda>c. c \<noteq> NL) (l @ NL # r) = NL # r"
    using assms by (induction l) auto
  then show ?thesis by (subst lines.simps) (simp add: Let_def)
qed

lemma lines_last:
  assumes "NL \<notin> set l" "l \<noteq> []"
  shows "lines l = [l]"
proof -
  have "takeWhile (\<lambda>c. c \<noteq> NL) l = l" "dropWhile (\<lambda>c. c \<noteq> NL) l = []" using assms(1) by (induction l) auto
  then show ?thesis using assms(2) by (subst lines.simps) (simp add: Let_def)
qed

text \<open>A line that \<open>lines\<close> returns as it is written.\<close>

definition plain_line :: "string \<Rightarrow> bool" where
  "plain_line l \<longleftrightarrow> NL \<notin> set l \<and> (l \<noteq> [] \<longrightarrow> last l \<noteq> CR)"

lemma lines_plain [simp]: "plain_line l \<Longrightarrow> lines (l @ NL # r) = l # lines r"
  by (auto simp: lines_line plain_line_def strip_cr_def)

lemma lines_of_plain:
  assumes "\<forall>l \<in> set ls. plain_line l"
  shows "lines (concat (map (\<lambda>l. l @ [NL]) ls) @ r) = ls @ lines r"
  using assms by (induction ls) auto

lemma strip_prefix_append [simp]: "strip_prefix p (p @ s) = Some s"
  by (induction p) auto

lemma strip_prefix_Some_iff: "strip_prefix p s = Some r \<longleftrightarrow> s = p @ r"
  by (induction p s rule: strip_prefix.induct) auto

lemma split_once_append:
  assumes "c \<notin> set a"
  shows "split_once c (a @ c # b) = Some (a, b)"
proof -
  have "takeWhile (\<lambda>d. d \<noteq> c) (a @ c # b) = a" "dropWhile (\<lambda>d. d \<noteq> c) (a @ c # b) = c # b"
    using assms by (induction a) auto
  then show ?thesis by (simp add: split_once_def)
qed

lemma split_once_Some: "split_once c s = Some (a, b) \<Longrightarrow> s = a @ c # b \<and> c \<notin> set a"
proof -
  assume "split_once c s = Some (a, b)"
  then obtain d where d: "dropWhile (\<lambda>d. d \<noteq> c) s = d # b" and a: "a = takeWhile (\<lambda>d. d \<noteq> c) s"
    by (auto simp: split_once_def split: list.splits)
  have "d = c" using d hd_dropWhile [of "\<lambda>d. d \<noteq> c" s] by simp
  moreover have "s = a @ d # b" unfolding a d [symmetric] by simp
  moreover have "c \<notin> set a" unfolding a by (blast dest: set_takeWhileD)
  ultimately show ?thesis by simp
qed

lemma digit_value_show: "d < 10 \<Longrightarrow> digit_value (char_of (48 + d)) = Some d"
  by (simp add: digit_value_def)

lemma parse_digits_append:
  "parse_digits w acc (s @ t) = Option.bind (parse_digits w acc s) (\<lambda>n. parse_digits w n t)"
  by (induction w acc s rule: parse_digits.induct) (auto simp: Let_def split: option.splits)

lemma parse_digits_show: "n < 2 ^ w \<Longrightarrow> parse_digits w 0 (show_nat n) = Some n"
proof (induction n rule: show_nat.induct)
  case (1 n)
  show ?case
  proof (cases "n < 10")
    case True
    then show ?thesis using 1(2) by (subst show_nat.simps) (simp add: digit_value_show Let_def)
  next
    case False
    have "n div 10 < 2 ^ w" using 1(2) by (rule le_less_trans [rotated]) simp
    moreover have "10 * (n div 10) + n mod 10 = n" by simp
    ultimately show ?thesis using 1 False
      by (subst show_nat.simps) (simp add: parse_digits_append digit_value_show Let_def)
  qed
qed

lemma show_nat_digits: "c \<in> set (show_nat n) \<Longrightarrow> \<exists>d :: nat. d < 10 \<and> c = char_of (48 + d)"
proof (induction n rule: show_nat.induct)
  case (1 n)
  show ?case
  proof (cases "n < 10")
    case True
    with 1(2) show ?thesis by (subst (asm) show_nat.simps) auto
  next
    case False
    with 1 show ?thesis by (subst (asm) (2) show_nat.simps) (auto intro: exI [of _ "n mod 10"])
  qed
qed

lemma show_nat_nonempty [simp]: "show_nat n \<noteq> []"
  by (subst show_nat.simps) simp

lemma show_nat_range: "c \<in> set (show_nat n) \<Longrightarrow> 48 \<le> (of_char c :: nat) \<and> (of_char c :: nat) \<le> 57"
  using show_nat_digits [of c n] by auto

lemma parse_show [simp]: "n < 2 ^ w \<Longrightarrow> parse_uint w (show_nat n) = Some n"
proof -
  assume n: "n < 2 ^ w"
  obtain c r where s: "show_nat n = c # r" by (cases "show_nat n") simp_all
  then have "48 \<le> (of_char c :: nat)" using show_nat_range [of c n] by simp
  then have "c \<noteq> PLUS" by (auto simp: PLUS_def)
  with s parse_digits_show [OF n] show ?thesis by (simp add: parse_uint_def)
qed

lemma parse_digits_bound: "parse_digits w acc s = Some n \<Longrightarrow> acc < 2 ^ w \<Longrightarrow> n < 2 ^ w"
  by (induction w acc s rule: parse_digits.induct) (auto simp: Let_def split: option.splits if_splits)

lemma parse_uint_bound: "parse_uint w s = Some n \<Longrightarrow> n < 2 ^ w"
  using parse_digits_bound [of w 0 _ n] by (auto simp: parse_uint_def simp del: parse_digits.simps split: list.splits if_splits)

lemma plain_show [simp]: "plain_line (show_nat n)"
proof -
  have "NL \<notin> set (show_nat n)" using show_nat_range [of NL n] by (auto simp: NL_def)
  moreover have "last (show_nat n) \<noteq> CR" using show_nat_range [of "last (show_nat n)" n] by (auto simp: CR_def)
  ultimately show ?thesis by (simp add: plain_line_def)
qed

lemma plain_prefix: "plain_line a \<Longrightarrow> a \<noteq> [] \<Longrightarrow> NL \<notin> set p \<Longrightarrow> plain_line (p @ a)"
  by (auto simp: plain_line_def)

lemma no_newline_show [simp]: "NL \<notin> set (show_nat n)"
  using plain_show [of n] by (simp add: plain_line_def)

lemma show_nat_inject: "show_nat m = show_nat n \<longleftrightarrow> m = n"
proof
  assume e: "show_nat m = show_nat n"
  have "m < 2 ^ (m + n + 1)" "n < 2 ^ (m + n + 1)"
    using less_exp [of "m + n + 1"] by linarith+
  then have "parse_uint (m + n + 1) (show_nat m) = Some m" "parse_uint (m + n + 1) (show_nat n) = Some n"
    by simp_all
  with e show "m = n" by simp
qed simp

text \<open>Lines that are joined again are found again, apart from an empty one at the end.\<close>

lemma join_lines:
  assumes "\<forall>l \<in> set ls. plain_line l" "ls \<noteq> []" "last ls \<noteq> []"
  shows "lines (join [NL] ls) = ls"
  using assms
proof (induction "[NL]" ls rule: join.induct)
  case (2 x)
  then show ?case by (simp add: lines_last plain_line_def)
qed (simp_all add: plain_line_def)

lemma join_lines_empty_last:
  assumes "\<forall>l \<in> set ls. plain_line l" "ls \<noteq> []"
  shows "lines (join [NL] (ls @ [[]])) = ls"
  using assms
proof (induction "[NL]" ls rule: join.induct)
  case (2 x)
  then show ?case using lines_plain [of x "[]"] by simp
qed simp_all

lemma split_once_None_iff: "split_once c s = None \<longleftrightarrow> c \<notin> set s"
proof (cases "c \<in> set s")
  case True
  then obtain a b where "s = a @ c # b" "c \<notin> set a" by (rule split_list_first [THEN exE]) blast
  then show ?thesis by (simp add: split_once_append)
next
  case False
  have d: "dropWhile (\<lambda>d. d \<noteq> c) s = []" using False by (simp add: dropWhile_eq_Nil_conv) blast
  show ?thesis using False unfolding split_once_def d by simp
qed

lemma splitn_three:
  assumes "c \<notin> set a" "c \<notin> set b"
  shows "splitn 3 c (a @ c # b @ c # r) = [a, b, r]"
  using assms by (simp add: numeral_3_eq_3 split_once_append)

lemma from_utf8_ascii:
  assumes "\<forall>b \<in> set s. b < 0x80"
  shows "from_utf8 s = Some (map (\<lambda>b. char_of (unat b)) s)"
proof -
  have "utf8_valid s" using assms by (induction s) auto
  then show ?thesis by (simp add: from_utf8_def)
qed

lemma from_utf8_Some: "from_utf8 s = Some t \<Longrightarrow> str_bytes t = s"
proof -
  assume "from_utf8 s = Some t"
  then have "t = map (\<lambda>b. char_of (unat b)) s" by (simp add: from_utf8_def split: if_splits)
  moreover have "of_char (char_of (unat b)) = b" for b :: byte
  proof -
    have "(of_char (char_of (unat b)) :: byte) = of_nat (of_char (char_of (unat b)))"
      by (simp only: of_nat_of_char)
    then show ?thesis by simp
  qed
  ultimately show ?thesis by (simp add: str_bytes_def comp_def)
qed

text \<open>A separator that does not occur in front of it determines both parts.\<close>

lemma str_bytes_inject [simp]: "str_bytes a = str_bytes b \<longleftrightarrow> a = b"
proof -
  have "inj (of_char :: char \<Rightarrow> byte)"
  proof (rule injI)
    fix c d :: char
    assume "(of_char c :: byte) = of_char d"
    then have "(of_nat (of_char c) :: byte) = of_nat (of_char d)" by (simp only: of_nat_of_char)
    then have "unat (of_nat (of_char c) :: byte) = unat (of_nat (of_char d) :: byte)" by simp
    then have "(of_char c :: nat) = of_char d" by (simp only: unat_of_nat) simp
    then show "c = d" by simp
  qed
  then show ?thesis by (simp add: str_bytes_def inj_map_eq_map)
qed

lemma append_separator_inject:
  fixes a b x y :: string
  assumes "c \<notin> set a" "c \<notin> set b" "a @ c # x = b @ c # y"
  shows "a = b \<and> x = y"
proof -
  have "split_once c (a @ c # x) = split_once c (b @ c # y)" by (rule arg_cong [OF assms(3)])
  then show ?thesis unfolding split_once_append [OF assms(1)] split_once_append [OF assms(2)] by simp
qed

text \<open>A trimmed line that is not empty has a first word.\<close>

lemma strip_space_shorter: "[] \<notin> set ws \<Longrightarrow> strip_space ws s = Some r \<Longrightarrow> \<exists>w. w \<noteq> [] \<and> s = w @ r"
proof -
  assume "[] \<notin> set ws" "strip_space ws s = Some r"
  then obtain w where "w \<in> set ws" "strip_prefix w s = Some r"
    by (cases "filter (\<lambda>w. starts_with w s) ws") (force simp: strip_space_def filter_eq_Cons_iff)+
  with \<open>[] \<notin> set ws\<close> show ?thesis by (metis strip_prefix_Some_iff)
qed

lemma trim_front_suffix: "[] \<notin> set ws \<Longrightarrow> \<exists>w. s = w @ trim_front n ws s"
proof (induction n ws s rule: trim_front.induct)
  case (2 n ws s)
  show ?case
  proof (cases "strip_space ws s")
    case (Some r)
    then obtain w where "s = w @ r" using strip_space_shorter [OF 2(2)] by blast
    with 2(1) [OF Some 2(2)] Some show ?thesis by (metis append.assoc option.simps(5) trim_front.simps(2))
  qed simp
qed simp

lemma trim_front_done:
  "[] \<notin> set ws \<Longrightarrow> length s \<le> n \<Longrightarrow> strip_space ws (trim_front n ws s) = None"
proof (induction n ws s rule: trim_front.induct)
  case (1 ws s)
  have "strip_prefix w [] = None" if "w \<in> set ws" for w using that 1(1) by (cases "(w, [] :: string)" rule: strip_prefix.cases) auto
  then have "filter (\<lambda>w. starts_with w []) ws = []" by (auto simp: starts_with_def filter_empty_conv)
  with 1 show ?case by (simp add: strip_space_def)
next
  case (2 n ws s)
  then show ?case
  proof (cases "strip_space ws s")
    case (Some r)
    then have "length r < length s" using strip_space_shorter [OF 2(2)] by fastforce
    with 2 Some show ?thesis by simp
  qed simp
qed

lemma strip_space_None: "strip_space ws s = None \<Longrightarrow> w \<in> set ws \<Longrightarrow> \<not> starts_with w s"
proof
  assume "strip_space ws s = None" "w \<in> set ws" "starts_with w s"
  then obtain u us where "filter (\<lambda>w. starts_with w s) ws = u # us"
    by (cases "filter (\<lambda>w. starts_with w s) ws") (auto simp: filter_empty_conv)
  then have "starts_with u s" "strip_space ws s = strip_prefix u s"
    by (auto simp: strip_space_def filter_eq_Cons_iff)
  with \<open>strip_space ws s = None\<close> show False by (simp add: starts_with_def)
qed

lemma words_from_nonempty: "acc \<noteq> [] \<Longrightarrow> words_from acc s \<noteq> []"
  by (induction acc s rule: words_from.induct) auto

lemma ascii_white_space: "ascii_space c \<Longrightarrow> [c] \<in> set white_space"
  unfolding white_space_def set_append set_map
  by (intro UnI1 image_eqI [where x = c]) (auto simp: ascii_space_def)

lemma words_of_trimmed:
  assumes "trim s \<noteq> []"
  shows "split_ascii_whitespace (trim s) \<noteq> []"
proof -
  have ws: "[] \<notin> set white_space" "[] \<notin> set (map rev white_space)" by (auto simp: white_space_def)
  let ?f = "trim_front (length s) white_space s"
  obtain w where w: "rev ?f = w @ trim_front (length ?f) (map rev white_space) (rev ?f)"
    using trim_front_suffix [OF ws(2)] by blast
  have "?f = rev (rev ?f)" by simp
  also have "\<dots> = rev (w @ trim_front (length ?f) (map rev white_space) (rev ?f))" by (subst w) simp
  finally have f: "?f = trim s @ rev w" by (simp add: trim_def Let_def)
  obtain c t where c: "trim s = c # t" using assms by (cases "trim s") auto
  have "strip_space white_space ?f = None" by (rule trim_front_done [OF ws(1)]) simp
  then have "\<not> starts_with [c] ?f" if "ascii_space c" using strip_space_None ascii_white_space that by blast
  then have "\<not> ascii_space c" by (auto simp: f c starts_with_def)
  then show ?thesis by (simp add: split_ascii_whitespace_def c words_from_nonempty)
qed

text \<open>Words of visible ASCII characters are found again.\<close>

definition visible :: "char \<Rightarrow> bool" where
  "visible c \<longleftrightarrow> 33 \<le> (of_char c :: nat) \<and> (of_char c :: nat) \<le> 126"

definition visible_word :: "string \<Rightarrow> bool" where
  "visible_word w \<longleftrightarrow> w \<noteq> [] \<and> list_all visible w"

lemma white_space_invisible:
  "list_all (\<lambda>w. w \<noteq> [] \<and> \<not> visible (hd w)) white_space"
  "list_all (\<lambda>w. w \<noteq> [] \<and> \<not> visible (hd w)) (map rev white_space)"
  by (simp_all add: white_space_def visible_def)

lemma trim_front_visible:
  assumes "list_all (\<lambda>w. w \<noteq> [] \<and> \<not> visible (hd w)) ws" "s \<noteq> []" "visible (hd s)"
  shows "trim_front n ws s = s"
proof -
  have "\<not> starts_with w s" if "w \<in> set ws" for w
  proof
    assume "starts_with w s"
    then obtain r where "s = w @ r" by (auto simp: starts_with_def strip_prefix_Some_iff)
    with assms that show False by (auto simp: list_all_iff)
  qed
  then have "filter (\<lambda>w. starts_with w s) ws = []" by (simp add: filter_empty_conv)
  then have "strip_space ws s = None" by (simp add: strip_space_def)
  then show ?thesis by (cases n) simp_all
qed

lemma trim_visible:
  assumes "s \<noteq> []" "visible (hd s)" "visible (last s)"
  shows "trim s = s"
  using assms trim_front_visible [OF white_space_invisible(1) assms(1,2)]
    trim_front_visible [OF white_space_invisible(2), of "rev s"] by (simp add: trim_def Let_def hd_rev)

lemma visible_not_space: "visible c \<Longrightarrow> \<not> ascii_space c"
  by (auto simp: visible_def ascii_space_def)

lemma words_from_word: "list_all visible w \<Longrightarrow> words_from acc (w @ s) = words_from (rev w @ acc) s"
  by (induction w arbitrary: acc) (auto simp: visible_not_space)

lemma split_visible_words:
  assumes "list_all visible_word ws"
  shows "split_ascii_whitespace (join [SP] ws) = ws"
proof -
  have "words_from [] (join [SP] ws) = ws"
    using assms
  proof (induction "[SP]" ws rule: join.induct)
    case (2 w)
    then show ?case using words_from_word [of w "[]" "[]"] by (simp add: visible_word_def)
  next
    case (3 w x ws)
    then show ?case using words_from_word [of w "[]" "SP # join [SP] (x # ws)"]
      by (simp add: visible_word_def ascii_space_def SP_def)
  qed simp
  then show ?thesis by (simp add: split_ascii_whitespace_def)
qed

lemma join_ends:
  assumes "list_all visible_word ws" "ws \<noteq> []"
  shows "join sep ws \<noteq> [] \<and> hd (join sep ws) = hd (hd ws) \<and> last (join sep ws) = last (last ws)"
  using assms by (induction sep ws rule: join.induct) (auto simp: visible_word_def)

lemma trim_visible_words:
  assumes "list_all visible_word ws" "ws \<noteq> []"
  shows "trim (join [SP] ws) = join [SP] ws"
proof (rule trim_visible)
  have "visible_word (hd ws)" "visible_word (last ws)" using assms by (simp_all add: list_all_iff)
  then show "visible (hd (join [SP] ws))" "visible (last (join [SP] ws))" "join [SP] ws \<noteq> []"
    using join_ends [OF assms] by (simp_all add: visible_word_def list_all_iff)
qed

lemma visible_plain: "visible_word w \<Longrightarrow> plain_line w"
proof -
  assume w: "visible_word w"
  then have "visible c" if "c \<in> set w" for c using that by (simp add: visible_word_def list_all_iff)
  moreover have "\<not> visible NL" "\<not> visible CR" by (simp_all add: visible_def NL_def CR_def)
  moreover have "last w \<in> set w" using w by (simp add: visible_word_def)
  ultimately show "plain_line w" unfolding plain_line_def by metis
qed

lemma join_visible_plain: "list_all visible_word ws \<Longrightarrow> plain_line (join [SP] ws)"
proof (induction "[SP]" ws rule: join.induct)
  case (3 w x ws)
  then have "plain_line (join [SP] (x # ws))" "join [SP] (x # ws) \<noteq> []" using join_ends [of "x # ws"] by simp_all
  moreover have "NL \<notin> set (w @ [SP])" using 3(2) visible_plain [of w] by (simp add: plain_line_def NL_def SP_def)
  ultimately show ?case using plain_prefix [of "join [SP] (x # ws)" "w @ [SP]"] by simp
qed (simp_all add: visible_plain plain_line_def [of "[]"])

end
