(* ===== verification/Oak_Digest.thy ===== *)
theory Oak_Digest
  imports Rust_Text Ordered_Map
begin

section \<open>Digests\<close>

text \<open>
  \<^verbatim>\<open>util/digest\<close>: digests with their algorithm, the protocol buffers \<open>RawDigest\<close> and
  \<open>HexDigest\<close>, which hold one field per algorithm, the JSON map \<open>DigestSet\<close>, and their
  comparison. The crates \<^verbatim>\<open>hex\<close> and \<^verbatim>\<open>sha2\<close> are the functions of \<open>hash_lib\<close>; errors keep
  the strings they are built from, but not the debug prints of whole messages.
\<close>

record hash_lib =
  hex_encode :: "bytes \<Rightarrow> string"
  hex_decode :: "string \<Rightarrow> bytes option"
  hex_error :: "string \<Rightarrow> string"
  sha256 :: "bytes \<Rightarrow> bytes"
  sha384 :: "bytes \<Rightarrow> bytes"
  sha512 :: "bytes \<Rightarrow> bytes"

text \<open>What is documented of the two crates: the sizes of the hashes, and that encoding with
  lowercase hexadecimal digits is undone by decoding.\<close>

definition hash_lib_correct :: "'z hash_lib_scheme \<Rightarrow> bool" where
  "hash_lib_correct H \<longleftrightarrow>
     (\<forall>b. hex_decode H (hex_encode H b) = Some b) \<and>
     (\<forall>b. length (hex_encode H b) = 2 * length b) \<and>
     (\<forall>b. set (hex_encode H b) \<subseteq> set ''0123456789abcdef'') \<and>
     (\<forall>b. length (sha256 H b) = 32) \<and>
     (\<forall>b. length (sha384 H b) = 48) \<and>
     (\<forall>b. length (sha512 H b) = 64)"

datatype digest_error =
    CompareMismatch string string
  | CompareUndecidable
  | CompareContradiction
  | InvalidDigestSpec
  | DuplicateKey string
  | UnknownKey string
  | HexDecodingError string string string
  | InvalidDigestLength nat nat

text \<open>The arrays of fixed size of the source are byte lists; \<open>digest_wf\<close> is their size.\<close>

datatype digest =
    Psha2 bytes
  | Sha1 bytes
  | Sha256 bytes
  | Sha384 bytes
  | Sha512 bytes
  | Sha3_224 bytes
  | Sha3_256 bytes
  | Sha3_384 bytes
  | Sha3_512 bytes

fun digest_wf :: "digest \<Rightarrow> bool" where
  "digest_wf (Psha2 b) \<longleftrightarrow> True"
| "digest_wf (Sha1 b) \<longleftrightarrow> length b = 20"
| "digest_wf (Sha256 b) \<longleftrightarrow> length b = 32"
| "digest_wf (Sha384 b) \<longleftrightarrow> length b = 48"
| "digest_wf (Sha512 b) \<longleftrightarrow> length b = 64"
| "digest_wf (Sha3_224 b) \<longleftrightarrow> length b = 28"
| "digest_wf (Sha3_256 b) \<longleftrightarrow> length b = 32"
| "digest_wf (Sha3_384 b) \<longleftrightarrow> length b = 48"
| "digest_wf (Sha3_512 b) \<longleftrightarrow> length b = 64"

definition sha256_from_contents :: "'z hash_lib_scheme \<Rightarrow> bytes \<Rightarrow> bytes" where
  "sha256_from_contents H input = sha256 H input"

definition sha384_from_contents :: "'z hash_lib_scheme \<Rightarrow> bytes \<Rightarrow> bytes" where
  "sha384_from_contents H input = sha384 H input"

definition sha512_from_contents :: "'z hash_lib_scheme \<Rightarrow> bytes \<Rightarrow> bytes" where
  "sha512_from_contents H input = sha512 H input"

definition sha256_try_from :: "bytes \<Rightarrow> (bytes, digest_error) result" where
  "sha256_try_from v = (if length v = 32 then Ok v else Err (InvalidDigestLength 32 (length v)))"

fun digest_as_ref :: "digest \<Rightarrow> bytes" where
  "digest_as_ref (Psha2 h) = h"
| "digest_as_ref (Sha1 h) = h"
| "digest_as_ref (Sha256 h) = h"
| "digest_as_ref (Sha384 h) = h"
| "digest_as_ref (Sha512 h) = h"
| "digest_as_ref (Sha3_224 h) = h"
| "digest_as_ref (Sha3_256 h) = h"
| "digest_as_ref (Sha3_384 h) = h"
| "digest_as_ref (Sha3_512 h) = h"

fun digest_type :: "digest \<Rightarrow> string" where
  "digest_type (Psha2 h) = ''psha2''"
| "digest_type (Sha1 h) = ''sha1''"
| "digest_type (Sha256 h) = ''sha2-256''"
| "digest_type (Sha384 h) = ''sha2-384''"
| "digest_type (Sha512 h) = ''sha2-512''"
| "digest_type (Sha3_224 h) = ''sha3-224''"
| "digest_type (Sha3_256 h) = ''sha3-256''"
| "digest_type (Sha3_384 h) = ''sha3-384''"
| "digest_type (Sha3_512 h) = ''sha3-512''"

definition to_hex :: "'z hash_lib_scheme \<Rightarrow> digest \<Rightarrow> string" where
  "to_hex H d = hex_encode H (digest_as_ref d)"

definition to_typed_hash :: "'z hash_lib_scheme \<Rightarrow> digest \<Rightarrow> string" where
  "to_typed_hash H d = digest_type d @ '':'' @ to_hex H d"

text \<open>The conversion of decoded bytes into an array of \<open>n\<close> bytes, and the match on the name of the algorithm.\<close>

definition sized :: "nat \<Rightarrow> (bytes \<Rightarrow> digest) \<Rightarrow> string \<Rightarrow> string \<Rightarrow> bytes \<Rightarrow> (digest, digest_error) result" where
  "sized n k alg hash decoded_hash =
     (if length decoded_hash = n then Ok (k decoded_hash)
      else Err (HexDecodingError alg hash ''Invalid string length''))"

definition digest_of_alg :: "string \<Rightarrow> string \<Rightarrow> bytes \<Rightarrow> (digest, digest_error) result" where
  "digest_of_alg alg hash decoded_hash =
     (if alg = ''psha2'' then Ok (Psha2 decoded_hash)
     else if alg = ''sha1'' then sized 20 Sha1 alg hash decoded_hash
     else if alg \<in> {''sha256'', ''sha2_256'', ''sha2-256''} then sized 32 Sha256 alg hash decoded_hash
     else if alg \<in> {''sha384'', ''sha2_384'', ''sha2-384''} then sized 48 Sha384 alg hash decoded_hash
     else if alg \<in> {''sha512'', ''sha2_512'', ''sha2-512''} then sized 64 Sha512 alg hash decoded_hash
     else if alg \<in> {''sha3_224'', ''sha3-224''} then sized 28 Sha3_224 alg hash decoded_hash
     else if alg \<in> {''sha3_256'', ''sha3-256''} then sized 32 Sha3_256 alg hash decoded_hash
     else if alg \<in> {''sha3_384'', ''sha3-384''} then sized 48 Sha3_384 alg hash decoded_hash
     else if alg \<in> {''sha3_512'', ''sha3-512''} then sized 64 Sha3_512 alg hash decoded_hash
     else Err (UnknownKey alg))"

definition from_typed_hash :: "'z hash_lib_scheme \<Rightarrow> string \<Rightarrow> (digest, digest_error) result" where
  "from_typed_hash H typed_hash =
     bind_result (ok_or InvalidDigestSpec (split_once (CHR '':'') typed_hash)) (\<lambda>(alg, hash).
     bind_result (ok_or (HexDecodingError alg hash (hex_error H hash)) (hex_decode H hash)) (\<lambda>decoded_hash.
     digest_of_alg alg hash decoded_hash))"


subsection \<open>Digest messages\<close>

record raw_digest =
  raw_psha2 :: bytes
  raw_sha1 :: bytes
  raw_sha2_256 :: bytes
  raw_sha2_512 :: bytes
  raw_sha3_512 :: bytes
  raw_sha3_384 :: bytes
  raw_sha3_256 :: bytes
  raw_sha3_224 :: bytes
  raw_sha2_384 :: bytes

record hex_digest =
  hex_psha2 :: string
  hex_sha1 :: string
  hex_sha2_256 :: string
  hex_sha2_512 :: string
  hex_sha3_512 :: string
  hex_sha3_384 :: string
  hex_sha3_256 :: string
  hex_sha3_224 :: string
  hex_sha2_384 :: string

definition raw_default :: raw_digest where
  "raw_default = \<lparr>raw_psha2 = [], raw_sha1 = [], raw_sha2_256 = [], raw_sha2_512 = [], raw_sha3_512 = [],
     raw_sha3_384 = [], raw_sha3_256 = [], raw_sha3_224 = [], raw_sha2_384 = []\<rparr>"

definition hex_default :: hex_digest where
  "hex_default = \<lparr>hex_psha2 = [], hex_sha1 = [], hex_sha2_256 = [], hex_sha2_512 = [], hex_sha3_512 = [],
     hex_sha3_384 = [], hex_sha3_256 = [], hex_sha3_224 = [], hex_sha2_384 = []\<rparr>"

fun digest_to_raw :: "digest \<Rightarrow> raw_digest" where
  "digest_to_raw (Psha2 h) = raw_default\<lparr>raw_psha2 := h\<rparr>"
| "digest_to_raw (Sha1 h) = raw_default\<lparr>raw_sha1 := h\<rparr>"
| "digest_to_raw (Sha256 h) = raw_default\<lparr>raw_sha2_256 := h\<rparr>"
| "digest_to_raw (Sha384 h) = raw_default\<lparr>raw_sha2_384 := h\<rparr>"
| "digest_to_raw (Sha512 h) = raw_default\<lparr>raw_sha2_512 := h\<rparr>"
| "digest_to_raw (Sha3_224 h) = raw_default\<lparr>raw_sha3_224 := h\<rparr>"
| "digest_to_raw (Sha3_256 h) = raw_default\<lparr>raw_sha3_256 := h\<rparr>"
| "digest_to_raw (Sha3_384 h) = raw_default\<lparr>raw_sha3_384 := h\<rparr>"
| "digest_to_raw (Sha3_512 h) = raw_default\<lparr>raw_sha3_512 := h\<rparr>"

fun digest_to_hex :: "'z hash_lib_scheme \<Rightarrow> digest \<Rightarrow> hex_digest" where
  "digest_to_hex H (Psha2 h) = hex_default\<lparr>hex_psha2 := hex_encode H h\<rparr>"
| "digest_to_hex H (Sha1 h) = hex_default\<lparr>hex_sha1 := hex_encode H h\<rparr>"
| "digest_to_hex H (Sha256 h) = hex_default\<lparr>hex_sha2_256 := hex_encode H h\<rparr>"
| "digest_to_hex H (Sha384 h) = hex_default\<lparr>hex_sha2_384 := hex_encode H h\<rparr>"
| "digest_to_hex H (Sha512 h) = hex_default\<lparr>hex_sha2_512 := hex_encode H h\<rparr>"
| "digest_to_hex H (Sha3_224 h) = hex_default\<lparr>hex_sha3_224 := hex_encode H h\<rparr>"
| "digest_to_hex H (Sha3_256 h) = hex_default\<lparr>hex_sha3_256 := hex_encode H h\<rparr>"
| "digest_to_hex H (Sha3_384 h) = hex_default\<lparr>hex_sha3_384 := hex_encode H h\<rparr>"
| "digest_to_hex H (Sha3_512 h) = hex_default\<lparr>hex_sha3_512 := hex_encode H h\<rparr>"

definition raw_to_hex_digest :: "'z hash_lib_scheme \<Rightarrow> raw_digest \<Rightarrow> hex_digest" where
  "raw_to_hex_digest H r =
     \<lparr>hex_psha2 = hex_encode H (raw_psha2 r),
      hex_sha1 = hex_encode H (raw_sha1 r),
      hex_sha2_256 = hex_encode H (raw_sha2_256 r),
      hex_sha2_512 = hex_encode H (raw_sha2_512 r),
      hex_sha3_512 = hex_encode H (raw_sha3_512 r),
      hex_sha3_384 = hex_encode H (raw_sha3_384 r),
      hex_sha3_256 = hex_encode H (raw_sha3_256 r),
      hex_sha3_224 = hex_encode H (raw_sha3_224 r),
      hex_sha2_384 = hex_encode H (raw_sha2_384 r)\<rparr>"

definition hex_field :: "'z hash_lib_scheme \<Rightarrow> string \<Rightarrow> string \<Rightarrow> (bytes, string anyhow) result" where
  "hex_field H field name = ok_or (MsgWith ''could not decode field'' name) (hex_decode H field)"

definition hex_to_raw_digest :: "'z hash_lib_scheme \<Rightarrow> hex_digest \<Rightarrow> (raw_digest, string anyhow) result" where
  "hex_to_raw_digest H h =
     bind_result (hex_field H (hex_psha2 h) ''psha2'') (\<lambda>psha2.
     bind_result (hex_field H (hex_sha1 h) ''sha1'') (\<lambda>sha1.
     bind_result (hex_field H (hex_sha2_256 h) ''sha2_256'') (\<lambda>sha2_256.
     bind_result (hex_field H (hex_sha2_512 h) ''sha2_512'') (\<lambda>sha2_512.
     bind_result (hex_field H (hex_sha3_512 h) ''sha3_512'') (\<lambda>sha3_512.
     bind_result (hex_field H (hex_sha3_384 h) ''sha3_384'') (\<lambda>sha3_384.
     bind_result (hex_field H (hex_sha3_256 h) ''sha3_256'') (\<lambda>sha3_256.
     bind_result (hex_field H (hex_sha3_224 h) ''sha3_224'') (\<lambda>sha3_224.
     bind_result (hex_field H (hex_sha2_384 h) ''sha2_384'') (\<lambda>sha2_384.
     Ok \<lparr>raw_psha2 = psha2, raw_sha1 = sha1, raw_sha2_256 = sha2_256, raw_sha2_512 = sha2_512,
         raw_sha3_512 = sha3_512, raw_sha3_384 = sha3_384, raw_sha3_256 = sha3_256,
         raw_sha3_224 = sha3_224, raw_sha2_384 = sha2_384\<rparr>)))))))))"

definition raw_digest_from_contents :: "'z hash_lib_scheme \<Rightarrow> bytes \<Rightarrow> raw_digest" where
  "raw_digest_from_contents H contents =
     raw_default\<lparr>raw_sha2_256 := sha256_from_contents H contents,
       raw_sha2_512 := sha512_from_contents H contents,
       raw_sha2_384 := sha384_from_contents H contents\<rparr>"

definition hex_digest_from_contents :: "'z hash_lib_scheme \<Rightarrow> bytes \<Rightarrow> hex_digest" where
  "hex_digest_from_contents H contents = raw_to_hex_digest H (raw_digest_from_contents H contents)"

datatype match_result = Same | Different | Undecidable | Contradictory

text \<open>The closure \<open>compare\<close>, which counts in \<open>same\<close> and \<open>different\<close>.\<close>

definition count_match :: "string \<Rightarrow> string \<Rightarrow> nat \<times> nat \<Rightarrow> nat \<times> nat" where
  "count_match a b = (\<lambda>(same, different).
     if a \<noteq> [] \<and> b \<noteq> [] then (if a = b then (same + 1, different) else (same, different + 1))
     else (same, different))"

definition get_hex_digest_match :: "hex_digest \<Rightarrow> hex_digest \<Rightarrow> match_result" where
  "get_hex_digest_match a b =
     (let counts =
        count_match (hex_sha2_384 a) (hex_sha2_384 b)
        (count_match (hex_sha3_224 a) (hex_sha3_224 b)
        (count_match (hex_sha3_256 a) (hex_sha3_256 b)
        (count_match (hex_sha3_384 a) (hex_sha3_384 b)
        (count_match (hex_sha3_512 a) (hex_sha3_512 b)
        (count_match (hex_sha2_512 a) (hex_sha2_512 b)
        (count_match (hex_sha2_256 a) (hex_sha2_256 b)
        (count_match (hex_sha1 a) (hex_sha1 b)
        (count_match (hex_psha2 a) (hex_psha2 b) (0, 0)))))))));
        same = fst counts; different = snd counts
      in
        if 0 < same then (if 0 < different then Contradictory else Same)
        else (if 0 < different then Different else Undecidable))"

definition get_raw_digest_match :: "'z hash_lib_scheme \<Rightarrow> raw_digest \<Rightarrow> raw_digest \<Rightarrow> match_result" where
  "get_raw_digest_match H a b = get_hex_digest_match (raw_to_hex_digest H a) (raw_to_hex_digest H b)"

definition is_hex_digest_match :: "hex_digest \<Rightarrow> hex_digest \<Rightarrow> (unit, string anyhow) result" where
  "is_hex_digest_match actual expected =
     (case get_hex_digest_match actual expected of
        Same \<Rightarrow> Ok ()
      | Different \<Rightarrow> bail ''mismatched digests''
      | Undecidable \<Rightarrow> bail ''invalid digests''
      | Contradictory \<Rightarrow> bail ''hash collision'')"

definition is_raw_digest_match :: "'z hash_lib_scheme \<Rightarrow> raw_digest \<Rightarrow> raw_digest \<Rightarrow> (unit, string anyhow) result" where
  "is_raw_digest_match H actual expected =
     (case get_raw_digest_match H actual expected of
        Same \<Rightarrow> Ok ()
      | Different \<Rightarrow> bail ''mismatched digests''
      | Undecidable \<Rightarrow> bail ''invalid digests''
      | Contradictory \<Rightarrow> bail ''hash collision'')"


subsection \<open>Digest sets\<close>

text \<open>\<open>DigestSet\<close>: a JSON map from the name of an algorithm to the digest.\<close>

type_synonym digest_set = "string btree_map"

text \<open>An arm of the match: a field that is already set is an error.\<close>

definition fill ::
  "(hex_digest \<Rightarrow> string) \<Rightarrow> ((string \<Rightarrow> string) \<Rightarrow> hex_digest \<Rightarrow> hex_digest) \<Rightarrow> hex_digest \<Rightarrow> string \<Rightarrow> string \<Rightarrow>
   (hex_digest, string anyhow) result" where
  "fill field field_update digest key value =
     (if field digest \<noteq> [] then Err (MsgWith ''duplicate key'' key)
      else Ok (field_update (\<lambda>s. s @ value) digest))"

definition set_digest_field_from_map_entry ::
  "hex_digest \<Rightarrow> string \<Rightarrow> string \<Rightarrow> (hex_digest, string anyhow) result" where
  "set_digest_field_from_map_entry digest key value =
     (if key = ''psha2'' then fill hex_psha2 hex_psha2_update digest key value
      else if key = ''sha1'' then fill hex_sha1 hex_sha1_update digest key value
      else if key \<in> {''sha256'', ''sha2_256''} then fill hex_sha2_256 hex_sha2_256_update digest key value
      else if key \<in> {''sha512'', ''sha2_512''} then fill hex_sha2_512 hex_sha2_512_update digest key value
      else if key = ''sha3_512'' then fill hex_sha3_512 hex_sha3_512_update digest key value
      else if key = ''sha3_384'' then fill hex_sha3_384 hex_sha3_384_update digest key value
      else if key = ''sha3_256'' then fill hex_sha3_256 hex_sha3_256_update digest key value
      else if key = ''sha3_224'' then fill hex_sha3_224 hex_sha3_224_update digest key value
      else if key \<in> {''sha384'', ''sha2_384''} then fill hex_sha2_384 hex_sha2_384_update digest key value
      else Err (MsgWith ''unknown digest key'' key))"

fun set_fields :: "hex_digest \<Rightarrow> (string \<times> string) list \<Rightarrow> (hex_digest, string anyhow) result" where
  "set_fields digest [] = Ok digest"
| "set_fields digest ((key, value) # es) =
     bind_result (set_digest_field_from_map_entry digest key value) (\<lambda>digest. set_fields digest es)"

definition set_to_hex_digest :: "digest_set \<Rightarrow> (hex_digest, string anyhow) result" where
  "set_to_hex_digest digest_set = set_fields hex_default (entries digest_set)"

text \<open>The macros \<open>insert_if_present\<close> and \<open>insert_if_present_with_custom_key\<close>.\<close>

definition insert_if_present :: "string \<Rightarrow> string \<Rightarrow> digest_set \<Rightarrow> digest_set" where
  "insert_if_present key field digest_set = (if field \<noteq> [] then btm_insert key field digest_set else digest_set)"

definition hex_to_set_digest :: "hex_digest \<Rightarrow> digest_set" where
  "hex_to_set_digest h =
     insert_if_present ''sha384'' (hex_sha2_384 h)
     (insert_if_present ''sha3_224'' (hex_sha3_224 h)
     (insert_if_present ''sha3_256'' (hex_sha3_256 h)
     (insert_if_present ''sha3_384'' (hex_sha3_384 h)
     (insert_if_present ''sha3_512'' (hex_sha3_512 h)
     (insert_if_present ''sha512'' (hex_sha2_512 h)
     (insert_if_present ''sha256'' (hex_sha2_256 h)
     (insert_if_present ''sha1'' (hex_sha1 h)
     (insert_if_present ''psha2'' (hex_psha2 h) btm_empty))))))))"

definition hex_digest_from_typed_hash :: "string \<Rightarrow> (hex_digest, string anyhow) result" where
  "hex_digest_from_typed_hash typed_hash =
     bind_result (ok_or (Msg ''invalid digest spec'') (split_once (CHR '':'') typed_hash)) (\<lambda>(alg, hash).
     set_to_hex_digest (btm_collect [(alg, hash)]))"


subsection \<open>Conversions\<close>

lemma hash_lib_facts:
  assumes "hash_lib_correct H"
  shows hex_round_trip [rule_format]: "\<forall>b. hex_decode H (hex_encode H b) = Some b"
    and hex_length [rule_format]: "\<forall>b. length (hex_encode H b) = 2 * length b"
    and hex_digits [rule_format]: "\<forall>b. set (hex_encode H b) \<subseteq> set ''0123456789abcdef''"
    and sha256_length [rule_format]: "\<forall>b. length (sha256 H b) = 32"
    and sha384_length [rule_format]: "\<forall>b. length (sha384 H b) = 48"
    and sha512_length [rule_format]: "\<forall>b. length (sha512 H b) = 64"
  using assms unfolding hash_lib_correct_def by - (elim conjE, assumption)+

lemma hex_inject: "hash_lib_correct H \<Longrightarrow> hex_encode H a = hex_encode H b \<longleftrightarrow> a = b"
  by (metis hex_round_trip option.inject)

lemma hex_Nil: "hash_lib_correct H \<Longrightarrow> hex_encode H b = [] \<longleftrightarrow> b = []"
  using hex_length [of H b] by (metis length_0_conv mult_eq_0_iff zero_neq_numeral)

lemma split_typed_hash: "split_once (CHR '':'') (digest_type d @ '':'' @ s) = Some (digest_type d, s)"
  using split_once_append [of "CHR '':''" "digest_type d" s] by (cases d) simp_all

lemma if_Ok_elim: "(if c then x else y) = Ok d \<Longrightarrow> (x = Ok d \<Longrightarrow> P) \<Longrightarrow> (y = Ok d \<Longrightarrow> P) \<Longrightarrow> P"
  by (cases c) simp_all

lemma sized_Ok_iff: "sized n k alg hash b = Ok d \<longleftrightarrow> length b = n \<and> d = k b"
  by (auto simp: sized_def)

text \<open>Whatever \<open>from_typed_hash\<close> returns has the size of its algorithm, and a digest is read back from its typed hash.\<close>

lemma digest_of_alg_sized: "digest_of_alg alg hash b = Ok d \<Longrightarrow> digest_wf d"
  unfolding digest_of_alg_def by (elim if_Ok_elim) (auto simp: sized_Ok_iff)

lemma digest_of_type:
  "digest_wf d \<Longrightarrow> digest_of_alg (digest_type d) hash (digest_as_ref d) = Ok d"
  by (cases d) (simp_all add: digest_of_alg_def sized_def)

lemma typed_hash_sized: "from_typed_hash H s = Ok d \<Longrightarrow> digest_wf d"
  by (auto simp: from_typed_hash_def result_simps intro: digest_of_alg_sized)

lemma typed_hash_round_trip:
  assumes "hash_lib_correct H" "digest_wf d"
  shows "from_typed_hash H (to_typed_hash H d) = Ok d"
  unfolding from_typed_hash_def to_typed_hash_def split_typed_hash to_hex_def
  by (simp add: hex_round_trip [OF assms(1)] digest_of_type [OF assms(2)])

lemma raw_hex_round_trip:
  assumes "hash_lib_correct H"
  shows "hex_to_raw_digest H (raw_to_hex_digest H r) = Ok r"
  by (simp add: hex_to_raw_digest_def raw_to_hex_digest_def hex_field_def hex_round_trip [OF assms])

lemma get_insert_if_present:
  "btm_get (insert_if_present k v m) x = (if x = k \<and> v \<noteq> [] then Some v else btm_get m x)"
  by (simp add: insert_if_present_def btm.get_insert)

definition digest_entry :: "string \<Rightarrow> string \<Rightarrow> (string \<times> string) list" where
  "digest_entry k v = (if v = [] then [] else [(k, v)])"

lemma digest_entry_facts [simp]:
  "map_of (digest_entry k v @ es) x = (if x = k \<and> v \<noteq> [] then Some v else map_of es x)"
  "set (digest_entry k v) = (if v = [] then {} else {(k, v)})"
  by (simp_all add: digest_entry_def)

definition hex_entries :: "hex_digest \<Rightarrow> (string \<times> string) list" where
  "hex_entries h =
     digest_entry ''psha2'' (hex_psha2 h) @ digest_entry ''sha1'' (hex_sha1 h) @ digest_entry ''sha256'' (hex_sha2_256 h) @
     digest_entry ''sha384'' (hex_sha2_384 h) @ digest_entry ''sha3_224'' (hex_sha3_224 h) @ digest_entry ''sha3_256'' (hex_sha3_256 h) @
     digest_entry ''sha3_384'' (hex_sha3_384 h) @ digest_entry ''sha3_512'' (hex_sha3_512 h) @ digest_entry ''sha512'' (hex_sha2_512 h) @ []"

lemma sorted_entry:
  "sorted_wrt (<) (map fst es) \<Longrightarrow> \<forall>k' \<in> fst ` set es. k < k' \<Longrightarrow> sorted_wrt (<) (map fst (digest_entry k v @ es))"
  by (simp add: digest_entry_def)

lemma sorted_hex_entries: "sorted_wrt (<) (map fst (hex_entries h))"
  unfolding hex_entries_def by (intro sorted_entry) (simp_all add: ball_Un image_Un)

lemma get_hex_to_set: "btm_get (hex_to_set_digest h) k = map_of (hex_entries h) k"
  unfolding hex_to_set_digest_def hex_entries_def get_insert_if_present digest_entry_facts btm.get_empty
  by (cases "k = ''psha2''", simp, cases "k = ''sha1''", simp, cases "k = ''sha256''", simp,
      cases "k = ''sha384''", simp, cases "k = ''sha3_224''", simp, cases "k = ''sha3_256''", simp,
      cases "k = ''sha3_384''", simp, cases "k = ''sha3_512''", simp, simp)

lemma entries_hex_to_set: "entries (hex_to_set_digest h) = hex_entries h"
  by (rule sorted_map_of_inject [OF btm.iter_sorted sorted_hex_entries])
    (simp add: fun_eq_iff get_hex_to_set [symmetric] btm.get_iter)

lemma set_fields_entry:
  "hex_psha2 d = [] \<Longrightarrow> set_fields d (digest_entry ''psha2'' v @ es) = set_fields (d\<lparr>hex_psha2 := v\<rparr>) es"
  "hex_sha1 d = [] \<Longrightarrow> set_fields d (digest_entry ''sha1'' v @ es) = set_fields (d\<lparr>hex_sha1 := v\<rparr>) es"
  "hex_sha2_256 d = [] \<Longrightarrow> set_fields d (digest_entry ''sha256'' v @ es) = set_fields (d\<lparr>hex_sha2_256 := v\<rparr>) es"
  "hex_sha2_384 d = [] \<Longrightarrow> set_fields d (digest_entry ''sha384'' v @ es) = set_fields (d\<lparr>hex_sha2_384 := v\<rparr>) es"
  "hex_sha3_224 d = [] \<Longrightarrow> set_fields d (digest_entry ''sha3_224'' v @ es) = set_fields (d\<lparr>hex_sha3_224 := v\<rparr>) es"
  "hex_sha3_256 d = [] \<Longrightarrow> set_fields d (digest_entry ''sha3_256'' v @ es) = set_fields (d\<lparr>hex_sha3_256 := v\<rparr>) es"
  "hex_sha3_384 d = [] \<Longrightarrow> set_fields d (digest_entry ''sha3_384'' v @ es) = set_fields (d\<lparr>hex_sha3_384 := v\<rparr>) es"
  "hex_sha3_512 d = [] \<Longrightarrow> set_fields d (digest_entry ''sha3_512'' v @ es) = set_fields (d\<lparr>hex_sha3_512 := v\<rparr>) es"
  "hex_sha2_512 d = [] \<Longrightarrow> set_fields d (digest_entry ''sha512'' v @ es) = set_fields (d\<lparr>hex_sha2_512 := v\<rparr>) es"
  by (cases d; simp add: digest_entry_def set_digest_field_from_map_entry_def fill_def)+

text \<open>A digest is read back from its JSON map.\<close>

lemma set_hex_round_trip: "set_to_hex_digest (hex_to_set_digest h) = Ok h"
  unfolding set_to_hex_digest_def entries_hex_to_set hex_entries_def hex_default_def
  by (cases h) (simp add: set_fields_entry set_fields_entry(9) [where es = "[]", simplified])


subsection \<open>Comparison\<close>

text \<open>The fields of two digests side by side.\<close>

definition digest_pairs :: "hex_digest \<Rightarrow> hex_digest \<Rightarrow> (string \<times> string) list" where
  "digest_pairs a b =
     map (\<lambda>f. (f a, f b)) [hex_psha2, hex_sha1, hex_sha2_256, hex_sha2_512, hex_sha3_512,
       hex_sha3_384, hex_sha3_256, hex_sha3_224, hex_sha2_384]"

definition both_equal :: "string \<times> string \<Rightarrow> bool" where
  "both_equal p \<longleftrightarrow> fst p \<noteq> [] \<and> fst p = snd p"

definition both_differ :: "string \<times> string \<Rightarrow> bool" where
  "both_differ p \<longleftrightarrow> fst p \<noteq> [] \<and> snd p \<noteq> [] \<and> fst p \<noteq> snd p"

lemma count_match_eq:
  "count_match a b c = (fst c + of_bool (both_equal (a, b)), snd c + of_bool (both_differ (a, b)))"
  by (auto simp: count_match_def both_equal_def both_differ_def split: prod.splits)

lemma count_pos [simp]: "0 < x + of_bool P \<longleftrightarrow> 0 < x \<or> P" for x :: nat
  by (cases P) simp_all

text \<open>
  The verdict of a comparison: some algorithm that both digests have gives the same value, and
  some algorithm that both have gives different values.
\<close>

lemma hex_digest_match_iff:
  "get_hex_digest_match a b =
     (if \<exists>p \<in> set (digest_pairs a b). both_equal p
      then (if \<exists>p \<in> set (digest_pairs a b). both_differ p then Contradictory else Same)
      else (if \<exists>p \<in> set (digest_pairs a b). both_differ p then Different else Undecidable))"
proof -
  have "(\<exists>p \<in> set (digest_pairs a b). Q p) \<longleftrightarrow>
      Q (hex_psha2 a, hex_psha2 b) \<or> Q (hex_sha1 a, hex_sha1 b) \<or> Q (hex_sha2_256 a, hex_sha2_256 b) \<or>
      Q (hex_sha2_512 a, hex_sha2_512 b) \<or> Q (hex_sha3_512 a, hex_sha3_512 b) \<or> Q (hex_sha3_384 a, hex_sha3_384 b) \<or>
      Q (hex_sha3_256 a, hex_sha3_256 b) \<or> Q (hex_sha3_224 a, hex_sha3_224 b) \<or> Q (hex_sha2_384 a, hex_sha2_384 b)" for Q
    by (simp add: digest_pairs_def)
  then show ?thesis
    unfolding get_hex_digest_match_def Let_def count_match_eq fst_conv snd_conv count_pos by simp
qed

lemma hex_digest_match_Ok_iff:
  "is_hex_digest_match a b = Ok () \<longleftrightarrow>
     (\<exists>p \<in> set (digest_pairs a b). both_equal p) \<and> (\<forall>p \<in> set (digest_pairs a b). \<not> both_differ p)"
  by (auto simp: is_hex_digest_match_def hex_digest_match_iff)

lemma raw_digest_match_eq: "is_raw_digest_match H a b = is_hex_digest_match (raw_to_hex_digest H a) (raw_to_hex_digest H b)"
  by (simp add: is_raw_digest_match_def is_hex_digest_match_def get_raw_digest_match_def)

definition raw_fields :: "(raw_digest \<Rightarrow> bytes) set" where
  "raw_fields = {raw_psha2, raw_sha1, raw_sha2_256, raw_sha2_512, raw_sha3_512, raw_sha3_384, raw_sha3_256,
     raw_sha3_224, raw_sha2_384}"

text \<open>
  Two raw digests match exactly if they agree on every algorithm that both have, and there is one.
\<close>

lemma raw_digest_match_Ok_iff:
  assumes "hash_lib_correct H"
  shows "is_raw_digest_match H a b = Ok () \<longleftrightarrow>
    (\<exists>f \<in> raw_fields. f a \<noteq> [] \<and> f b \<noteq> []) \<and> (\<forall>f \<in> raw_fields. f a = [] \<or> f b = [] \<or> f a = f b)"
proof -
  have e: "(\<exists>p \<in> set (digest_pairs (raw_to_hex_digest H a) (raw_to_hex_digest H b)). Q p) \<longleftrightarrow>
      (\<exists>f \<in> raw_fields. Q (hex_encode H (f a), hex_encode H (f b)))" for Q
    by (simp add: digest_pairs_def raw_fields_def raw_to_hex_digest_def)
  have "is_raw_digest_match H a b = Ok () \<longleftrightarrow>
      (\<exists>f \<in> raw_fields. f a \<noteq> [] \<and> f a = f b) \<and> \<not> (\<exists>f \<in> raw_fields. f a \<noteq> [] \<and> f b \<noteq> [] \<and> f a \<noteq> f b)"
    unfolding raw_digest_match_eq hex_digest_match_Ok_iff bex_simps(8) [symmetric] e both_equal_def both_differ_def
    by (simp add: hex_Nil [OF assms] hex_inject [OF assms])
  also have "\<dots> \<longleftrightarrow> (\<exists>f \<in> raw_fields. f a \<noteq> [] \<and> f b \<noteq> []) \<and> (\<forall>f \<in> raw_fields. f a = [] \<or> f b = [] \<or> f a = f b)"
    by metis
  finally show ?thesis .
qed

text \<open>Contents match themselves, and contents with different SHA-256 hashes do not match.\<close>

lemma contents_match:
  assumes "hash_lib_correct H"
  shows "is_raw_digest_match H (raw_digest_from_contents H c) (raw_digest_from_contents H c) = Ok ()"
proof -
  have "sha256 H c \<noteq> []" using sha256_length [OF assms, of c] by auto
  then show ?thesis unfolding raw_digest_match_Ok_iff [OF assms]
    by (auto simp: raw_fields_def raw_digest_from_contents_def sha256_from_contents_def)
qed

lemma contents_differ:
  assumes "hash_lib_correct H" "is_raw_digest_match H a (raw_digest_from_contents H c) = Ok ()" "raw_sha2_256 a \<noteq> []"
  shows "raw_sha2_256 a = sha256 H c"
proof -
  have "sha256 H c \<noteq> []" using sha256_length [OF assms(1), of c] by auto
  then show ?thesis using assms(2,3) unfolding raw_digest_match_Ok_iff [OF assms(1)]
    by (auto simp: raw_fields_def raw_digest_from_contents_def sha256_from_contents_def)
qed

end
