(* ===== verification/Oak_Time.thy ===== *)
theory Oak_Time
  imports Oak_Prelude "HOL-Library.Signed_Division"
begin

section \<open>Time\<close>

text \<open>
  \<^verbatim>\<open>oak_time\<close>: instants and durations are signed numbers of nanoseconds in an \<open>i128\<close>. Signed
  integers of the source are \<open>int\<close>; arithmetic that leaves the width wraps around, as in a release
  build, which is written \<open>i64\<close> and \<open>i128\<close>. Conversions to a smaller width that the source checks
  with \<open>expect\<close> panic.
\<close>

definition i64 :: "int \<Rightarrow> int" where
  "i64 = signed_take_bit 63"

definition i128 :: "int \<Rightarrow> int" where
  "i128 = signed_take_bit 127"

definition is_i64 :: "int \<Rightarrow> bool" where
  "is_i64 x \<longleftrightarrow> - (2 ^ 63) \<le> x \<and> x < 2 ^ 63"

definition is_i128 :: "int \<Rightarrow> bool" where
  "is_i128 x \<longleftrightarrow> - (2 ^ 127) \<le> x \<and> x < 2 ^ 127"

definition try_i64 :: "int \<Rightarrow> int option" where
  "try_i64 x = (if is_i64 x then Some x else None)"

definition try_i32 :: "int \<Rightarrow> int option" where
  "try_i32 x = (if - (2 ^ 31) \<le> x \<and> x < 2 ^ 31 then Some x else None)"

lemma i64_id [simp]: "is_i64 x \<Longrightarrow> i64 x = x"
  by (simp add: i64_def is_i64_def signed_take_bit_int_eq_self)

lemma i128_id [simp]: "is_i128 x \<Longrightarrow> i128 x = x"
  by (simp add: i128_def is_i128_def signed_take_bit_int_eq_self)

lemma is_i64_i64 [simp]: "is_i64 (i64 x)"
  using signed_take_bit_int_greater_eq_minus_exp [of 63 x] signed_take_bit_int_less_exp [of 63 x]
  by (simp add: i64_def is_i64_def)


subsection \<open>Durations\<close>

definition MILLIS_TO_NANOS :: int where "MILLIS_TO_NANOS = 1000000"

definition SECONDS_TO_NANOS :: int where "SECONDS_TO_NANOS = 1000000000"

record duration =
  duration_nanoseconds :: int

definition duration_from_nanos :: "int \<Rightarrow> duration" where
  "duration_from_nanos nanos = \<lparr>duration_nanoseconds = nanos\<rparr>"

definition duration_from_seconds :: "int \<Rightarrow> duration" where
  "duration_from_seconds s = duration_from_nanos (SECONDS_TO_NANOS * s)"

definition duration_from_millis :: "int \<Rightarrow> duration" where
  "duration_from_millis ms = duration_from_nanos (MILLIS_TO_NANOS * ms)"

definition duration_from_minutes :: "int \<Rightarrow> duration" where
  "duration_from_minutes m = duration_from_seconds (i64 (60 * m))"

definition duration_from_hours :: "int \<Rightarrow> duration" where
  "duration_from_hours h = duration_from_seconds (i64 (3600 * h))"

definition duration_from_days :: "int \<Rightarrow> duration" where
  "duration_from_days d = duration_from_hours (i64 (24 * d))"

definition duration_from_weeks :: "int \<Rightarrow> duration" where
  "duration_from_weeks w = duration_from_days (i64 (7 * w))"

definition into_seconds :: "duration \<Rightarrow> (int, 'e) result" where
  "into_seconds d = expect (try_i64 (duration_nanoseconds d sdiv SECONDS_TO_NANOS))"

definition into_millis :: "duration \<Rightarrow> (int, 'e) result" where
  "into_millis d = expect (try_i64 (duration_nanoseconds d sdiv MILLIS_TO_NANOS))"

definition into_nanos :: "duration \<Rightarrow> int" where
  "into_nanos d = duration_nanoseconds d"

definition duration_add :: "duration \<Rightarrow> duration \<Rightarrow> duration" where
  "duration_add a b = \<lparr>duration_nanoseconds = i128 (duration_nanoseconds a + duration_nanoseconds b)\<rparr>"

definition duration_sub :: "duration \<Rightarrow> duration \<Rightarrow> duration" where
  "duration_sub a b = duration_from_nanos (i128 (duration_nanoseconds a - duration_nanoseconds b))"

text \<open>Division by zero panics, as does dividing the smallest \<open>i128\<close> by minus one.\<close>

definition duration_div :: "duration \<Rightarrow> int \<Rightarrow> (duration, 'e) result" where
  "duration_div d n =
     (if n = 0 \<or> duration_nanoseconds d = - (2 ^ 127) \<and> n = -1 then Panic
      else Ok (duration_from_nanos (duration_nanoseconds d sdiv n)))"

text \<open>\<open>prost_types::Timestamp\<close> and \<open>prost_types::Duration\<close>: seconds in an \<open>i64\<close> and nanoseconds in an \<open>i32\<close>.\<close>

record seconds_nanos =
  sn_seconds :: int
  sn_nanos :: int

definition duration_of_proto :: "seconds_nanos \<Rightarrow> duration" where
  "duration_of_proto p = \<lparr>duration_nanoseconds = SECONDS_TO_NANOS * sn_seconds p + sn_nanos p\<rparr>"

definition duration_to_proto :: "duration \<Rightarrow> (seconds_nanos, 'e) result" where
  "duration_to_proto d =
     bind_result (expect (try_i64 (duration_nanoseconds d sdiv SECONDS_TO_NANOS))) (\<lambda>seconds.
     bind_result (expect (try_i32 (duration_nanoseconds d smod SECONDS_TO_NANOS))) (\<lambda>nanos.
     Ok \<lparr>sn_seconds = seconds, sn_nanos = nanos\<rparr>))"


subsection \<open>Instants\<close>

record instant =
  nanoseconds :: int

definition UNIX_EPOCH :: instant where
  "UNIX_EPOCH = \<lparr>nanoseconds = 0\<rparr>"

definition from_unix_seconds :: "int \<Rightarrow> instant" where
  "from_unix_seconds s = \<lparr>nanoseconds = SECONDS_TO_NANOS * s\<rparr>"

definition from_unix_millis :: "int \<Rightarrow> instant" where
  "from_unix_millis ms = \<lparr>nanoseconds = MILLIS_TO_NANOS * ms\<rparr>"

definition from_unix_nanos :: "int \<Rightarrow> instant" where
  "from_unix_nanos ns = \<lparr>nanoseconds = ns\<rparr>"

definition into_unix_seconds :: "instant \<Rightarrow> (int, 'e) result" where
  "into_unix_seconds t = expect (try_i64 (nanoseconds t sdiv SECONDS_TO_NANOS))"

definition into_unix_millis :: "instant \<Rightarrow> (int, 'e) result" where
  "into_unix_millis t = expect (try_i64 (nanoseconds t sdiv MILLIS_TO_NANOS))"

definition into_unix_nanos :: "instant \<Rightarrow> int" where
  "into_unix_nanos t = nanoseconds t"

definition from_seconds_nanos :: "int \<Rightarrow> int \<Rightarrow> instant" where
  "from_seconds_nanos s n = \<lparr>nanoseconds = SECONDS_TO_NANOS * s + n\<rparr>"

definition into_second_nanos :: "instant \<Rightarrow> (int \<times> int, 'e) result" where
  "into_second_nanos t =
     bind_result (expect (try_i64 (nanoseconds t sdiv SECONDS_TO_NANOS))) (\<lambda>seconds.
     bind_result (expect (try_i32 (nanoseconds t smod SECONDS_TO_NANOS))) (\<lambda>nanos.
     Ok (if nanos < 0 then (i64 (seconds - 1), nanos + 1000000000) else (seconds, nanos))))"

definition into_timestamp :: "instant \<Rightarrow> (seconds_nanos, 'e) result" where
  "into_timestamp t = map_ok (\<lambda>(s, n). \<lparr>sn_seconds = s, sn_nanos = n\<rparr>) (into_second_nanos t)"

definition instant_of_proto :: "seconds_nanos \<Rightarrow> instant" where
  "instant_of_proto p = \<lparr>nanoseconds = SECONDS_TO_NANOS * sn_seconds p + sn_nanos p\<rparr>"

definition instant_add :: "instant \<Rightarrow> duration \<Rightarrow> instant" where
  "instant_add t d = \<lparr>nanoseconds = i128 (nanoseconds t + into_nanos d)\<rparr>"

definition instant_sub :: "instant \<Rightarrow> instant \<Rightarrow> duration" where
  "instant_sub t u = duration_from_nanos (i128 (nanoseconds t - nanoseconds u))"

definition instant_sub_duration :: "instant \<Rightarrow> duration \<Rightarrow> instant" where
  "instant_sub_duration t d = \<lparr>nanoseconds = i128 (nanoseconds t - into_nanos d)\<rparr>"

definition add_assign :: "instant \<Rightarrow> duration \<Rightarrow> instant" where
  "add_assign t d = t\<lparr>nanoseconds := i128 (nanoseconds t + into_nanos d)\<rparr>"

definition sub_assign :: "instant \<Rightarrow> duration \<Rightarrow> instant" where
  "sub_assign t d = t\<lparr>nanoseconds := i128 (nanoseconds t - into_nanos d)\<rparr>"

text \<open>The derived order of \<open>Instant\<close>.\<close>

definition before :: "instant \<Rightarrow> instant \<Rightarrow> bool" where
  "before t u \<longleftrightarrow> nanoseconds t < nanoseconds u"

text \<open>A clock that stands still.\<close>

record fixed_clock =
  clock_time :: instant

definition at_instant :: "instant \<Rightarrow> fixed_clock" where
  "at_instant t = \<lparr>clock_time = t\<rparr>"

definition get_time :: "fixed_clock \<Rightarrow> instant" where
  "get_time c = clock_time c"


subsection \<open>Conversions round trip\<close>

lemma sdiv_mult [simp]: "0 < c \<Longrightarrow> (c * x) sdiv c = (x :: int)"
  by (auto simp: signed_divide_int_def sgn_mult abs_mult) (auto simp: sgn_if)

lemma unix_seconds_round_trip [simp]:
  assumes "is_i64 s"
  shows "into_unix_seconds (from_unix_seconds s) = Ok s"
  using assms by (simp add: into_unix_seconds_def from_unix_seconds_def try_i64_def SECONDS_TO_NANOS_def)

lemma unix_millis_round_trip [simp]:
  assumes "is_i64 ms"
  shows "into_unix_millis (from_unix_millis ms) = Ok ms"
  using assms by (simp add: into_unix_millis_def from_unix_millis_def try_i64_def MILLIS_TO_NANOS_def)

text \<open>The seconds and nanoseconds of an instant are those of floor division, also before the epoch.\<close>

lemma trunc_floor:
  fixes x c :: int
  assumes "0 < c"
  shows "(if x smod c < 0 then (x sdiv c - 1, x smod c + c) else (x sdiv c, x smod c)) = (x div c, x mod c)"
proof (cases "0 \<le> x")
  case True
  with assms have "x smod c = x mod c" "x sdiv c = x div c"
    by (auto simp: signed_divide_int_def signed_modulo_int_def sgn_if)
  moreover have "0 \<le> x mod c" using assms by simp
  ultimately show ?thesis by simp
next
  case False
  then have neg: "x sdiv c = - ((- x) div c)" "x smod c = - ((- x) mod c)"
    using assms by (auto simp: signed_divide_int_def signed_modulo_int_def sgn_if)
  show ?thesis
  proof (cases "(- x) mod c = 0")
    case True
    then have "c dvd - x" by (simp add: mod_eq_0_iff_dvd)
    then have "c dvd x" by simp
    with neg True show ?thesis by (simp add: dvd_neg_div)
  next
    case False
    moreover have "0 \<le> (- x) mod c" using assms by simp
    ultimately have "x smod c < 0" using neg by simp
    with False neg assms show ?thesis
      by (auto simp: zdiv_zminus1_eq_if zmod_zminus1_eq_if split: if_splits)
  qed
qed

lemma into_second_nanos_eq:
  "into_second_nanos t =
     (if is_i64 (nanoseconds t sdiv SECONDS_TO_NANOS)
      then Ok (if nanoseconds t smod SECONDS_TO_NANOS < 0
        then (i64 (nanoseconds t div SECONDS_TO_NANOS), nanoseconds t mod SECONDS_TO_NANOS)
        else (nanoseconds t div SECONDS_TO_NANOS, nanoseconds t mod SECONDS_TO_NANOS))
      else Panic)"
proof -
  let ?x = "nanoseconds t" and ?c = SECONDS_TO_NANOS
  have c: "0 < ?c" "?c = 1000000000" by (simp_all add: SECONDS_TO_NANOS_def)
  have "\<bar>?x smod ?c\<bar> < ?c"
    using abs_mod_less [of ?c "\<bar>?x\<bar>"] c by (auto simp: signed_modulo_int_def sgn_if abs_mult)
  then have "try_i32 (?x smod ?c) = Some (?x smod ?c)" using c by (auto simp: try_i32_def)
  then show ?thesis using trunc_floor [OF c(1), of ?x] c
    by (auto simp: into_second_nanos_def try_i64_def split: if_splits)
qed

text \<open>
  An instant whose seconds fit an \<open>i64\<close> is read back from its timestamp, and the nanoseconds of the
  timestamp are in the range the protocol buffer documents.
\<close>

lemma seconds_in_range:
  assumes "\<bar>x\<bar> < 2 ^ 63 * SECONDS_TO_NANOS"
  shows "is_i64 (x div SECONDS_TO_NANOS)" "is_i64 (x sdiv SECONDS_TO_NANOS)"
proof -
  have c: "0 < SECONDS_TO_NANOS" by (simp add: SECONDS_TO_NANOS_def)
  show "is_i64 (x div SECONDS_TO_NANOS)"
    using assms unfolding is_i64_def SECONDS_TO_NANOS_def by simp linarith
  have "\<bar>x\<bar> div SECONDS_TO_NANOS < 2 ^ 63" using assms unfolding SECONDS_TO_NANOS_def by simp
  moreover have "0 \<le> \<bar>x\<bar> div SECONDS_TO_NANOS" using c by (simp add: pos_imp_zdiv_nonneg_iff)
  ultimately show "is_i64 (x sdiv SECONDS_TO_NANOS)"
    using c by (auto simp: is_i64_def signed_divide_int_def sgn_if)
qed

lemma timestamp_round_trip:
  assumes "\<bar>nanoseconds t\<bar> < 2 ^ 63 * SECONDS_TO_NANOS"
  shows "\<exists>p. into_timestamp t = Ok p \<and> instant_of_proto p = t \<and> 0 \<le> sn_nanos p \<and> sn_nanos p < 10 ^ 9"
proof -
  have c: "0 < SECONDS_TO_NANOS" "SECONDS_TO_NANOS = 10 ^ 9" by (simp_all add: SECONDS_TO_NANOS_def)
  have "SECONDS_TO_NANOS * (nanoseconds t div SECONDS_TO_NANOS) + nanoseconds t mod SECONDS_TO_NANOS = nanoseconds t"
    by simp
  moreover have "0 \<le> nanoseconds t mod SECONDS_TO_NANOS" "nanoseconds t mod SECONDS_TO_NANOS < 10 ^ 9"
    using c by (simp_all add: pos_mod_bound)
  ultimately show ?thesis using seconds_in_range [OF assms]
    by (auto simp: into_timestamp_def into_second_nanos_eq instant_of_proto_def)
qed

lemma before_millis [simp]: "before (from_unix_millis a) (from_unix_millis b) \<longleftrightarrow> a < b"
  by (simp add: before_def from_unix_millis_def MILLIS_TO_NANOS_def)

text \<open>A duration is read back from its message: the fields keep the sign of the duration.\<close>

lemma duration_round_trip: "duration_to_proto d = Ok p \<Longrightarrow> duration_of_proto p = d"
  using mult_sdiv_smod_eq [of SECONDS_TO_NANOS "duration_nanoseconds d"]
  by (cases d) (auto simp: duration_to_proto_def duration_of_proto_def try_i64_def try_i32_def result_simps split: if_splits)

end
