(* ===== verification/TLog_Note.thy ===== *)
theory TLog_Note
  imports Oak_Digest Oak_Time
begin

section \<open>Signed notes and checkpoints\<close>

text \<open>
  \<^verbatim>\<open>tr/c2sp/note.rs\<close>, the part of \<^verbatim>\<open>tr/c2sp/lib.rs\<close> on checkpoints, and
  \<^verbatim>\<open>oak_crypto/src/tink/ml_dsa_44.rs\<close>: keys and signatures of transparency logs and their
  witnesses, the messages they sign, and the text of a checkpoint. Base64, Ed25519, the foreign
  functions behind ML-DSA-44 and the Merkle proofs of \<^verbatim>\<open>rs_merkle\<close> are functions of \<open>tlog_lib\<close>;
  \<open>ml_dsa\<close> says whether the cargo feature of that name is on.
\<close>

record ('v, 's) tlog_lib = hash_lib +
  b64_encode :: "bytes \<Rightarrow> string"
  b64_decode :: "string \<Rightarrow> bytes option"
  ed_from_bytes :: "bytes \<Rightarrow> 'v option"
  ed_to_bytes :: "'v \<Rightarrow> bytes"
  ed_verify :: "'v \<Rightarrow> bytes \<Rightarrow> bytes \<Rightarrow> bool"
  ed_public :: "'s \<Rightarrow> 'v"
  ed_sign :: "'s \<Rightarrow> bytes \<Rightarrow> bytes"
  ml_dsa :: bool
  MlDsa44Verify :: "bytes \<Rightarrow> bytes \<Rightarrow> bytes \<Rightarrow> int"
  MlDsa44Sign :: "bytes \<Rightarrow> bytes \<Rightarrow> bytes \<Rightarrow> int \<times> bytes"
  merkle_root :: "(bytes \<Rightarrow> bytes option \<Rightarrow> bytes) \<Rightarrow> bytes list \<Rightarrow> nat list \<Rightarrow> bytes list \<Rightarrow> nat \<Rightarrow> bytes option"

text \<open>
  What is documented of them: encodings are undone by decodings and use the characters of their
  alphabets, sizes of keys and signatures, and that signatures made with a key verify under it.
\<close>

definition base64_alphabet :: string where
  "base64_alphabet = ''ABCDEFGHIJKLMNOPQRSTUVWXYZabcdefghijklmnopqrstuvwxyz0123456789+/=''"

definition tlog_lib_correct :: "('v, 's, 'z) tlog_lib_scheme \<Rightarrow> bool" where
  "tlog_lib_correct L \<longleftrightarrow>
     hash_lib_correct L \<and>
     (\<forall>b. b64_decode L (b64_encode L b) = Some b) \<and>
     (\<forall>b. set (b64_encode L b) \<subseteq> set base64_alphabet) \<and>
     (\<forall>b. b64_encode L b = [] \<longleftrightarrow> b = []) \<and>
     (\<forall>v. ed_from_bytes L (ed_to_bytes L v) = Some v) \<and>
     (\<forall>v. length (ed_to_bytes L v) = 32) \<and>
     (\<forall>s m. length (ed_sign L s m) = 64) \<and>
     (\<forall>s m. ed_verify L (ed_public L s) m (ed_sign L s m)) \<and>
     (\<forall>m sk pk sig. MlDsa44Sign L m sk pk = (0, sig) \<longrightarrow> length sig = 2420 \<and> MlDsa44Verify L m sig pk = 0)"


subsection \<open>ML-DSA-44\<close>

definition PUBLIC_KEY_BYTES :: nat where "PUBLIC_KEY_BYTES = 1312"

definition SIGNATURE_BYTES :: nat where "SIGNATURE_BYTES = 2420"

datatype ml_dsa44_error =
    InvalidPublicKeyLength nat
  | InvalidSignatureLength nat
  | SigningFailed
  | KeyGenerationFailed

record ml_verifying_key =
  ml_raw :: bytes

record ml_key_pair =
  ml_private_key :: bytes
  ml_public_key :: ml_verifying_key

definition ml_verifying_key_try_from :: "bytes \<Rightarrow> (ml_verifying_key, ml_dsa44_error) result" where
  "ml_verifying_key_try_from bytes =
     (if length bytes \<noteq> PUBLIC_KEY_BYTES then Err (InvalidPublicKeyLength (length bytes))
      else Ok \<lparr>ml_raw = bytes\<rparr>)"

definition ml_signature_try_from :: "bytes \<Rightarrow> (bytes, ml_dsa44_error) result" where
  "ml_signature_try_from bytes =
     (if length bytes \<noteq> SIGNATURE_BYTES then Err (InvalidSignatureLength (length bytes)) else Ok bytes)"

definition ml_verify :: "('v, 's, 'z) tlog_lib_scheme \<Rightarrow> ml_verifying_key \<Rightarrow> bytes \<Rightarrow> bytes \<Rightarrow> bool" where
  "ml_verify L vk message signature \<longleftrightarrow> MlDsa44Verify L message signature (ml_raw vk) = 0"

definition ml_sign :: "('v, 's, 'z) tlog_lib_scheme \<Rightarrow> ml_key_pair \<Rightarrow> bytes \<Rightarrow> (bytes, ml_dsa44_error) result" where
  "ml_sign L kp message =
     (let (status_code, signature) = MlDsa44Sign L message (ml_private_key kp) (ml_raw (ml_public_key kp))
      in if status_code \<noteq> 0 then Err SigningFailed else Ok signature)"


subsection \<open>Errors and types\<close>

datatype checkpoint_error = Malformed

datatype note_error =
    MalformedSignature
  | MalformedVerifyingKey
  | MalformedCheckpoint checkpoint_error
  | SignatureVerificationFailed
  | OpaqueDataTooLong

datatype signature_type = Ed25519 | Ed25519CosignatureV1 | MlDsa44SubtreeV1

fun as_byte :: "signature_type \<Rightarrow> byte" where
  "as_byte Ed25519 = 0x01"
| "as_byte Ed25519CosignatureV1 = 0x04"
| "as_byte MlDsa44SubtreeV1 = 0x06"

definition from_byte :: "('v, 's, 'z) tlog_lib_scheme \<Rightarrow> byte \<Rightarrow> (signature_type, note_error) result" where
  "from_byte L b =
     (if b = 0x01 then Ok Ed25519
      else if b = 0x04 then Ok Ed25519CosignatureV1
      else if ml_dsa L \<and> b = 0x06 then Ok MlDsa44SubtreeV1
      else Err MalformedVerifyingKey)"

datatype 's signing_key =
    SkEd25519 's
  | SkEd25519CosignatureV1 's
  | SkMlDsa44SubtreeV1 ml_key_pair

datatype 'v verifying_key =
    VkEd25519 'v
  | VkEd25519CosignatureV1 'v
  | VkMlDsa44SubtreeV1 ml_verifying_key

fun verifying_key_signature_type :: "'v verifying_key \<Rightarrow> signature_type" where
  "verifying_key_signature_type (VkEd25519 _) = Ed25519"
| "verifying_key_signature_type (VkEd25519CosignatureV1 _) = Ed25519CosignatureV1"
| "verifying_key_signature_type (VkMlDsa44SubtreeV1 _) = MlDsa44SubtreeV1"

record 's note_signing_key =
  nsk_signing_key :: "'s signing_key"
  nsk_origin :: string
  nsk_key_id_hint :: bytes

record 'v note_verifying_key =
  nvk_origin :: string
  nvk_key_id_hint :: bytes
  nvk_verifying_key :: "'v verifying_key"

record note_signature =
  sig_origin :: string
  sig_key_id_hint :: bytes
  sig_bytes :: bytes

record timestamped_signature =
  ts_timestamp :: instant
  ts_signature :: bytes


subsection \<open>Signature lines\<close>

text \<open>An em dash and a space.\<close>

definition SIGNATURE_PREFIX :: string where
  "SIGNATURE_PREFIX = [CHR 0xE2, CHR 0x80, CHR 0x94, CHR '' '']"

definition note_signature_parse :: "('v, 's, 'z) tlog_lib_scheme \<Rightarrow> string \<Rightarrow> (note_signature, note_error) result" where
  "note_signature_parse L serialized =
     bind_result (ok_or MalformedSignature (strip_prefix SIGNATURE_PREFIX serialized)) (\<lambda>strip.
     bind_result (ok_or MalformedSignature (split_once SP strip)) (\<lambda>(origin, encoded).
     bind_result (ok_or MalformedSignature (b64_decode L encoded)) (\<lambda>b.
     if length b < 4 then Err MalformedSignature
     else Ok \<lparr>sig_origin = origin, sig_key_id_hint = take 4 b, sig_bytes = drop 4 b\<rparr>)))"

definition matches_key :: "note_signature \<Rightarrow> 'v note_verifying_key \<Rightarrow> bool" where
  "matches_key sig vkey \<longleftrightarrow> sig_origin sig = nvk_origin vkey \<and> sig_key_id_hint sig = nvk_key_id_hint vkey"

definition to_signature_line :: "('v, 's, 'z) tlog_lib_scheme \<Rightarrow> note_signature \<Rightarrow> string" where
  "to_signature_line L sig =
     SIGNATURE_PREFIX @ sig_origin sig @ [SP] @ b64_encode L (sig_key_id_hint sig @ sig_bytes sig)"


subsection \<open>Checkpoints\<close>

record checkpoint =
  cp_origin :: string
  cp_tree_size :: u64
  cp_root_hash :: bytes
  cp_signed_payload :: string
  cp_signatures :: "note_signature list"

text \<open>\<open>next()\<close> of the iterator over the lines.\<close>

fun next_line :: "string list \<Rightarrow> (string \<times> string list) option" where
  "next_line [] = None"
| "next_line (l # ls) = Some (l, ls)"

fun read_body :: "string \<Rightarrow> string list \<Rightarrow> string \<times> string list" where
  "read_body payload [] = (payload, [])"
| "read_body payload (line # ls) =
     (if line = [] then (payload, ls) else read_body (payload @ line @ [NL]) ls)"

fun read_signatures ::
  "('v, 's, 'z) tlog_lib_scheme \<Rightarrow> note_signature list \<Rightarrow> string list \<Rightarrow> (note_signature list, checkpoint_error) result" where
  "read_signatures L sigs [] = Ok sigs"
| "read_signatures L sigs (line # ls) =
     (if line = [] then read_signatures L sigs ls
      else bind_result (map_err (\<lambda>_. Malformed) (note_signature_parse L line)) (\<lambda>s.
        read_signatures L (sigs @ [s]) ls))"

definition checkpoint_parse :: "('v, 's, 'z) tlog_lib_scheme \<Rightarrow> string \<Rightarrow> (checkpoint, checkpoint_error) result" where
  "checkpoint_parse L serialized =
     bind_result (ok_or Malformed (next_line (lines serialized))) (\<lambda>(origin, ls).
     bind_result (ok_or Malformed (next_line ls)) (\<lambda>(cp_size_str, ls).
     bind_result (ok_or Malformed (parse_uint 64 cp_size_str)) (\<lambda>tree_size.
     bind_result (ok_or Malformed (next_line ls)) (\<lambda>(cp_root_str, ls).
     bind_result (ok_or Malformed (b64_decode L cp_root_str)) (\<lambda>root_hash_raw.
     if length root_hash_raw \<noteq> 32 then Err Malformed
     else
       let (signed_payload, ls) = read_body (origin @ [NL] @ cp_size_str @ [NL] @ cp_root_str @ [NL]) ls in
       bind_result (read_signatures L [] ls) (\<lambda>signatures.
       Ok \<lparr>cp_origin = origin, cp_tree_size = of_nat tree_size, cp_root_hash = root_hash_raw,
           cp_signed_payload = signed_payload, cp_signatures = signatures\<rparr>))))))"

definition checkpoint_serialize :: "('v, 's, 'z) tlog_lib_scheme \<Rightarrow> checkpoint \<Rightarrow> string" where
  "checkpoint_serialize L c =
     cp_signed_payload c @ [NL] @ concat (map (\<lambda>sig. to_signature_line L sig @ [NL]) (cp_signatures c))"


subsection \<open>Messages and keys\<close>

definition push_opaque_u8 :: "bytes \<Rightarrow> bytes \<Rightarrow> (bytes, note_error) result" where
  "push_opaque_u8 buf data =
     (if 255 < length data then Err OpaqueDataTooLong else Ok (buf @ [of_nat (length data)] @ data))"

text \<open>\<open>timestamp.into_unix_seconds() as u64\<close>.\<close>

definition epoch_secs :: "instant \<Rightarrow> (u64, 'e) result" where
  "epoch_secs timestamp = map_ok word_of_int (into_unix_seconds timestamp)"

fun signature_message :: "('v, 's, 'z) tlog_lib_scheme \<Rightarrow> signature_type \<Rightarrow> string \<Rightarrow> instant \<Rightarrow> string \<Rightarrow> (bytes, note_error) result" where
  "signature_message L Ed25519 checkpoint_text timestamp cosigner_name = Ok (str_bytes checkpoint_text)"
| "signature_message L Ed25519CosignatureV1 checkpoint_text timestamp cosigner_name =
     bind_result (epoch_secs timestamp) (\<lambda>secs.
     Ok (str_bytes (''cosignature/v1'' @ [NL] @ ''time '' @ show_nat (unat secs) @ [NL] @ checkpoint_text)))"
| "signature_message L MlDsa44SubtreeV1 checkpoint_text timestamp cosigner_name =
     bind_result (map_err MalformedCheckpoint (checkpoint_parse L checkpoint_text)) (\<lambda>checkpoint.
     bind_result (epoch_secs timestamp) (\<lambda>secs.
     bind_result (push_opaque_u8 (str_bytes ''subtree/v1'' @ [10, 0]) (str_bytes cosigner_name)) (\<lambda>msg.
     bind_result (push_opaque_u8 (msg @ to_be_bytes secs) (str_bytes (cp_origin checkpoint))) (\<lambda>msg.
     Ok (msg @ replicate 8 0 @ to_be_bytes (cp_tree_size checkpoint) @ cp_root_hash checkpoint)))))"

definition compute_key_id :: "('v, 's, 'z) tlog_lib_scheme \<Rightarrow> string \<Rightarrow> signature_type \<Rightarrow> bytes \<Rightarrow> bytes" where
  "compute_key_id L origin sig_type key_bytes =
     take 4 (sha256_from_contents L (str_bytes origin @ [10] @ [as_byte sig_type] @ key_bytes))"

definition note_signing_key_new :: "('v, 's, 'z) tlog_lib_scheme \<Rightarrow> string \<Rightarrow> 's signing_key \<Rightarrow> 's note_signing_key" where
  "note_signing_key_new L origin signing_key =
     (let key_id_hint =
        (case signing_key of
           SkEd25519 sk \<Rightarrow> compute_key_id L origin Ed25519 (ed_to_bytes L (ed_public L sk))
         | SkEd25519CosignatureV1 sk \<Rightarrow> compute_key_id L origin Ed25519CosignatureV1 (ed_to_bytes L (ed_public L sk))
         | SkMlDsa44SubtreeV1 kp \<Rightarrow> compute_key_id L origin MlDsa44SubtreeV1 (ml_raw (ml_public_key kp)))
      in \<lparr>nsk_signing_key = signing_key, nsk_origin = origin, nsk_key_id_hint = key_id_hint\<rparr>)"

definition nsk_verifying_key :: "('v, 's, 'z) tlog_lib_scheme \<Rightarrow> 's note_signing_key \<Rightarrow> 'v note_verifying_key" where
  "nsk_verifying_key L key =
     (let vk =
        (case nsk_signing_key key of
           SkEd25519 sk \<Rightarrow> VkEd25519 (ed_public L sk)
         | SkEd25519CosignatureV1 sk \<Rightarrow> VkEd25519CosignatureV1 (ed_public L sk)
         | SkMlDsa44SubtreeV1 kp \<Rightarrow> VkMlDsa44SubtreeV1 (ml_public_key kp))
      in \<lparr>nvk_origin = nsk_origin key, nvk_key_id_hint = nsk_key_id_hint key, nvk_verifying_key = vk\<rparr>)"

definition nsk_signature_type :: "'s note_signing_key \<Rightarrow> signature_type" where
  "nsk_signature_type key =
     (case nsk_signing_key key of
        SkEd25519 _ \<Rightarrow> Ed25519
      | SkEd25519CosignatureV1 _ \<Rightarrow> Ed25519CosignatureV1
      | SkMlDsa44SubtreeV1 _ \<Rightarrow> MlDsa44SubtreeV1)"

definition timestamped_to_bytes :: "timestamped_signature \<Rightarrow> (bytes, 'e) result" where
  "timestamped_to_bytes t = map_ok (\<lambda>secs. to_be_bytes secs @ ts_signature t) (epoch_secs (ts_timestamp t))"

definition note_sign ::
  "('v, 's, 'z) tlog_lib_scheme \<Rightarrow> 's note_signing_key \<Rightarrow> string \<Rightarrow> instant \<Rightarrow> (note_signature, note_error) result" where
  "note_sign L key checkpoint_text timestamp =
     bind_result (signature_message L (nsk_signature_type key) checkpoint_text timestamp (nsk_origin key)) (\<lambda>message.
     bind_result
       (case nsk_signing_key key of
          SkEd25519 sk \<Rightarrow> Ok (ed_sign L sk message)
        | SkEd25519CosignatureV1 sk \<Rightarrow>
            timestamped_to_bytes \<lparr>ts_timestamp = timestamp, ts_signature = ed_sign L sk message\<rparr>
        | SkMlDsa44SubtreeV1 kp \<Rightarrow>
            bind_result (map_err (\<lambda>_. SignatureVerificationFailed) (ml_sign L kp message)) (\<lambda>sig.
            timestamped_to_bytes \<lparr>ts_timestamp = timestamp, ts_signature = sig\<rparr>)) (\<lambda>sig_bytes.
     Ok \<lparr>sig_origin = nsk_origin key, sig_key_id_hint = nsk_key_id_hint key, sig_bytes = sig_bytes\<rparr>))"

definition note_verifying_key_new ::
  "('v, 's, 'z) tlog_lib_scheme \<Rightarrow> string \<Rightarrow> 'v verifying_key \<Rightarrow> 'v note_verifying_key" where
  "note_verifying_key_new L origin verifying_key =
     (let key_id_hint =
        (case verifying_key of
           VkEd25519 vk \<Rightarrow> compute_key_id L origin Ed25519 (ed_to_bytes L vk)
         | VkEd25519CosignatureV1 vk \<Rightarrow> compute_key_id L origin Ed25519CosignatureV1 (ed_to_bytes L vk)
         | VkMlDsa44SubtreeV1 vk \<Rightarrow> compute_key_id L origin MlDsa44SubtreeV1 (ml_raw vk))
      in \<lparr>nvk_origin = origin, nvk_key_id_hint = key_id_hint, nvk_verifying_key = verifying_key\<rparr>)"

text \<open>The raw Ed25519 key behind the type byte.\<close>

definition ed_raw_key :: "('v, 's, 'z) tlog_lib_scheme \<Rightarrow> bytes \<Rightarrow> ('v, note_error) result" where
  "ed_raw_key L raw =
     (if length raw \<noteq> 32 then Err MalformedVerifyingKey else ok_or MalformedVerifyingKey (ed_from_bytes L raw))"

definition note_verifying_key_parse ::
  "('v, 's, 'z) tlog_lib_scheme \<Rightarrow> string \<Rightarrow> ('v note_verifying_key, note_error) result" where
  "note_verifying_key_parse L serialized =
     (let parts = splitn 3 PLUS serialized in
      if length parts < 3 then Err MalformedVerifyingKey
      else
        bind_result (ok_or MalformedVerifyingKey (hex_decode L (parts ! 1))) (\<lambda>id_bytes.
        bind_result (ok_or MalformedVerifyingKey (b64_decode L (parts ! 2))) (\<lambda>key_bytes.
        if key_bytes = [] then Err MalformedVerifyingKey
        else if length id_bytes \<noteq> 4 then Err MalformedVerifyingKey
        else
          bind_result (from_byte L (hd key_bytes)) (\<lambda>sig_type.
          bind_result
            (case sig_type of
               Ed25519 \<Rightarrow> map_ok VkEd25519 (ed_raw_key L (tl key_bytes))
             | Ed25519CosignatureV1 \<Rightarrow> map_ok VkEd25519CosignatureV1 (ed_raw_key L (tl key_bytes))
             | MlDsa44SubtreeV1 \<Rightarrow>
                 map_ok VkMlDsa44SubtreeV1
                   (map_err (\<lambda>_. MalformedVerifyingKey) (ml_verifying_key_try_from (tl key_bytes)))) (\<lambda>vk.
          Ok \<lparr>nvk_origin = parts ! 0, nvk_key_id_hint = id_bytes, nvk_verifying_key = vk\<rparr>)))))"

definition to_vkey_string :: "('v, 's, 'z) tlog_lib_scheme \<Rightarrow> 'v note_verifying_key \<Rightarrow> string" where
  "to_vkey_string L key =
     (let buf = [as_byte (verifying_key_signature_type (nvk_verifying_key key))] @
        (case nvk_verifying_key key of
           VkEd25519 vk \<Rightarrow> ed_to_bytes L vk
         | VkEd25519CosignatureV1 vk \<Rightarrow> ed_to_bytes L vk
         | VkMlDsa44SubtreeV1 vk \<Rightarrow> ml_raw vk)
      in nvk_origin key @ [PLUS] @ hex_encode L (nvk_key_id_hint key) @ [PLUS] @ b64_encode L buf)"

definition verify_ed25519 :: "('v, 's, 'z) tlog_lib_scheme \<Rightarrow> 'v \<Rightarrow> bytes \<Rightarrow> bytes \<Rightarrow> (unit, note_error) result" where
  "verify_ed25519 L vk message signature =
     (if length signature \<noteq> 64 then Err MalformedSignature
      else if ed_verify L vk message signature then Ok () else Err SignatureVerificationFailed)"

definition verify_ml_dsa_44 ::
  "('v, 's, 'z) tlog_lib_scheme \<Rightarrow> ml_verifying_key \<Rightarrow> bytes \<Rightarrow> bytes \<Rightarrow> (unit, note_error) result" where
  "verify_ml_dsa_44 L vk message signature =
     bind_result (map_err (\<lambda>_. MalformedSignature) (ml_signature_try_from signature)) (\<lambda>sig.
     if ml_verify L vk message sig then Ok () else Err SignatureVerificationFailed)"

text \<open>The timestamp in front of a cosignature.\<close>

definition signature_timestamp :: "bytes \<Rightarrow> instant" where
  "signature_timestamp sig = from_unix_seconds (i64 (uint (from_be_bytes (take 8 sig) :: u64)))"

definition note_verify ::
  "('v, 's, 'z) tlog_lib_scheme \<Rightarrow> 'v note_verifying_key \<Rightarrow> string \<Rightarrow> note_signature \<Rightarrow> (unit, note_error) result" where
  "note_verify L key checkpoint_text sig =
     (case nvk_verifying_key key of
        VkEd25519 vk \<Rightarrow>
          if length (sig_bytes sig) \<noteq> 64 then Err MalformedSignature
          else
            bind_result (signature_message L Ed25519 checkpoint_text UNIX_EPOCH []) (\<lambda>message.
            verify_ed25519 L vk message (sig_bytes sig))
      | VkEd25519CosignatureV1 vk \<Rightarrow>
          if length (sig_bytes sig) \<le> 8 then Err MalformedSignature
          else
            bind_result (signature_message L Ed25519CosignatureV1 checkpoint_text (signature_timestamp (sig_bytes sig))
              (nvk_origin key)) (\<lambda>message.
            verify_ed25519 L vk message (drop 8 (sig_bytes sig)))
      | VkMlDsa44SubtreeV1 vk \<Rightarrow>
          if length (sig_bytes sig) \<le> 8 then Err MalformedSignature
          else
            bind_result (signature_message L MlDsa44SubtreeV1 checkpoint_text (signature_timestamp (sig_bytes sig))
              (nvk_origin key)) (\<lambda>message.
            verify_ml_dsa_44 L vk message (drop 8 (sig_bytes sig))))"


subsection \<open>Signature lines are read back\<close>

lemma tlog_lib_facts:
  assumes "tlog_lib_correct L"
  shows tlog_hash_lib: "hash_lib_correct L"
    and b64_round_trip [rule_format]: "\<forall>b. b64_decode L (b64_encode L b) = Some b"
    and b64_alphabet [rule_format]: "\<forall>b. set (b64_encode L b) \<subseteq> set base64_alphabet"
    and b64_Nil [rule_format]: "\<forall>b. b64_encode L b = [] \<longleftrightarrow> b = []"
    and ed_round_trip [rule_format]: "\<forall>v. ed_from_bytes L (ed_to_bytes L v) = Some v"
    and ed_key_length [rule_format]: "\<forall>v. length (ed_to_bytes L v) = 32"
    and ed_signature_length [rule_format]: "\<forall>s m. length (ed_sign L s m) = 64"
    and ed_signature_valid [rule_format]: "\<forall>s m. ed_verify L (ed_public L s) m (ed_sign L s m)"
    and ml_signature_valid [rule_format]: "\<forall>m sk pk sig. MlDsa44Sign L m sk pk = (0, sig) \<longrightarrow>
      length sig = 2420 \<and> MlDsa44Verify L m sig pk = 0"
  using assms unfolding tlog_lib_correct_def by - (elim conjE, assumption)+

lemma b64_no_separator:
  assumes "tlog_lib_correct L"
  shows "NL \<notin> set (b64_encode L b)" "CR \<notin> set (b64_encode L b)" "SP \<notin> set (b64_encode L b)"
  using b64_alphabet [OF assms, of b] by (auto simp: base64_alphabet_def NL_def CR_def SP_def)

lemma plain_b64 [simp]: "tlog_lib_correct L \<Longrightarrow> plain_line (b64_encode L b)"
  using b64_no_separator [of L b] unfolding plain_line_def by (metis last_in_set)

definition note_signature_wf :: "note_signature \<Rightarrow> bool" where
  "note_signature_wf sig \<longleftrightarrow>
     length (sig_key_id_hint sig) = 4 \<and> SP \<notin> set (sig_origin sig) \<and> NL \<notin> set (sig_origin sig)"

lemma signature_line_round_trip:
  assumes "tlog_lib_correct L" "note_signature_wf sig"
  shows "note_signature_parse L (to_signature_line L sig) = Ok sig"
  using assms(2) split_once_append [of SP "sig_origin sig"]
  by (simp add: note_signature_parse_def to_signature_line_def b64_round_trip [OF assms(1)] note_signature_wf_def)

lemma signature_line_plain:
  assumes "tlog_lib_correct L" "note_signature_wf sig"
  shows "plain_line (to_signature_line L sig)" "to_signature_line L sig \<noteq> []"
proof -
  let ?b = "b64_encode L (sig_key_id_hint sig @ sig_bytes sig)"
  have "?b \<noteq> []" using assms(2) unfolding b64_Nil [OF assms(1)] by (auto simp: note_signature_wf_def)
  then have "last (to_signature_line L sig) = last ?b" by (simp add: to_signature_line_def)
  moreover have "last ?b \<noteq> CR" using b64_no_separator(2) [OF assms(1)] \<open>?b \<noteq> []\<close> by (metis last_in_set)
  ultimately show "plain_line (to_signature_line L sig)"
    using assms b64_no_separator [OF assms(1)]
    by (auto simp: plain_line_def to_signature_line_def note_signature_wf_def SIGNATURE_PREFIX_def NL_def SP_def)
  show "to_signature_line L sig \<noteq> []" by (simp add: to_signature_line_def SIGNATURE_PREFIX_def)
qed

lemma note_signature_parse_hint: "note_signature_parse L s = Ok sig \<Longrightarrow> length (sig_key_id_hint sig) = 4"
  by (auto simp: note_signature_parse_def result_simps split: if_splits)


subsection \<open>Checkpoints are read back\<close>

text \<open>The three lines that every checkpoint begins with.\<close>

definition payload_head :: "string \<Rightarrow> string \<Rightarrow> string \<Rightarrow> string" where
  "payload_head origin size_str root_str = origin @ [NL] @ size_str @ [NL] @ root_str @ [NL]"

definition payload_states :: "('v, 's, 'z) tlog_lib_scheme \<Rightarrow> string \<Rightarrow> checkpoint \<Rightarrow> bool" where
  "payload_states L payload c \<longleftrightarrow>
     (\<exists>size_str root_str ext. payload = payload_head (cp_origin c) size_str root_str @ ext \<and>
        parse_uint 64 size_str = Some (unat (cp_tree_size c)) \<and> b64_decode L root_str = Some (cp_root_hash c))"

lemma read_body_extends: "read_body payload ls = (p, r) \<Longrightarrow> \<exists>ext. p = payload @ ext"
  by (induction payload ls rule: read_body.induct) (force split: if_splits)+

lemma read_body_plain:
  "[] \<notin> set ls \<Longrightarrow> read_body payload (ls @ [] # r) = (payload @ concat (map (\<lambda>l. l @ [NL]) ls), r)"
  by (induction ls arbitrary: payload) auto

lemma read_body_last:
  "[] \<notin> set ls \<Longrightarrow> read_body payload ls = (payload @ concat (map (\<lambda>l. l @ [NL]) ls), [])"
  by (induction ls arbitrary: payload) auto

text \<open>The text that the signatures of a parsed checkpoint cover states its origin, size and root hash.\<close>

lemma checkpoint_payload_states:
  assumes "checkpoint_parse L s = Ok c"
  shows "payload_states L (cp_signed_payload c) c \<and> length (cp_root_hash c) = 32"
proof -
  obtain origin size_str root_str n root payload ls r sigs where
    n: "parse_uint 64 size_str = Some n" and root: "b64_decode L root_str = Some root" "length root = 32"
    and body: "read_body (payload_head origin size_str root_str) ls = (payload, r)"
    and c: "c = \<lparr>cp_origin = origin, cp_tree_size = of_nat n, cp_root_hash = root, cp_signed_payload = payload,
      cp_signatures = sigs\<rparr>"
    using assms by (auto simp: checkpoint_parse_def result_simps payload_head_def split: if_splits prod.splits)
  have "unat (of_nat n :: u64) = n" using parse_uint_bound [OF n] by (simp add: unat_of_nat)
  with read_body_extends [OF body] n root c show ?thesis unfolding payload_states_def by auto
qed

lemma read_signatures_lines:
  assumes "tlog_lib_correct L" "\<forall>sig \<in> set sigs. note_signature_wf sig"
  shows "read_signatures L acc (map (to_signature_line L) sigs) = Ok (acc @ sigs)"
  using assms(2) by (induction sigs arbitrary: acc)
    (auto simp: signature_line_round_trip [OF assms(1)] signature_line_plain [OF assms(1)])

text \<open>A checkpoint whose payload is made of its fields and of extension lines, one per line.\<close>

definition checkpoint_wf :: "('v, 's, 'z) tlog_lib_scheme \<Rightarrow> checkpoint \<Rightarrow> bool" where
  "checkpoint_wf L c \<longleftrightarrow>
     (\<exists>ext. cp_signed_payload c =
          payload_head (cp_origin c) (show_nat (unat (cp_tree_size c))) (b64_encode L (cp_root_hash c)) @
          concat (map (\<lambda>l. l @ [NL]) ext) \<and>
        (\<forall>l \<in> set ext. plain_line l \<and> l \<noteq> [])) \<and>
     plain_line (cp_origin c) \<and> length (cp_root_hash c) = 32 \<and> (\<forall>sig \<in> set (cp_signatures c). note_signature_wf sig)"

text \<open>Its lines, which are those of the serialized text.\<close>

definition checkpoint_lines :: "('v, 's, 'z) tlog_lib_scheme \<Rightarrow> string list \<Rightarrow> checkpoint \<Rightarrow> string list" where
  "checkpoint_lines L ext c =
     [cp_origin c, show_nat (unat (cp_tree_size c)), b64_encode L (cp_root_hash c)] @ ext @ [[]] @
     map (to_signature_line L) (cp_signatures c)"

lemma checkpoint_parse_lines:
  assumes "tlog_lib_correct L" "checkpoint_wf L c" "\<forall>l \<in> set ext. plain_line l \<and> l \<noteq> []"
    "cp_signed_payload c =
       payload_head (cp_origin c) (show_nat (unat (cp_tree_size c))) (b64_encode L (cp_root_hash c)) @
       concat (map (\<lambda>l. l @ [NL]) ext)"
    "lines s = checkpoint_lines L ext c \<or> (cp_signatures c = [] \<and> lines s @ [[]] = checkpoint_lines L ext c)"
  shows "checkpoint_parse L s = Ok c"
proof -
  have ext: "[] \<notin> set ext" using assms(3) by auto
  have n: "unat (cp_tree_size c) < 2 ^ 64" using unsigned_less [of "cp_tree_size c"] by simp
  have wf: "length (cp_root_hash c) = 32" "\<forall>sig \<in> set (cp_signatures c). note_signature_wf sig"
    using assms(2) by (simp_all add: checkpoint_wf_def)
  obtain ls where ls: "lines s = cp_origin c # show_nat (unat (cp_tree_size c)) # b64_encode L (cp_root_hash c) # ls"
    and ls': "ls = ext @ [] # map (to_signature_line L) (cp_signatures c) \<or> cp_signatures c = [] \<and> ls = ext"
    using assms(5) by (cases "lines s" rule: remdups_adj.cases) (auto simp: checkpoint_lines_def Cons_eq_append_conv)
  have "\<exists>r. read_body (payload_head (cp_origin c) (show_nat (unat (cp_tree_size c))) (b64_encode L (cp_root_hash c))) ls =
      (cp_signed_payload c, r) \<and> read_signatures L [] r = Ok (cp_signatures c)"
    using ls' read_body_plain [OF ext] read_body_last [OF ext] read_signatures_lines [OF assms(1) wf(2), of "[]"]
    by (auto simp: assms(4))
  then show ?thesis
    by (auto simp: checkpoint_parse_def ls parse_show [OF n] b64_round_trip [OF assms(1)] wf payload_head_def)
qed

lemma checkpoint_serialize_lines:
  assumes "tlog_lib_correct L" "checkpoint_wf L c" "\<forall>l \<in> set ext. plain_line l \<and> l \<noteq> []"
    "cp_signed_payload c =
       payload_head (cp_origin c) (show_nat (unat (cp_tree_size c))) (b64_encode L (cp_root_hash c)) @
       concat (map (\<lambda>l. l @ [NL]) ext)"
  shows "checkpoint_serialize L c = concat (map (\<lambda>l. l @ [NL]) (checkpoint_lines L ext c))"
    "\<forall>l \<in> set (checkpoint_lines L ext c). plain_line l"
  using assms signature_line_plain [OF assms(1)]
  by (auto simp: checkpoint_serialize_def checkpoint_lines_def payload_head_def checkpoint_wf_def comp_def plain_line_def [of "[]"])

lemma checkpoint_round_trip:
  assumes "tlog_lib_correct L" "checkpoint_wf L c"
  shows "checkpoint_parse L (checkpoint_serialize L c) = Ok c"
proof -
  obtain ext where ext: "cp_signed_payload c =
       payload_head (cp_origin c) (show_nat (unat (cp_tree_size c))) (b64_encode L (cp_root_hash c)) @
       concat (map (\<lambda>l. l @ [NL]) ext)" "\<forall>l \<in> set ext. plain_line l \<and> l \<noteq> []"
    using assms(2) by (auto simp: checkpoint_wf_def)
  note s = checkpoint_serialize_lines [OF assms ext(2,1)]
  have "lines (checkpoint_serialize L c) = checkpoint_lines L ext c"
    using lines_of_plain [OF s(2), of "[]"] by (simp add: s(1))
  then show ?thesis using checkpoint_parse_lines [OF assms ext(2,1)] by blast
qed


subsection \<open>Keys and signatures\<close>

lemma hex_no_separator:
  assumes "hash_lib_correct H"
  shows "PLUS \<notin> set (hex_encode H b)" "NL \<notin> set (hex_encode H b)" "SP \<notin> set (hex_encode H b)"
  using hex_digits [OF assms, of b] by (auto simp: PLUS_def NL_def SP_def)

text \<open>A key whose name has no plus sign is read back from its text.\<close>

definition note_verifying_key_wf :: "('v, 's, 'z) tlog_lib_scheme \<Rightarrow> 'v note_verifying_key \<Rightarrow> bool" where
  "note_verifying_key_wf L key \<longleftrightarrow>
     PLUS \<notin> set (nvk_origin key) \<and> length (nvk_key_id_hint key) = 4 \<and>
     (case nvk_verifying_key key of
        VkMlDsa44SubtreeV1 vk \<Rightarrow> ml_dsa L \<and> length (ml_raw vk) = PUBLIC_KEY_BYTES | _ \<Rightarrow> True)"

lemma vkey_round_trip:
  assumes "tlog_lib_correct L" "note_verifying_key_wf L key"
  shows "note_verifying_key_parse L (to_vkey_string L key) = Ok key"
proof -
  note facts = hex_round_trip [OF tlog_hash_lib [OF assms(1)]] b64_round_trip [OF assms(1)]
    ed_round_trip [OF assms(1)] ed_key_length [OF assms(1)]
  have "splitn 3 PLUS (nvk_origin key @ PLUS # hex_encode L (nvk_key_id_hint key) @ PLUS # b) =
      [nvk_origin key, hex_encode L (nvk_key_id_hint key), b]" for b
    using assms(2) hex_no_separator [OF tlog_hash_lib [OF assms(1)]]
    by (intro splitn_three) (simp_all add: note_verifying_key_wf_def)
  with assms(2) show ?thesis
    by (cases "nvk_verifying_key key")
      (auto simp: note_verifying_key_parse_def to_vkey_string_def note_verifying_key_wf_def facts
        from_byte_def ed_raw_key_def ml_verifying_key_try_from_def Let_def)
qed

lemma splitn_three_first:
  assumes "\<not> length (splitn 3 c s) < 3"
  shows "c \<notin> set (splitn 3 c s ! 0)"
  using assms by (auto simp: numeral_3_eq_3 split: option.splits dest: split_once_Some)

lemma vkey_parse_wf:
  assumes "note_verifying_key_parse L s = Ok key"
  shows "note_verifying_key_wf L key"
proof -
  have l: "\<not> length (splitn 3 PLUS s) < 3" using assms by (auto simp: note_verifying_key_parse_def Let_def)
  then show ?thesis using assms splitn_three_first [OF l]
    by (auto simp: note_verifying_key_parse_def note_verifying_key_wf_def Let_def result_simps from_byte_def
        ml_verifying_key_try_from_def split: if_splits signature_type.splits)
qed

lemma key_id_of_verifying_key:
  "nsk_verifying_key L (note_signing_key_new L name sk) =
     note_verifying_key_new L name (nvk_verifying_key (nsk_verifying_key L (note_signing_key_new L name sk)))"
  by (cases sk) (simp_all add: nsk_verifying_key_def note_signing_key_new_def note_verifying_key_new_def)

lemma epoch_secs_timestamp:
  assumes "epoch_secs t = Ok secs"
  shows "epoch_secs (signature_timestamp (to_be_bytes secs @ sig)) = Ok secs"
proof -
  have "from_be_bytes (to_be_bytes secs) = secs"
    by (simp add: from_be_bytes_def to_be_bytes_def from_to_le_bytes)
  moreover have "word_of_int (i64 (uint secs)) = secs"
  proof -
    have "word_of_int (signed_take_bit 63 (uint secs)) = (word_of_int (uint secs) :: u64)"
      by (rule word_of_int_eq_iff [THEN iffD2]) (simp add: take_bit_signed_take_bit)
    then show ?thesis by (simp add: i64_def)
  qed
  ultimately show ?thesis by (simp add: epoch_secs_def signature_timestamp_def)
qed

lemma message_timestamp:
  "epoch_secs t = (epoch_secs u :: (u64, note_error) result) \<Longrightarrow>
     signature_message L ty text t name = signature_message L ty text u name"
  by (cases ty) simp_all

text \<open>Whatever a key signs, the verifying key derived from it accepts, at the time that was signed.\<close>

lemma sign_verifies:
  assumes "tlog_lib_correct L" "note_sign L key text t = Ok sig"
  shows "note_verify L (nsk_verifying_key L key) text sig = Ok () \<and> matches_key sig (nsk_verifying_key L key)"
proof -
  obtain m where m: "signature_message L (nsk_signature_type key) text t (nsk_origin key) = Ok m"
    using assms(2) by (auto simp: note_sign_def result_simps)
  show ?thesis
  proof (cases "nsk_signing_key key")
    case (SkEd25519 sk)
    with assms(2) m show ?thesis
      by (auto simp: note_sign_def nsk_signature_type_def nsk_verifying_key_def note_verify_def matches_key_def
          verify_ed25519_def ed_signature_length [OF assms(1)] ed_signature_valid [OF assms(1)])
  next
    case (SkEd25519CosignatureV1 sk)
    obtain secs where s: "epoch_secs t = (Ok secs :: (u64, note_error) result)"
      "sig = \<lparr>sig_origin = nsk_origin key, sig_key_id_hint = nsk_key_id_hint key, sig_bytes = to_be_bytes secs @ ed_sign L sk m\<rparr>"
      using assms(2) m SkEd25519CosignatureV1 by (auto simp: note_sign_def timestamped_to_bytes_def result_simps)
    have "signature_message L Ed25519CosignatureV1 text (signature_timestamp (to_be_bytes secs @ ed_sign L sk m)) (nsk_origin key) = Ok m"
      using m SkEd25519CosignatureV1
      by (intro trans [OF message_timestamp [OF trans [OF epoch_secs_timestamp [OF s(1)] s(1) [symmetric]]]])
        (simp add: nsk_signature_type_def del: signature_message.simps)
    then show ?thesis using SkEd25519CosignatureV1
      by (simp add: s(2) nsk_signature_type_def nsk_verifying_key_def note_verify_def matches_key_def
          verify_ed25519_def ed_signature_length [OF assms(1)] ed_signature_valid [OF assms(1)]
          del: signature_message.simps)
  next
    case (SkMlDsa44SubtreeV1 kp)
    obtain secs b where s: "epoch_secs t = (Ok secs :: (u64, note_error) result)" "ml_sign L kp m = Ok b"
      "sig = \<lparr>sig_origin = nsk_origin key, sig_key_id_hint = nsk_key_id_hint key, sig_bytes = to_be_bytes secs @ b\<rparr>"
      using assms(2) m SkMlDsa44SubtreeV1 by (auto simp: note_sign_def timestamped_to_bytes_def result_simps)
    have b: "length b = SIGNATURE_BYTES" "MlDsa44Verify L m b (ml_raw (ml_public_key kp)) = 0"
      using s(2) ml_signature_valid [OF assms(1)]
      by (auto simp: ml_sign_def SIGNATURE_BYTES_def split: prod.splits if_splits)
    have "signature_message L MlDsa44SubtreeV1 text (signature_timestamp (to_be_bytes secs @ b)) (nsk_origin key) = Ok m"
      using m SkMlDsa44SubtreeV1
      by (intro trans [OF message_timestamp [OF trans [OF epoch_secs_timestamp [OF s(1)] s(1) [symmetric]]]])
        (simp add: nsk_signature_type_def del: signature_message.simps)
    then show ?thesis using SkMlDsa44SubtreeV1 b
      by (simp add: s(3) nsk_signature_type_def nsk_verifying_key_def note_verify_def matches_key_def
          verify_ml_dsa_44_def ml_signature_try_from_def ml_verify_def SIGNATURE_BYTES_def
          del: signature_message.simps)
  qed
qed

text \<open>A cosignature covers the time and the text of the checkpoint.\<close>

lemma cosignature_message_inject:
  assumes "signature_message L Ed25519CosignatureV1 text t name = Ok m"
    "signature_message L Ed25519CosignatureV1 text' t' name' = Ok m"
  shows "text = text' \<and> epoch_secs t = (epoch_secs t' :: (u64, note_error) result)"
proof -
  obtain s s' where s: "epoch_secs t = (Ok s :: (u64, note_error) result)" "epoch_secs t' = (Ok s' :: (u64, note_error) result)"
    "show_nat (unat s) @ NL # text = show_nat (unat s') @ NL # text'"
    using assms by (auto simp: result_simps)
  from append_separator_inject [OF _ _ s(3)] have "text = text'" "unat s = unat s'" by (simp_all add: show_nat_inject)
  with s show ?thesis by (simp add: word_unat_eq_iff)
qed

subsection \<open>An example of the library\<close>

text \<open>Functions with the documented behaviour: plain hexadecimal text for both encodings, and signatures that only depend on the key.\<close>

definition hex_digit :: "nat \<Rightarrow> char" where
  "hex_digit n = ''0123456789abcdef'' ! n"

definition hex_value :: "char \<Rightarrow> nat option" where
  "hex_value c =
     (if c \<in> set ''0123456789abcdef'' then Some (length (takeWhile (\<lambda>d. d \<noteq> c) ''0123456789abcdef'')) else None)"

fun example_hex :: "bytes \<Rightarrow> string" where
  "example_hex [] = []"
| "example_hex (b # bs) = hex_digit (unat b div 16) # hex_digit (unat b mod 16) # example_hex bs"

fun example_unhex :: "string \<Rightarrow> bytes option" where
  "example_unhex [] = Some []"
| "example_unhex [c] = None"
| "example_unhex (c # d # s) =
     (case (hex_value c, hex_value d, example_unhex s) of
        (Some m, Some n, Some bs) \<Rightarrow> Some (of_nat (16 * m + n) # bs) | _ \<Rightarrow> None)"

definition bit_bytes :: "nat \<Rightarrow> bool \<Rightarrow> bytes" where
  "bit_bytes n b = replicate n (if b then 1 else 0)"

definition example_tlog_lib :: "(bool, bool) tlog_lib" where
  "example_tlog_lib =
     \<lparr>hex_encode = example_hex, hex_decode = example_unhex, hex_error = (\<lambda>_. []),
      sha256 = vec_resize 32 0, sha384 = vec_resize 48 0, sha512 = vec_resize 64 0,
      b64_encode = example_hex, b64_decode = example_unhex,
      ed_from_bytes = (\<lambda>b. if b = bit_bytes 32 True then Some True else if b = bit_bytes 32 False then Some False else None),
      ed_to_bytes = bit_bytes 32,
      ed_verify = (\<lambda>v m sig. sig = bit_bytes 64 v),
      ed_public = (\<lambda>s. s),
      ed_sign = (\<lambda>s m. bit_bytes 64 s),
      ml_dsa = True,
      MlDsa44Verify = (\<lambda>m sig pk. if sig = replicate 2420 0 then 0 else 1),
      MlDsa44Sign = (\<lambda>m sk pk. (0, replicate 2420 0)),
      merkle_root = (\<lambda>node hashes indices leaves size. if hashes = [] \<and> size = 1 then Some (hd leaves) else None)\<rparr>"

lemma hex_digit_alphabet: "n < 16 \<Longrightarrow> hex_digit n \<in> set ''0123456789abcdef''"
  unfolding hex_digit_def by (rule nth_mem) simp

lemma takeWhile_distinct: "distinct xs \<Longrightarrow> n < length xs \<Longrightarrow> length (takeWhile (\<lambda>d. d \<noteq> xs ! n) xs) = n"
  by (subst takeWhile_eq_take_P_nth [of n]) (auto simp: nth_eq_iff_index_eq)

lemma hex_digit_value: "n < 16 \<Longrightarrow> hex_value (hex_digit n) = Some n"
proof -
  assume n: "n < 16"
  have "length (takeWhile (\<lambda>d. d \<noteq> ''0123456789abcdef'' ! n) ''0123456789abcdef'') = n"
    by (rule takeWhile_distinct) (use n in simp_all)
  with hex_digit_alphabet [OF n] show ?thesis unfolding hex_value_def hex_digit_def by (simp only: if_True)
qed

lemma example_hex_facts:
  "example_unhex (example_hex b) = Some b" "length (example_hex b) = 2 * length b"
  "set (example_hex b) \<subseteq> set ''0123456789abcdef''" "example_hex b = [] \<longleftrightarrow> b = []"
proof (induction b)
  case (Cons b bs)
  have "unat b div 16 < 16" using unat_byte_less [of b] by linarith
  moreover have "(of_nat (16 * (unat b div 16) + unat b mod 16) :: byte) = b" by (simp only: mult_div_mod_eq) simp
  moreover note Cons hex_digit_value hex_digit_alphabet
  ultimately show "example_unhex (example_hex (b # bs)) = Some (b # bs)" "length (example_hex (b # bs)) = 2 * length (b # bs)"
    "set (example_hex (b # bs)) \<subseteq> set ''0123456789abcdef''" "example_hex (b # bs) = [] \<longleftrightarrow> b # bs = []"
    by simp_all
qed simp_all

lemma bit_bytes_facts [simp]:
  "length (bit_bytes n b) = n" "0 < n \<Longrightarrow> bit_bytes n b = bit_bytes n c \<longleftrightarrow> b = c"
  by (auto simp: bit_bytes_def)

lemma example_tlog_lib_correct: "tlog_lib_correct example_tlog_lib"
proof -
  have "set ''0123456789abcdef'' \<subseteq> set base64_alphabet" by (simp add: base64_alphabet_def)
  then have "set (example_hex b) \<subseteq> set base64_alphabet" for b using example_hex_facts(3) by blast
  then show ?thesis unfolding tlog_lib_correct_def hash_lib_correct_def example_tlog_lib_def
    by (intro conjI allI) (auto simp: example_hex_facts(1,2,4) example_hex_facts(3) simp del: list.set set_simps)
qed

end
