(* ===== verification/TLog_Policy.thy ===== *)
theory TLog_Policy
  imports TLog_Note
begin

section \<open>Transparency log policies\<close>

text \<open>
  \<^verbatim>\<open>tr/c2sp/policy.rs\<close>: a policy names the trusted keys of logs, the keys of witnesses, and a
  quorum of witnesses built from threshold groups. The recursive evaluation of a quorum has
  fuel; running out of it is \<open>None\<close>, a failing \<open>expect\<close> is \<open>Some Panic\<close>. The lemmas show
  that what the parser accepts is well formed, so that the evaluation always ends and decides
  the quorum that the groups describe.
\<close>

datatype policy_error = ParseError nat string

datatype 'v quorum = Witness "'v note_verifying_key" | Group nat "string list"

record 'v policy =
  log_keys :: "'v note_verifying_key list"
  quorums :: "'v quorum btree_map"
  root_quorum :: "string option"

text \<open>The local variables of \<open>Policy::parse\<close>.\<close>

record 'v policy_state =
  ps_log_keys :: "'v note_verifying_key list"
  ps_quorums :: "'v quorum btree_map"
  ps_quorum_set :: bool
  ps_root_quorum :: "string option"

definition QUOTE :: string where "QUOTE = [CHR 0x60]"

definition parse_threshold :: "string \<Rightarrow> nat \<Rightarrow> (nat, string) result" where
  "parse_threshold s n =
     (if s = ''any'' then Ok 1
      else if s = ''all'' then Ok n
      else
        bind_result (ok_or (''invalid threshold '' @ QUOTE @ s @ QUOTE) (parse_uint 64 s)) (\<lambda>k.
        if 1 \<le> k \<and> k \<le> n then Ok k
        else Err (''threshold '' @ show_nat k @ '' out of range for group of size '' @ show_nat n @
          '', must satisfy 1 <= k <= '' @ show_nat n)))"

fun is_log_key :: "'v verifying_key \<Rightarrow> bool" where
  "is_log_key (VkEd25519 _) = True"
| "is_log_key (VkEd25519CosignatureV1 _) = False"
| "is_log_key (VkMlDsa44SubtreeV1 _) = True"

fun is_witness_key :: "'v verifying_key \<Rightarrow> bool" where
  "is_witness_key (VkEd25519 _) = False"
| "is_witness_key (VkEd25519CosignatureV1 _) = True"
| "is_witness_key (VkMlDsa44SubtreeV1 _) = True"

text \<open>The keys of the witnesses in a map of quorums.\<close>

fun quorum_witness :: "'v quorum \<Rightarrow> 'v note_verifying_key option" where
  "quorum_witness (Witness vkey) = Some vkey"
| "quorum_witness (Group k members) = None"

definition witnesses :: "'v quorum btree_map \<Rightarrow> 'v note_verifying_key list" where
  "witnesses qs = List.map_filter quorum_witness (map snd (entries qs))"


subsection \<open>The rules of a policy\<close>

definition parse_log_rule ::
  "('v, 's, 'z) tlog_lib_scheme \<Rightarrow> nat \<Rightarrow> string list \<Rightarrow> 'v policy_state \<Rightarrow> ('v policy_state, policy_error) result" where
  "parse_log_rule L line tokens st =
     (let nargs = length tokens - 1 in
      if \<not> (1 \<le> nargs \<and> nargs \<le> 2)
      then Err (ParseError line (''invalid log rule: expected 1 or 2 arguments, got '' @ show_nat nargs))
      else
        bind_result (map_err (\<lambda>_. ParseError line ''log key must be a C2SP verifying key string'')
          (note_verifying_key_parse L (tokens ! 1))) (\<lambda>vkey.
        if \<not> is_log_key (nvk_verifying_key vkey)
        then Err (ParseError line ''log key must have Ed25519 (0x01) or ML-DSA-44 (0x06) type'')
        else if \<exists>existing \<in> set (ps_log_keys st). nvk_verifying_key existing = nvk_verifying_key vkey
        then Err (ParseError line ''duplicate log key'')
        else Ok (st\<lparr>ps_log_keys := ps_log_keys st @ [vkey]\<rparr>)))"

definition parse_witness_rule ::
  "('v, 's, 'z) tlog_lib_scheme \<Rightarrow> nat \<Rightarrow> string list \<Rightarrow> 'v policy_state \<Rightarrow> ('v policy_state, policy_error) result" where
  "parse_witness_rule L line tokens st =
     (let nargs = length tokens - 1 in
      if \<not> (2 \<le> nargs \<and> nargs \<le> 3)
      then Err (ParseError line (''invalid witness rule: expected 2 or 3 arguments, got '' @ show_nat nargs))
      else
        let name = tokens ! 1 in
        if name = ''none'' then Err (ParseError line (QUOTE @ ''none'' @ QUOTE @ '' is a reserved name''))
        else
          bind_result (map_err (\<lambda>_. ParseError line ''witness key must be a C2SP verifying key string'')
            (note_verifying_key_parse L (tokens ! 2))) (\<lambda>vkey.
          if \<not> is_witness_key (nvk_verifying_key vkey)
          then Err (ParseError line ''witness key must have a cosignature type (0x04 or 0x06)'')
          else if btm_get (ps_quorums st) name \<noteq> None
          then Err (ParseError line (''duplicate name '' @ QUOTE @ name @ QUOTE))
          else if \<exists>existing \<in> set (witnesses (ps_quorums st)). nvk_verifying_key existing = nvk_verifying_key vkey
          then Err (ParseError line ''duplicate witness key'')
          else Ok (st\<lparr>ps_quorums := btm_insert name (Witness vkey) (ps_quorums st)\<rparr>)))"

text \<open>The loop over the members of a group, with the set of those seen so far.\<close>

fun check_members :: "'v quorum btree_map \<Rightarrow> nat \<Rightarrow> string set \<Rightarrow> string list \<Rightarrow> (unit, policy_error) result" where
  "check_members qs line seen [] = Ok ()"
| "check_members qs line seen (member # members) =
     (if member \<in> seen then Err (ParseError line (''duplicate group member '' @ QUOTE @ member @ QUOTE))
      else if btm_get qs member = None
      then Err (ParseError line (''unknown group member '' @ QUOTE @ member @ QUOTE))
      else check_members qs line (insert member seen) members)"

definition parse_group_rule ::
  "nat \<Rightarrow> string list \<Rightarrow> 'v policy_state \<Rightarrow> ('v policy_state, policy_error) result" where
  "parse_group_rule line tokens st =
     (let nargs = length tokens - 1 in
      if nargs < 3
      then Err (ParseError line (''invalid group rule: expected at least 3 arguments, got '' @ show_nat nargs))
      else
        let name = tokens ! 1 in
        if name = ''none'' then Err (ParseError line (QUOTE @ ''none'' @ QUOTE @ '' is a reserved name''))
        else
          let members = drop 3 tokens in
          bind_result (map_err (ParseError line) (parse_threshold (tokens ! 2) (length members))) (\<lambda>k.
          if btm_get (ps_quorums st) name \<noteq> None
          then Err (ParseError line (''duplicate name '' @ QUOTE @ name @ QUOTE))
          else
            bind_result (check_members (ps_quorums st) line {} members) (\<lambda>_.
            Ok (st\<lparr>ps_quorums := btm_insert name (Group k members) (ps_quorums st)\<rparr>))))"

definition parse_quorum_rule ::
  "nat \<Rightarrow> string list \<Rightarrow> 'v policy_state \<Rightarrow> ('v policy_state, policy_error) result" where
  "parse_quorum_rule line tokens st =
     (if length tokens \<noteq> 2
      then Err (ParseError line ''invalid quorum rule: expected exactly one argument'')
      else if ps_quorum_set st then Err (ParseError line ''quorum already set'')
      else
        let name = tokens ! 1; st = st\<lparr>ps_quorum_set := True\<rparr> in
        if name \<noteq> ''none'' then
          (if btm_get (ps_quorums st) name = None
           then Err (ParseError line (''unknown quorum name '' @ QUOTE @ name @ QUOTE))
           else Ok (st\<lparr>ps_root_quorum := Some name\<rparr>))
        else Ok st)"

text \<open>The body of the loop over the lines, which are counted from zero.\<close>

definition parse_line ::
  "('v, 's, 'z) tlog_lib_scheme \<Rightarrow> nat \<Rightarrow> string \<Rightarrow> 'v policy_state \<Rightarrow> ('v policy_state, policy_error) result" where
  "parse_line L lineno line st =
     (let line = trim line in
      if line = [] \<or> starts_with ''#'' line then Ok st
      else
        let tokens = split_ascii_whitespace line in
        case tokens of
          [] \<Rightarrow> Panic
        | keyword # _ \<Rightarrow>
            if keyword = ''log'' then parse_log_rule L (lineno + 1) tokens st
            else if keyword = ''witness'' then parse_witness_rule L (lineno + 1) tokens st
            else if keyword = ''group'' then parse_group_rule (lineno + 1) tokens st
            else if keyword = ''quorum'' then parse_quorum_rule (lineno + 1) tokens st
            else Err (ParseError (lineno + 1) (''unknown keyword '' @ QUOTE @ keyword @ QUOTE)))"

fun parse_lines ::
  "('v, 's, 'z) tlog_lib_scheme \<Rightarrow> nat \<Rightarrow> string list \<Rightarrow> 'v policy_state \<Rightarrow> ('v policy_state, policy_error) result" where
  "parse_lines L lineno [] st = Ok st"
| "parse_lines L lineno (line # ls) st =
     bind_result (parse_line L lineno line st) (\<lambda>st. parse_lines L (lineno + 1) ls st)"

definition initial_state :: "'v policy_state" where
  "initial_state = \<lparr>ps_log_keys = [], ps_quorums = btm_empty, ps_quorum_set = False, ps_root_quorum = None\<rparr>"

definition policy_parse :: "('v, 's, 'z) tlog_lib_scheme \<Rightarrow> string \<Rightarrow> ('v policy, policy_error) result" where
  "policy_parse L data =
     bind_result (parse_lines L 0 (lines data) initial_state) (\<lambda>st.
     if \<not> ps_quorum_set st then Err (ParseError (length (lines data)) ''no quorum line found'')
     else Ok \<lparr>log_keys = ps_log_keys st, quorums = ps_quorums st, root_quorum = ps_root_quorum st\<rparr>)"

text \<open>\<open>C2sptLogProofReferenceValue\<close>, a message with the text of a policy.\<close>

record c2sp_reference_value =
  rv_policy :: string

definition policy_try_from :: "('v, 's, 'z) tlog_lib_scheme \<Rightarrow> c2sp_reference_value \<Rightarrow> ('v policy, policy_error) result" where
  "policy_try_from L ref_value = policy_parse L (rv_policy ref_value)"

definition witness_keys :: "'v policy \<Rightarrow> 'v note_verifying_key list" where
  "witness_keys policy = witnesses (quorums policy)"


subsection \<open>Evaluation of the quorum\<close>

function satisfies :: "nat \<Rightarrow> 'v policy \<Rightarrow> 'v note_verifying_key list \<Rightarrow> 'v quorum \<Rightarrow> (bool, unit) result option"
  and count_satisfied :: "nat \<Rightarrow> 'v policy \<Rightarrow> 'v note_verifying_key list \<Rightarrow> string list \<Rightarrow> (nat, unit) result option" where
  "satisfies 0 policy verified_keys quorum = None"
| "satisfies (Suc n) policy verified_keys (Witness witness_key) = Some (Ok (witness_key \<in> set verified_keys))"
| "satisfies (Suc n) policy verified_keys (Group k members) =
     bind_out (count_satisfied n policy verified_keys members) (\<lambda>count. Some (Ok (k \<le> count)))"
| "count_satisfied n policy verified_keys [] = Some (Ok 0)"
| "count_satisfied n policy verified_keys (m # ms) =
     (case btm_get (quorums policy) m of
        None \<Rightarrow> Some Panic
      | Some member \<Rightarrow>
          bind_out (satisfies n policy verified_keys member) (\<lambda>b.
          bind_out (count_satisfied n policy verified_keys ms) (\<lambda>count.
          Some (Ok ((if b then 1 else 0) + count)))))"
  by pat_completeness auto
termination
  by (relation "measures [\<lambda>x. case x of Inl (n, _) \<Rightarrow> 2 * n | Inr (n, _) \<Rightarrow> 2 * n + 1,
    \<lambda>x. case x of Inl _ \<Rightarrow> 0 | Inr (_, _, _, ms) \<Rightarrow> length ms]") auto

definition check_quorum :: "nat \<Rightarrow> 'v policy \<Rightarrow> 'v note_verifying_key list \<Rightarrow> (bool, unit) result option" where
  "check_quorum n policy verified_keys =
     (case root_quorum policy of
        None \<Rightarrow> Some (Ok True)
      | Some name \<Rightarrow>
          (case btm_get (quorums policy) name of
             None \<Rightarrow> Some Panic
           | Some root \<Rightarrow> satisfies n policy verified_keys root))"


subsection \<open>Parsed policies are well formed\<close>

text \<open>
  The map of quorums: a rank, the position of the definition in the text, decreases from a group
  to its members, so that groups cannot contain each other; thresholds can be met; and every
  witness has a key of its own.
\<close>

definition quorums_wf :: "('v, 's, 'z) tlog_lib_scheme \<Rightarrow> 'v quorum btree_map \<Rightarrow> (string \<Rightarrow> nat) \<Rightarrow> bool" where
  "quorums_wf L qs rank \<longleftrightarrow>
     (\<forall>name q. btm_get qs name = Some q \<longrightarrow> name \<noteq> ''none'' \<and> rank name < length (entries qs)) \<and>
     (\<forall>name vkey. btm_get qs name = Some (Witness vkey) \<longrightarrow>
        is_witness_key (nvk_verifying_key vkey) \<and> note_verifying_key_wf L vkey) \<and>
     (\<forall>name k members. btm_get qs name = Some (Group k members) \<longrightarrow>
        1 \<le> k \<and> k \<le> length members \<and> distinct members \<and>
        (\<forall>m \<in> set members. btm_get qs m \<noteq> None \<and> rank m < rank name)) \<and>
     (\<forall>name name' vkey vkey'. btm_get qs name = Some (Witness vkey) \<and> btm_get qs name' = Some (Witness vkey') \<and>
        nvk_verifying_key vkey = nvk_verifying_key vkey' \<longrightarrow> name = name')"

definition log_keys_wf :: "('v, 's, 'z) tlog_lib_scheme \<Rightarrow> 'v note_verifying_key list \<Rightarrow> bool" where
  "log_keys_wf L keys \<longleftrightarrow>
     distinct (map nvk_verifying_key keys) \<and>
     (\<forall>key \<in> set keys. is_log_key (nvk_verifying_key key) \<and> note_verifying_key_wf L key)"

definition policy_wf :: "('v, 's, 'z) tlog_lib_scheme \<Rightarrow> 'v policy \<Rightarrow> bool" where
  "policy_wf L p \<longleftrightarrow>
     log_keys_wf L (log_keys p) \<and> (\<exists>rank. quorums_wf L (quorums p) rank) \<and>
     (\<forall>name. root_quorum p = Some name \<longrightarrow> btm_get (quorums p) name \<noteq> None)"

definition state_wf :: "('v, 's, 'z) tlog_lib_scheme \<Rightarrow> 'v policy_state \<Rightarrow> bool" where
  "state_wf L st \<longleftrightarrow>
     log_keys_wf L (ps_log_keys st) \<and> (\<exists>rank. quorums_wf L (ps_quorums st) rank) \<and>
     (\<forall>name. ps_root_quorum st = Some name \<longrightarrow> btm_get (ps_quorums st) name \<noteq> None)"

lemma length_entries: "length (entries m) = card {k. btm_get m k \<noteq> None}"
proof -
  have "{k. btm_get m k \<noteq> None} = set (map fst (entries m))"
    by (auto simp: btm.get_iter map_of_eq_None_iff)
  then show ?thesis using distinct_card [OF btm.iter_distinct [of m]] by simp
qed

lemma length_entries_insert:
  assumes "btm_get m k = None"
  shows "length (entries (btm_insert k v m)) = Suc (length (entries m))"
proof -
  have "{x. btm_get (btm_insert k v m) x \<noteq> None} = insert k {x. btm_get m x \<noteq> None}"
    by (auto simp: btm.get_insert)
  moreover have "finite {x. btm_get m x \<noteq> None}"
    using finite_set [of "map fst (entries m)"] by (rule rev_finite_subset) (auto simp: btm.get_iter map_of_eq_None_iff)
  ultimately show ?thesis using assms by (simp add: length_entries)
qed

lemma witnesses_iff: "vkey \<in> set (witnesses qs) \<longleftrightarrow> (\<exists>name. btm_get qs name = Some (Witness vkey))"
proof -
  have "vkey \<in> set (witnesses qs) \<longleftrightarrow> (\<exists>name. (name, Witness vkey) \<in> set (entries qs))"
    by (force simp: witnesses_def List.map_filter_def elim: quorum_witness.elims)
  then show ?thesis by (simp add: btm.get_iter_Some_iff)
qed

lemma quorums_wf_insert_witness:
  assumes "quorums_wf L qs rank" "btm_get qs name = None" "name \<noteq> ''none''" "is_witness_key (nvk_verifying_key vkey)"
    "note_verifying_key_wf L vkey" "\<forall>existing \<in> set (witnesses qs). nvk_verifying_key existing \<noteq> nvk_verifying_key vkey"
  shows "quorums_wf L (btm_insert name (Witness vkey) qs) (rank(name := length (entries qs)))"
  using assms unfolding quorums_wf_def length_entries_insert [OF assms(2)] btm.get_insert witnesses_iff Ball_def
  by (auto simp: less_Suc_eq) (metis less_not_refl option.distinct(1))+

lemma quorums_wf_insert_group:
  assumes "quorums_wf L qs rank" "btm_get qs name = None" "name \<noteq> ''none''" "1 \<le> k" "k \<le> length members"
    "distinct members" "\<forall>m \<in> set members. btm_get qs m \<noteq> None"
  shows "quorums_wf L (btm_insert name (Group k members) qs) (rank(name := length (entries qs)))"
  using assms unfolding quorums_wf_def length_entries_insert [OF assms(2)] btm.get_insert
  by (auto simp: less_Suc_eq) (metis option.exhaust option.distinct(1))+

lemma check_members_Ok:
  "check_members qs line seen ms = Ok () \<longleftrightarrow>
     distinct ms \<and> set ms \<inter> seen = {} \<and> (\<forall>m \<in> set ms. btm_get qs m \<noteq> None)"
  by (induction qs line seen ms rule: check_members.induct) auto

lemma parse_threshold_Ok: "parse_threshold s n = Ok k \<Longrightarrow> 1 \<le> n \<Longrightarrow> 1 \<le> k \<and> k \<le> n"
  by (auto simp: parse_threshold_def result_simps split: if_splits)

lemma parse_log_rule_wf:
  assumes "state_wf L st" "parse_log_rule L line tokens st = Ok st'"
  shows "state_wf L st'"
proof -
  obtain vkey where "note_verifying_key_wf L vkey" "is_log_key (nvk_verifying_key vkey)"
    "\<forall>existing \<in> set (ps_log_keys st). nvk_verifying_key existing \<noteq> nvk_verifying_key vkey"
    "st' = st\<lparr>ps_log_keys := ps_log_keys st @ [vkey]\<rparr>"
    using assms(2) by (auto simp: parse_log_rule_def Let_def result_simps dest: vkey_parse_wf split: if_splits)
  then show ?thesis using assms(1) by (force simp: state_wf_def log_keys_wf_def)
qed

lemma parse_witness_rule_wf:
  assumes "state_wf L st" "parse_witness_rule L line tokens st = Ok st'"
  shows "state_wf L st'"
proof -
  obtain vkey where v: "note_verifying_key_wf L vkey" "is_witness_key (nvk_verifying_key vkey)"
    "tokens ! 1 \<noteq> ''none''" "btm_get (ps_quorums st) (tokens ! 1) = None"
    "\<forall>existing \<in> set (witnesses (ps_quorums st)). nvk_verifying_key existing \<noteq> nvk_verifying_key vkey"
    "st' = st\<lparr>ps_quorums := btm_insert (tokens ! 1) (Witness vkey) (ps_quorums st)\<rparr>"
    using assms(2) by (auto simp: parse_witness_rule_def Let_def result_simps dest: vkey_parse_wf split: if_splits)
  obtain rank where "quorums_wf L (ps_quorums st) rank" using assms(1) by (auto simp: state_wf_def)
  from quorums_wf_insert_witness [OF this v(4,3,2,1,5)] assms(1) show ?thesis
    unfolding state_wf_def v(6) by (auto simp: btm.get_insert)
qed

lemma parse_group_rule_wf:
  assumes "state_wf L st" "parse_group_rule line tokens st = Ok st'"
  shows "state_wf L st'"
proof -
  let ?ms = "drop 3 tokens"
  obtain k where k: "3 \<le> length tokens - 1" "parse_threshold (tokens ! 2) (length ?ms) = Ok k"
    "tokens ! 1 \<noteq> ''none''" "btm_get (ps_quorums st) (tokens ! 1) = None"
    "distinct ?ms" "\<forall>m \<in> set ?ms. btm_get (ps_quorums st) m \<noteq> None"
    "st' = st\<lparr>ps_quorums := btm_insert (tokens ! 1) (Group k ?ms) (ps_quorums st)\<rparr>"
    using assms(2) by (auto simp: parse_group_rule_def Let_def result_simps check_members_Ok split: if_splits)
  obtain rank where r: "quorums_wf L (ps_quorums st) rank" using assms(1) by (auto simp: state_wf_def)
  have "1 \<le> k" "k \<le> length ?ms" using parse_threshold_Ok [OF k(2)] k(1) by simp_all
  from quorums_wf_insert_group [OF r k(4,3) this k(5,6)] assms(1) show ?thesis
    unfolding state_wf_def k(7) by (auto simp: btm.get_insert)
qed

lemma parse_quorum_rule_wf:
  assumes "state_wf L st" "parse_quorum_rule line tokens st = Ok st'"
  shows "state_wf L st'"
  using assms by (auto simp: parse_quorum_rule_def Let_def state_wf_def split: if_splits)

lemmas parse_rules_wf = parse_log_rule_wf parse_witness_rule_wf parse_group_rule_wf parse_quorum_rule_wf

lemma parse_line_wf: "state_wf L st \<Longrightarrow> parse_line L lineno line st = Ok st' \<Longrightarrow> state_wf L st'"
  unfolding parse_line_def Let_def
  by (elim if_Ok_elim) (auto split: list.splits elim!: if_Ok_elim dest: parse_rules_wf)

lemma parse_lines_wf: "state_wf L st \<Longrightarrow> parse_lines L lineno ls st = Ok st' \<Longrightarrow> state_wf L st'"
  by (induction ls arbitrary: lineno st) (auto simp: result_simps dest: parse_line_wf)

lemma note_verifying_key_parse_no_panic: "note_verifying_key_parse L s \<noteq> Panic"
  by (auto simp: note_verifying_key_parse_def Let_def result_simps from_byte_def ed_raw_key_def
      ml_verifying_key_try_from_def split: if_splits signature_type.splits)

lemma check_members_no_panic: "check_members qs line seen ms \<noteq> Panic"
  by (induction qs line seen ms rule: check_members.induct) auto

lemma if_no_panic: "x \<noteq> Panic \<Longrightarrow> y \<noteq> Panic \<Longrightarrow> (if c then x else y) \<noteq> Panic"
  by simp

lemma parse_rules_no_panic:
  "parse_log_rule L line tokens st \<noteq> Panic" "parse_witness_rule L line tokens st \<noteq> Panic"
  "parse_group_rule line tokens st \<noteq> Panic" "parse_quorum_rule line tokens st \<noteq> Panic"
  unfolding parse_log_rule_def parse_witness_rule_def parse_group_rule_def parse_quorum_rule_def parse_threshold_def Let_def
  by (intro if_no_panic; simp add: result_simps note_verifying_key_parse_no_panic check_members_no_panic)+

lemma parse_line_no_panic: "parse_line L lineno line st \<noteq> Panic"
proof (cases "trim line = []")
  case False
  then obtain t ts where "split_ascii_whitespace (trim line) = t # ts"
    using words_of_trimmed [of line] by (cases "split_ascii_whitespace (trim line)") auto
  then show ?thesis
    unfolding parse_line_def Let_def by (simp only: list.case) (intro if_no_panic parse_rules_no_panic; simp)
qed (simp add: parse_line_def)

lemma parse_lines_no_panic: "parse_lines L lineno ls st \<noteq> Panic"
  by (induction ls arbitrary: lineno st) (auto simp: result_simps parse_line_no_panic)

lemma initial_state_wf: "state_wf L initial_state"
  by (auto simp: state_wf_def initial_state_def log_keys_wf_def quorums_wf_def btm.get_empty)

lemma policy_parse_no_panic: "policy_parse L data \<noteq> Panic"
  by (auto simp: policy_parse_def result_simps parse_lines_no_panic split: if_splits)

lemma policy_parse_wf:
  assumes "policy_parse L data = Ok p"
  shows "policy_wf L p"
proof -
  obtain st where "parse_lines L 0 (lines data) initial_state = Ok st"
    "p = \<lparr>log_keys = ps_log_keys st, quorums = ps_quorums st, root_quorum = ps_root_quorum st\<rparr>"
    using assms by (auto simp: policy_parse_def result_simps split: if_splits)
  with parse_lines_wf [OF initial_state_wf] show ?thesis by (simp add: state_wf_def policy_wf_def)
qed


subsection \<open>The quorum that is decided\<close>

text \<open>A named quorum is met by a set of keys.\<close>

inductive met :: "'v quorum btree_map \<Rightarrow> 'v note_verifying_key set \<Rightarrow> string \<Rightarrow> bool" for qs K where
  witness: "btm_get qs name = Some (Witness key) \<Longrightarrow> key \<in> K \<Longrightarrow> met qs K name"
| group: "btm_get qs name = Some (Group k members) \<Longrightarrow> S \<subseteq> set members \<Longrightarrow> k \<le> card S \<Longrightarrow>
    (\<And>m. m \<in> S \<Longrightarrow> met qs K m) \<Longrightarrow> met qs K name"

inductive_cases met_cases: "met qs K name"

definition quorum_met :: "'v policy \<Rightarrow> 'v note_verifying_key set \<Rightarrow> bool" where
  "quorum_met p K \<longleftrightarrow> (\<forall>name. root_quorum p = Some name \<longrightarrow> met (quorums p) K name)"

lemma met_mono: "met qs K name \<Longrightarrow> K \<subseteq> K' \<Longrightarrow> met qs K' name"
proof (induction rule: met.induct)
  case (witness name key)
  then show ?case by (intro met.witness) blast+
next
  case (group name k members S)
  then show ?case by (intro met.group [OF group(1-3)]) blast
qed

lemma met_witness:
  assumes "btm_get qs name = Some (Witness key)"
  shows "met qs K name \<longleftrightarrow> key \<in> K"
proof
  assume "met qs K name"
  then show "key \<in> K" by (rule met_cases) (simp_all add: assms)
qed (rule met.witness [OF assms])

lemma met_group:
  assumes "btm_get qs name = Some (Group k members)" "distinct members"
  shows "met qs K name \<longleftrightarrow> k \<le> length (filter (met qs K) members)"
proof -
  let ?S = "set (filter (met qs K) members)"
  have c: "card ?S = length (filter (met qs K) members)" by (intro distinct_card distinct_filter assms(2))
  show ?thesis
  proof
    assume "met qs K name"
    then obtain S where S: "S \<subseteq> set members" "k \<le> card S" "\<forall>m \<in> S. met qs K m"
      by (rule met_cases) (simp_all add: assms(1))
    then have "card S \<le> card ?S" by (intro card_mono) auto
    with S(2) c show "k \<le> length (filter (met qs K) members)" by linarith
  next
    assume "k \<le> length (filter (met qs K) members)"
    then show "met qs K name" by (intro met.group [OF assms(1), of ?S]) (simp_all add: c [symmetric])
  qed
qed

lemma count_satisfied_eq:
  assumes "\<forall>m \<in> set ms. \<exists>q. btm_get (quorums p) m = Some q \<and> satisfies n p ks q = Some (Ok (f m))"
  shows "count_satisfied n p ks ms = Some (Ok (length (filter f ms)))"
  using assms by (induction ms) auto

lemma satisfies_eq:
  assumes "quorums_wf L (quorums p) rank" "btm_get (quorums p) name = Some q" "rank name < n"
  shows "satisfies n p ks q = Some (Ok (met (quorums p) (set ks) name))"
  using assms(2,3)
proof (induction "rank name" arbitrary: name q n rule: less_induct)
  case less
  obtain n' where n: "n = Suc n'" using less.prems(2) by (cases n) auto
  show ?case
  proof (cases q)
    case (Witness key)
    then show ?thesis using less.prems(1) by (simp add: n met_witness)
  next
    case (Group k members)
    then have members: "distinct members" "\<forall>m \<in> set members. btm_get (quorums p) m \<noteq> None \<and> rank m < rank name"
      using assms(1) less.prems(1) by (auto simp: quorums_wf_def)
    have "\<exists>q. btm_get (quorums p) m = Some q \<and> satisfies n' p ks q = Some (Ok (met (quorums p) (set ks) m))"
      if "m \<in> set members" for m
    proof -
      from that members(2) obtain q' where "btm_get (quorums p) m = Some q'" "rank m < rank name" by fastforce
      moreover have "rank m < n'" using \<open>rank m < rank name\<close> less.prems(2) n by linarith
      ultimately show ?thesis using less.hyps [of m q' n'] by blast
    qed
    then have "count_satisfied n' p ks members = Some (Ok (length (filter (met (quorums p) (set ks)) members)))"
      by (intro count_satisfied_eq) blast
    then show ?thesis using Group less.prems(1) members(1) by (simp add: n met_group)
  qed
qed

text \<open>More fuel does not change an answer.\<close>

lemma satisfies_fuel:
  "satisfies n p ks q = Some r \<Longrightarrow> n \<le> n' \<Longrightarrow> satisfies n' p ks q = Some r"
  "count_satisfied n p ks ms = Some c \<Longrightarrow> n \<le> n' \<Longrightarrow> count_satisfied n' p ks ms = Some c"
proof (induction n p ks q and n p ks ms arbitrary: r n' and c n' rule: satisfies_count_satisfied.induct)
  case (2 n p ks key)
  then show ?case by (cases n') simp_all
next
  case (3 n p ks k members)
  obtain n'' where n: "n' = Suc n''" "n \<le> n''" using 3(3) by (cases n') simp_all
  obtain c where c: "count_satisfied n p ks members = Some c"
    using 3(2) by (cases "count_satisfied n p ks members") simp_all
  have "count_satisfied n'' p ks members = Some c" by (rule 3(1) [OF c n(2)])
  then show ?case using 3(2) c unfolding n(1) by simp
next
  case (5 n p ks m ms)
  show ?case
  proof (cases "btm_get (quorums p) m")
    case None
    then show ?thesis using 5(3) by simp
  next
    case (Some q)
    obtain r where r: "satisfies n p ks q = Some r" using 5(3) Some by (cases "satisfies n p ks q") simp_all
    have r': "satisfies n' p ks q = Some r" by (rule 5(1) [OF Some r 5(4)])
    show ?thesis
    proof (cases r)
      case (Ok b)
      obtain d where d: "count_satisfied n p ks ms = Some d"
        using 5(3) Some r Ok by (cases "count_satisfied n p ks ms") simp_all
      have "count_satisfied n' p ks ms = Some d" by (rule 5(2) [OF Some d 5(4)])
      then show ?thesis using 5(3) Some r r' Ok d by simp
    next
      case (Err e)
      then show ?thesis using 5(3) Some r r' by simp
    next
      case Panic
      then show ?thesis using 5(3) Some r r' by simp
    qed
  qed
qed simp_all

lemma check_quorum_fuel: "check_quorum n p ks = Some r \<Longrightarrow> n \<le> n' \<Longrightarrow> check_quorum n' p ks = Some r"
  unfolding check_quorum_def by (auto split: option.splits intro: satisfies_fuel)

lemma check_quorum_eq:
  assumes "policy_wf L p" "length (entries (quorums p)) < n"
  shows "check_quorum n p ks = Some (Ok (quorum_met p (set ks)))"
proof -
  obtain rank where r: "quorums_wf L (quorums p) rank" using assms(1) by (auto simp: policy_wf_def)
  show ?thesis
  proof (cases "root_quorum p")
    case None
    then show ?thesis by (simp add: check_quorum_def quorum_met_def)
  next
    case (Some name)
    then obtain q where q: "btm_get (quorums p) name = Some q" using assms(1) by (auto simp: policy_wf_def)
    have "rank name < length (entries (quorums p))" using r q unfolding quorums_wf_def by blast
    then have "rank name < n" using assms(2) by linarith
    with Some q satisfies_eq [OF r q] show ?thesis by (simp add: check_quorum_def quorum_met_def)
  qed
qed

lemma check_quorum_sound:
  assumes "policy_wf L p" "check_quorum n p ks = Some r"
  shows "r = Ok (quorum_met p (set ks))"
proof -
  let ?n = "max n (Suc (length (entries (quorums p))))"
  have "check_quorum ?n p ks = Some r" by (rule check_quorum_fuel [OF assms(2)]) simp
  moreover have "check_quorum ?n p ks = Some (Ok (quorum_met p (set ks)))" by (rule check_quorum_eq [OF assms(1)]) simp
  ultimately show ?thesis by simp
qed


subsection \<open>The guarantees of the parser and of the evaluation\<close>

text \<open>
  C10. Parsing a policy never panics, and every policy it accepts is well formed: keys of logs
  and witnesses have the types that their role allows and are not used twice, thresholds are
  between one and the size of their group, members of groups are defined before the group, and
  the root quorum is defined.
\<close>

theorem parsed_policy_well_formed:
  "policy_parse L data \<noteq> Panic \<and> (\<forall>p. policy_parse L data = Ok p \<longrightarrow> policy_wf L p)"
  by (blast intro: policy_parse_wf dest: policy_parse_no_panic [THEN notE])

text \<open>A line of visible words is one rule.\<close>

lemma parse_line_words:
  assumes "list_all visible_word (k # ts)" "hd k \<noteq> CHR ''#''"
  shows "parse_line L lineno (join [SP] (k # ts)) st =
    (if k = ''log'' then parse_log_rule L (lineno + 1) (k # ts) st
     else if k = ''witness'' then parse_witness_rule L (lineno + 1) (k # ts) st
     else if k = ''group'' then parse_group_rule (lineno + 1) (k # ts) st
     else if k = ''quorum'' then parse_quorum_rule (lineno + 1) (k # ts) st
     else Err (ParseError (lineno + 1) (''unknown keyword '' @ QUOTE @ k @ QUOTE)))"
proof -
  note j = trim_visible_words [OF assms(1)] split_visible_words [OF assms(1)] join_ends [OF assms(1), of "[SP]"]
  have "\<not> starts_with ''#'' (join [SP] (k # ts))"
  proof
    assume "starts_with ''#'' (join [SP] (k # ts))"
    then have "hd (join [SP] (k # ts)) = CHR ''#''" by (auto simp: starts_with_def strip_prefix_Some_iff)
    with j(3) assms(2) show False by simp
  qed
  moreover define l where "l = join [SP] (k # ts)"
  ultimately have "trim l = l" "l \<noteq> []" "\<not> starts_with ''#'' l" "split_ascii_whitespace l = k # ts"
    using j unfolding l_def by blast+
  then show ?thesis unfolding parse_line_def Let_def l_def [symmetric] by simp
qed

lemma vkey_visible:
  assumes "tlog_lib_correct L" "list_all visible (nvk_origin key)"
  shows "visible_word (to_vkey_string L key)"
proof -
  have "list_all visible base64_alphabet" "list_all visible ''0123456789abcdef''" "visible PLUS"
    by (simp_all add: base64_alphabet_def visible_def PLUS_def)
  then have "visible c" if "c \<in> set (hex_encode L x) \<or> c \<in> set (b64_encode L y)" for c x y
    using that hex_digits [OF tlog_hash_lib [OF assms(1)], of x] b64_alphabet [OF assms(1), of y]
    unfolding list_all_iff by blast
  then show ?thesis using assms(2) \<open>visible PLUS\<close>
    by (auto simp: to_vkey_string_def visible_word_def list_all_iff Let_def)
qed

text \<open>A policy with one log and a group with one witness.\<close>

definition example_log_key :: "bool note_signing_key" where
  "example_log_key = note_signing_key_new example_tlog_lib ''log'' (SkEd25519 True)"

definition example_witness_key :: "bool note_signing_key" where
  "example_witness_key = note_signing_key_new example_tlog_lib ''wit'' (SkEd25519CosignatureV1 False)"

abbreviation example_log_vkey :: "bool note_verifying_key" where
  "example_log_vkey \<equiv> nsk_verifying_key example_tlog_lib example_log_key"

abbreviation example_witness_vkey :: "bool note_verifying_key" where
  "example_witness_vkey \<equiv> nsk_verifying_key example_tlog_lib example_witness_key"

definition example_rules :: "string list list" where
  "example_rules =
     [[''log'', to_vkey_string example_tlog_lib example_log_vkey],
      [''witness'', ''w'', to_vkey_string example_tlog_lib example_witness_vkey],
      [''group'', ''g'', ''any'', ''w''],
      [''quorum'', ''g'']]"

definition example_policy_text :: string where
  "example_policy_text = concat (map (\<lambda>ws. join [SP] ws @ [NL]) example_rules)"

definition example_policy :: "bool policy" where
  "example_policy =
     \<lparr>log_keys = [example_log_vkey],
      quorums = btm_insert ''g'' (Group 1 [''w'']) (btm_insert ''w'' (Witness example_witness_vkey) btm_empty),
      root_quorum = Some ''g''\<rparr>"

lemma example_vkeys:
  "nvk_origin example_log_vkey = ''log''" "nvk_origin example_witness_vkey = ''wit''"
  "nvk_verifying_key example_log_vkey = VkEd25519 True"
  "nvk_verifying_key example_witness_vkey = VkEd25519CosignatureV1 False"
  "length (nvk_key_id_hint example_log_vkey) = 4" "length (nvk_key_id_hint example_witness_vkey) = 4"
  by (simp_all add: nsk_verifying_key_def example_log_key_def example_witness_key_def note_signing_key_new_def
      compute_key_id_def sha256_from_contents_def example_tlog_lib_def)

lemma example_vkeys_parse:
  "note_verifying_key_parse example_tlog_lib (to_vkey_string example_tlog_lib example_log_vkey) = Ok example_log_vkey"
  "note_verifying_key_parse example_tlog_lib (to_vkey_string example_tlog_lib example_witness_vkey) = Ok example_witness_vkey"
  by (intro vkey_round_trip [OF example_tlog_lib_correct]; simp add: note_verifying_key_wf_def example_vkeys PLUS_def)+

lemma example_rules_visible: "list_all (list_all visible_word) example_rules"
  using vkey_visible [OF example_tlog_lib_correct, of example_log_vkey]
    vkey_visible [OF example_tlog_lib_correct, of example_witness_vkey]
  by (simp add: example_rules_def example_vkeys visible_def visible_word_def)

lemma example_lines: "lines example_policy_text = map (join [SP]) example_rules"
proof -
  have "\<forall>l \<in> set (map (join [SP]) example_rules). plain_line l"
    using example_rules_visible by (auto simp: list_all_iff intro!: join_visible_plain)
  from lines_of_plain [OF this, of "[]"] show ?thesis by (simp add: example_policy_text_def comp_def)
qed

lemma example_policy_parse: "policy_parse example_tlog_lib example_policy_text = Ok example_policy"
proof -
  have w: "list_all visible_word (k # ts)" "hd k \<noteq> CHR ''#''" if "k # ts \<in> set example_rules" for k ts
    using that example_rules_visible by (auto simp: list_all_iff example_rules_def)
  note p = parse_line_words [OF w]
  show ?thesis
    unfolding policy_parse_def example_lines
    by (simp add: example_rules_def p parse_log_rule_def parse_witness_rule_def parse_group_rule_def parse_quorum_rule_def
        example_vkeys_parse example_vkeys initial_state_def witnesses_def btm.get_insert btm.get_empty
        parse_threshold_def example_policy_def Let_def List.map_filter_def btm_empty.rep_eq del: join.simps)
qed

theorem parsed_policy_well_formed_witness:
  "policy_parse example_tlog_lib example_policy_text = Ok example_policy \<and> policy_wf example_tlog_lib example_policy"
  using parsed_policy_well_formed [of example_tlog_lib example_policy_text] example_policy_parse by blast

text \<open>
  C11. Checking the quorum of a parsed policy always returns, without a panic and without
  recursing deeper than the policy has entries, and decides exactly whether the verified keys meet
  the quorum that the rules of the policy describe.
\<close>

theorem quorum_check_decides:
  assumes "policy_parse L data = Ok p" "length (entries (quorums p)) < n"
  shows "check_quorum n p ks = Some (Ok (quorum_met p (set ks)))"
  by (rule check_quorum_eq [OF policy_parse_wf [OF assms(1)] assms(2)])

theorem quorum_check_decides_witness:
  "length (entries (quorums example_policy)) < 3 \<and>
   check_quorum 3 example_policy [example_witness_vkey] = Some (Ok True) \<and>
   check_quorum 3 example_policy [] = Some (Ok False) \<and>
   quorum_met example_policy {example_witness_vkey} \<and> \<not> quorum_met example_policy {}"
proof -
  have n: "length (entries (quorums example_policy)) < 3"
    by (simp add: example_policy_def length_entries_insert btm.get_insert btm.get_empty)
  have "check_quorum 3 example_policy [example_witness_vkey] = Some (Ok True)" "check_quorum 3 example_policy [] = Some (Ok False)"
    by (simp_all add: check_quorum_def example_policy_def numeral_3_eq_3 btm.get_insert)
  with n quorum_check_decides [OF example_policy_parse n, of "[example_witness_vkey]"]
    quorum_check_decides [OF example_policy_parse n, of "[]"] show ?thesis by simp
qed

end
