(* ===== verification/TLog_Proof.thy ===== *)
theory TLog_Proof
  imports TLog_Policy
begin

section \<open>Transparency log proofs\<close>

text \<open>
  \<^verbatim>\<open>tr/c2sp/lib.rs\<close>: a proof bundles the index of an entry, the hashes of its inclusion proof
  and a checkpoint with signatures. \<open>tlog_verify\<close> has the fuel of the quorum check. The theorems
  say what an accepted proof guarantees, and that proofs are read back from their text.
\<close>

datatype tlog_proof_error =
    InvalidHeader
  | InvalidIndex
  | MalformedProofCheckpoint checkpoint_error
  | MalformedProof
  | SignatureMismatch
  | RootMismatch
  | InvalidMerkleChain
  | InsufficientWitnesses
  | NoteErr note_error
  | Format

record tlog_proof =
  index :: u64
  proof_hashes :: "bytes list"
  proof_checkpoint :: checkpoint

fun read_hashes ::
  "('v, 's, 'z) tlog_lib_scheme \<Rightarrow> bytes list \<Rightarrow> string list \<Rightarrow> (bytes list \<times> string list, tlog_proof_error) result" where
  "read_hashes L hashes [] = Ok (hashes, [])"
| "read_hashes L hashes (line # ls) =
     (if line = [] then Ok (hashes, ls)
      else
        bind_result (ok_or MalformedProof (b64_decode L line)) (\<lambda>bytes.
        if length bytes \<noteq> 32 then Err MalformedProof
        else read_hashes L (hashes @ [bytes]) ls))"

definition tlog_parse :: "('v, 's, 'z) tlog_lib_scheme \<Rightarrow> string \<Rightarrow> (tlog_proof, tlog_proof_error) result" where
  "tlog_parse L serialized =
     (let ls = lines serialized in
      if map_option fst (next_line ls) \<noteq> Some ''c2sp.org/tlog-proof@v1'' then Err InvalidHeader
      else
        bind_result (ok_or InvalidIndex (next_line (tl ls))) (\<lambda>(line, ls).
        bind_result (if starts_with ''extra '' line then ok_or InvalidIndex (next_line ls) else Ok (line, ls)) (\<lambda>(line, ls).
        bind_result (ok_or InvalidIndex (strip_prefix ''index '' line)) (\<lambda>index_str.
        bind_result (ok_or Format (parse_uint 64 index_str)) (\<lambda>index.
        bind_result (read_hashes L [] ls) (\<lambda>(hashes, ls).
        bind_result (map_err MalformedProofCheckpoint (checkpoint_parse L (join [NL] ls))) (\<lambda>checkpoint.
        Ok \<lparr>index = of_nat index, proof_hashes = hashes, proof_checkpoint = checkpoint\<rparr>)))))))"

definition tlog_serialize :: "('v, 's, 'z) tlog_lib_scheme \<Rightarrow> tlog_proof \<Rightarrow> string" where
  "tlog_serialize L proof =
     ''c2sp.org/tlog-proof@v1'' @ [NL] @ ''index '' @ show_nat (unat (index proof)) @ [NL] @
     concat (map (\<lambda>hash. b64_encode L hash @ [NL]) (proof_hashes proof)) @ [NL] @
     checkpoint_serialize L (proof_checkpoint proof)"

definition tlog_try_from :: "('v, 's, 'z) tlog_lib_scheme \<Rightarrow> bytes \<Rightarrow> (tlog_proof, tlog_proof_error) result" where
  "tlog_try_from L bytes = bind_result (ok_or Format (from_utf8 bytes)) (tlog_parse L)"


subsection \<open>Inclusion\<close>

definition leaf_hash :: "('v, 's, 'z) tlog_lib_scheme \<Rightarrow> bytes \<Rightarrow> bytes" where
  "leaf_hash L data = sha256_from_contents L (0 # data)"

definition concat_and_hash :: "('v, 's, 'z) tlog_lib_scheme \<Rightarrow> bytes \<Rightarrow> bytes option \<Rightarrow> bytes" where
  "concat_and_hash L left right =
     (case right of
        Some right_hash \<Rightarrow> sha256_from_contents L (1 # left @ right_hash)
      | None \<Rightarrow> left)"

definition compute_root_hash ::
  "('v, 's, 'z) tlog_lib_scheme \<Rightarrow> tlog_proof \<Rightarrow> bytes \<Rightarrow> (bytes, tlog_proof_error) result" where
  "compute_root_hash L proof entry =
     (let tree_size = cp_tree_size (proof_checkpoint proof); leaf_index = index proof in
      if leaf_index \<ge> tree_size then Err InvalidMerkleChain
      else ok_or InvalidMerkleChain
        (merkle_root L (concat_and_hash L) (proof_hashes proof) [unat leaf_index] [leaf_hash L entry] (unat tree_size)))"


subsection \<open>Verification\<close>

text \<open>The loop over the signatures for one log key, and the loop over the log keys.\<close>

fun verify_log_signatures ::
  "('v, 's, 'z) tlog_lib_scheme \<Rightarrow> string \<Rightarrow> 'v note_verifying_key \<Rightarrow> nat \<Rightarrow> note_signature list \<Rightarrow>
   (nat, tlog_proof_error) result" where
  "verify_log_signatures L payload log_key num_found [] = Ok num_found"
| "verify_log_signatures L payload log_key num_found (sig # sigs) =
     (if matches_key sig log_key
      then bind_result (map_err NoteErr (note_verify L log_key payload sig)) (\<lambda>_.
        verify_log_signatures L payload log_key (num_found + 1) sigs)
      else verify_log_signatures L payload log_key num_found sigs)"

fun verify_log_keys ::
  "('v, 's, 'z) tlog_lib_scheme \<Rightarrow> checkpoint \<Rightarrow> nat \<Rightarrow> 'v note_verifying_key list \<Rightarrow> (nat, tlog_proof_error) result" where
  "verify_log_keys L cp num_found [] = Ok num_found"
| "verify_log_keys L cp num_found (log_key # keys) =
     (if cp_origin cp \<noteq> nvk_origin log_key then verify_log_keys L cp num_found keys
      else
        bind_result (verify_log_signatures L (cp_signed_payload cp) log_key num_found (cp_signatures cp)) (\<lambda>num_found.
        verify_log_keys L cp num_found keys))"

text \<open>
  The first witness key that verifies a signature. A call of \<open>verify\<close> that panicked would take the
  whole verification with it.
\<close>

fun find_witness ::
  "('v, 's, 'z) tlog_lib_scheme \<Rightarrow> string \<Rightarrow> note_signature \<Rightarrow> 'v note_verifying_key list \<Rightarrow>
   ('v note_verifying_key option, tlog_proof_error) result" where
  "find_witness L payload sig [] = Ok None"
| "find_witness L payload sig (witness_key # keys) =
     (if matches_key sig witness_key
      then
        (case note_verify L witness_key payload sig of
           Ok _ \<Rightarrow> Ok (Some witness_key)
         | Err _ \<Rightarrow> find_witness L payload sig keys
         | Panic \<Rightarrow> Panic)
      else find_witness L payload sig keys)"

fun verify_witnesses ::
  "('v, 's, 'z) tlog_lib_scheme \<Rightarrow> string \<Rightarrow> 'v note_verifying_key list \<Rightarrow> 'v note_verifying_key list \<Rightarrow>
   note_signature list \<Rightarrow> ('v note_verifying_key list, tlog_proof_error) result" where
  "verify_witnesses L payload keys verified [] = Ok verified"
| "verify_witnesses L payload keys verified (sig # sigs) =
     bind_result (find_witness L payload sig keys) (\<lambda>found.
     verify_witnesses L payload keys (case found of Some k \<Rightarrow> verified @ [k] | None \<Rightarrow> verified) sigs)"

text \<open>A call that cannot fail with an error: only a panic or a missing return passes on.\<close>

fun infallible :: "('a, unit) result option \<Rightarrow> ('a, 'e) result option" where
  "infallible None = None"
| "infallible (Some (Ok x)) = Some (Ok x)"
| "infallible (Some _) = Some Panic"

definition tlog_verify ::
  "nat \<Rightarrow> ('v, 's, 'z) tlog_lib_scheme \<Rightarrow> tlog_proof \<Rightarrow> 'v policy \<Rightarrow> bytes \<Rightarrow> (unit, tlog_proof_error) result option" where
  "tlog_verify n L proof policy entry =
     (let cp = proof_checkpoint proof in
      bind_out (Some (verify_log_keys L cp 0 (log_keys policy))) (\<lambda>num_found.
      if num_found \<noteq> 1 then Some (Err SignatureMismatch)
      else
        bind_out (Some (verify_witnesses L (cp_signed_payload cp) (witness_keys policy) [] (cp_signatures cp)))
          (\<lambda>verified_witnesses.
        bind_out (infallible (check_quorum n policy verified_witnesses)) (\<lambda>quorum.
        if \<not> quorum then Some (Err InsufficientWitnesses)
        else
          bind_out (Some (compute_root_hash L proof entry)) (\<lambda>hash.
          if hash \<noteq> cp_root_hash cp then Some (Err RootMismatch) else Some (Ok ()))))))"


subsection \<open>What an accepted proof guarantees\<close>

text \<open>The signatures of a checkpoint that a key claims, and those it verifies.\<close>

definition log_matches :: "checkpoint \<Rightarrow> 'v note_verifying_key list \<Rightarrow> ('v note_verifying_key \<times> note_signature) list" where
  "log_matches cp keys =
     filter (\<lambda>(k, sig). matches_key sig k)
       (List.product (filter (\<lambda>k. nvk_origin k = cp_origin cp) keys) (cp_signatures cp))"

lemma verify_log_signatures_Ok:
  "verify_log_signatures L payload k n sigs = Ok m \<longleftrightarrow>
     m = n + length (filter (\<lambda>sig. matches_key sig k) sigs) \<and>
     (\<forall>sig \<in> set sigs. matches_key sig k \<longrightarrow> note_verify L k payload sig = Ok ())"
  by (induction sigs arbitrary: n) (auto simp: result_simps)

lemma log_matches_Cons:
  "log_matches cp (k # keys) =
     (if nvk_origin k = cp_origin cp then map (Pair k) (filter (\<lambda>sig. matches_key sig k) (cp_signatures cp)) else []) @
     log_matches cp keys"
  by (simp add: log_matches_def filter_map comp_def)

lemma verify_log_keys_Ok:
  "verify_log_keys L cp n keys = Ok m \<longleftrightarrow>
     m = n + length (log_matches cp keys) \<and>
     (\<forall>(k, sig) \<in> set (log_matches cp keys). note_verify L k (cp_signed_payload cp) sig = Ok ())"
proof (induction keys arbitrary: n)
  case Nil
  then show ?case by (auto simp: log_matches_def)
next
  case (Cons k keys)
  then show ?case by (auto simp: log_matches_Cons result_simps verify_log_signatures_Ok ball_Un)
qed

definition witnessed :: "('v, 's, 'z) tlog_lib_scheme \<Rightarrow> checkpoint \<Rightarrow> 'v note_verifying_key list \<Rightarrow> 'v note_verifying_key set" where
  "witnessed L cp keys =
     {k \<in> set keys. \<exists>sig \<in> set (cp_signatures cp). matches_key sig k \<and> note_verify L k (cp_signed_payload cp) sig = Ok ()}"

lemma find_witness_Some:
  "find_witness L payload sig keys = Ok (Some k) \<Longrightarrow>
     k \<in> set keys \<and> matches_key sig k \<and> note_verify L k payload sig = Ok ()"
  by (induction keys) (auto split: if_splits result.splits)

lemma verify_witnesses_Ok:
  "verify_witnesses L payload keys verified sigs = Ok ks \<Longrightarrow> k \<in> set ks \<Longrightarrow>
     k \<in> set verified \<or> (\<exists>sig \<in> set sigs. k \<in> set keys \<and> matches_key sig k \<and> note_verify L k payload sig = Ok ())"
proof (induction sigs arbitrary: verified)
  case (Cons sig sigs)
  then obtain found where f: "find_witness L payload sig keys = Ok found"
    "verify_witnesses L payload keys (case found of Some k \<Rightarrow> verified @ [k] | None \<Rightarrow> verified) sigs = Ok ks"
    by (auto simp: result_simps)
  from Cons.IH [OF f(2) Cons.prems(2)] f(1) show ?case
    by (cases found) (auto dest: find_witness_Some)
qed simp

lemma tlog_verify_accepted:
  assumes "tlog_verify n L proof policy entry = Some (Ok ())"
  obtains ks where "length (log_matches (proof_checkpoint proof) (log_keys policy)) = 1"
    "\<forall>(k, sig) \<in> set (log_matches (proof_checkpoint proof) (log_keys policy)).
       note_verify L k (cp_signed_payload (proof_checkpoint proof)) sig = Ok ()"
    "set ks \<subseteq> witnessed L (proof_checkpoint proof) (witness_keys policy)"
    "check_quorum n policy ks = Some (Ok True)"
    "compute_root_hash L proof entry = Ok (cp_root_hash (proof_checkpoint proof))"
proof -
  let ?cp = "proof_checkpoint proof"
  obtain ks where ks: "verify_log_keys L ?cp 0 (log_keys policy) = Ok 1"
    "verify_witnesses L (cp_signed_payload ?cp) (witness_keys policy) [] (cp_signatures ?cp) = Ok ks"
    "infallible (check_quorum n policy ks) = (Some (Ok True) :: (bool, tlog_proof_error) result option)"
    "compute_root_hash L proof entry = Ok (cp_root_hash ?cp)"
    using assms by (auto simp: tlog_verify_def Let_def result_simps split: if_splits)
  have "set ks \<subseteq> witnessed L ?cp (witness_keys policy)"
    using verify_witnesses_Ok [OF ks(2)] by (force simp: witnessed_def)
  moreover have "check_quorum n policy ks = Some (Ok True)"
    using ks(3) by (cases "check_quorum n policy ks" rule: infallible.cases) simp_all
  ultimately show thesis using that ks(1,4) unfolding verify_log_keys_Ok by auto
qed

lemma quorum_met_mono: "quorum_met p K \<Longrightarrow> K \<subseteq> K' \<Longrightarrow> quorum_met p K'"
  by (auto simp: quorum_met_def intro: met_mono)

lemma tlog_parse_payload:
  assumes "tlog_parse L s = Ok proof"
  shows "payload_states L (cp_signed_payload (proof_checkpoint proof)) (proof_checkpoint proof)"
proof -
  obtain ls where "checkpoint_parse L (join [NL] ls) = Ok (proof_checkpoint proof)"
    using assms by (auto simp: tlog_parse_def Let_def result_simps split: if_splits)
  from checkpoint_payload_states [OF this] show ?thesis by blast
qed

text \<open>
  C9. A proof that verification accepts, for a policy from the parser, guarantees that exactly
  one signature of the checkpoint belongs to a trusted log key of the same origin and that it is
  valid, that witnesses whose cosignatures on the same text are valid meet the quorum of the
  policy, and that the entry is below the size of the tree and leads to the root hash of the
  checkpoint. For a proof that was parsed, the text that all of them signed states this origin,
  size and root hash.
\<close>

theorem accepted_proof_sound:
  assumes "policy_parse L data = Ok policy" "tlog_verify n L proof policy entry = Some (Ok ())"
  defines "cp \<equiv> proof_checkpoint proof"
  shows "(\<exists>k sig. log_matches cp (log_keys policy) = [(k, sig)] \<and> k \<in> set (log_keys policy) \<and>
      is_log_key (nvk_verifying_key k) \<and> note_verify L k (cp_signed_payload cp) sig = Ok ()) \<and>
    quorum_met policy (witnessed L cp (witness_keys policy)) \<and>
    index proof < cp_tree_size cp \<and>
    merkle_root L (concat_and_hash L) (proof_hashes proof) [unat (index proof)] [leaf_hash L entry]
      (unat (cp_tree_size cp)) = Some (cp_root_hash cp) \<and>
    (\<forall>s. tlog_parse L s = Ok proof \<longrightarrow> payload_states L (cp_signed_payload cp) cp)"
proof -
  obtain ks where ks: "length (log_matches cp (log_keys policy)) = 1"
    "\<forall>(k, sig) \<in> set (log_matches cp (log_keys policy)). note_verify L k (cp_signed_payload cp) sig = Ok ()"
    "set ks \<subseteq> witnessed L cp (witness_keys policy)" "check_quorum n policy ks = Some (Ok True)"
    "compute_root_hash L proof entry = Ok (cp_root_hash cp)"
    unfolding cp_def by (rule tlog_verify_accepted [OF assms(2)])
  have wf: "policy_wf L policy" by (rule policy_parse_wf [OF assms(1)])
  obtain k sig where m: "log_matches cp (log_keys policy) = [(k, sig)]"
    using ks(1) by (cases "log_matches cp (log_keys policy)") auto
  then have "(k, sig) \<in> set (log_matches cp (log_keys policy))" by simp
  then have k: "k \<in> set (log_keys policy)" "note_verify L k (cp_signed_payload cp) sig = Ok ()"
    using ks(2) by (auto simp: log_matches_def)
  then have "is_log_key (nvk_verifying_key k)" using wf by (simp add: policy_wf_def log_keys_wf_def)
  moreover have "quorum_met policy (witnessed L cp (witness_keys policy))"
    using check_quorum_sound [OF wf ks(4)] ks(3) quorum_met_mono by auto
  moreover have "index proof < cp_tree_size cp"
    "merkle_root L (concat_and_hash L) (proof_hashes proof) [unat (index proof)] [leaf_hash L entry]
      (unat (cp_tree_size cp)) = Some (cp_root_hash cp)"
    using ks(5) by (auto simp: compute_root_hash_def Let_def cp_def split: if_splits)
  ultimately show ?thesis using m k tlog_parse_payload unfolding cp_def by blast
qed

text \<open>A proof for the only entry of a log, signed by the log and a witness of the example policy.\<close>

definition example_payload :: string where
  "example_payload = payload_head ''log'' (show_nat 1) (b64_encode example_tlog_lib (leaf_hash example_tlog_lib [7]))"

definition example_checkpoint :: checkpoint where
  "example_checkpoint =
     \<lparr>cp_origin = ''log'', cp_tree_size = 1, cp_root_hash = leaf_hash example_tlog_lib [7], cp_signed_payload = example_payload,
      cp_signatures =
        [\<lparr>sig_origin = ''log'', sig_key_id_hint = nvk_key_id_hint example_log_vkey, sig_bytes = bit_bytes 64 True\<rparr>,
         \<lparr>sig_origin = ''wit'', sig_key_id_hint = nvk_key_id_hint example_witness_vkey,
          sig_bytes = replicate 8 0 @ bit_bytes 64 False\<rparr>]\<rparr>"

definition example_proof :: tlog_proof where
  "example_proof = \<lparr>index = 0, proof_hashes = [], proof_checkpoint = example_checkpoint\<rparr>"

lemma example_signatures_verify:
  "note_verify example_tlog_lib example_log_vkey payload
     \<lparr>sig_origin = ''log'', sig_key_id_hint = hint, sig_bytes = bit_bytes 64 True\<rparr> = Ok ()"
  "note_verify example_tlog_lib example_witness_vkey payload
     \<lparr>sig_origin = ''wit'', sig_key_id_hint = hint, sig_bytes = replicate 8 0 @ bit_bytes 64 False\<rparr> = Ok ()"
proof -
  have b: "length (bit_bytes 64 v) = 64" for v by (simp add: bit_bytes_def)
  have ed: "ed_verify example_tlog_lib v m sig \<longleftrightarrow> sig = bit_bytes 64 v" for v m sig by (simp add: example_tlog_lib_def)
  have "signature_timestamp (replicate 8 0 @ x) = UNIX_EPOCH" for x by (simp add: signature_timestamp_def) code_simp
  moreover have "epoch_secs UNIX_EPOCH = (Ok 0 :: (u64, note_error) result)" by code_simp
  ultimately show "note_verify example_tlog_lib example_log_vkey payload
     \<lparr>sig_origin = ''log'', sig_key_id_hint = hint, sig_bytes = bit_bytes 64 True\<rparr> = Ok ()"
    "note_verify example_tlog_lib example_witness_vkey payload
     \<lparr>sig_origin = ''wit'', sig_key_id_hint = hint, sig_bytes = replicate 8 0 @ bit_bytes 64 False\<rparr> = Ok ()"
    by (simp_all add: note_verify_def example_vkeys verify_ed25519_def b ed)
qed

lemma example_proof_accepted: "tlog_verify 3 example_tlog_lib example_proof example_policy [7] = Some (Ok ())"
proof -
  let ?L = "example_tlog_lib"
  have keys: "log_keys example_policy = [example_log_vkey]" "witness_keys example_policy = [example_witness_vkey]"
    by (simp_all add: example_policy_def witness_keys_def witnesses_def List.map_filter_def btm_insert.rep_eq
        btm_empty.rep_eq)
  have "verify_log_keys ?L example_checkpoint 0 [example_log_vkey] = Ok 1"
    "verify_witnesses ?L (cp_signed_payload example_checkpoint) [example_witness_vkey] [] (cp_signatures example_checkpoint) =
       Ok [example_witness_vkey]"
    by (simp_all add: example_checkpoint_def matches_key_def example_vkeys example_signatures_verify)
  moreover have "check_quorum 3 example_policy [example_witness_vkey] = Some (Ok True)"
    by (simp add: check_quorum_def example_policy_def numeral_3_eq_3 btm.get_insert)
  moreover have "compute_root_hash ?L example_proof [7] = Ok (cp_root_hash example_checkpoint)"
    by (simp add: compute_root_hash_def example_proof_def example_checkpoint_def example_tlog_lib_def)
  ultimately show ?thesis by (simp add: tlog_verify_def keys example_proof_def)
qed

theorem accepted_proof_sound_witness:
  "policy_parse example_tlog_lib example_policy_text = Ok example_policy \<and>
   tlog_verify 3 example_tlog_lib example_proof example_policy [7] = Some (Ok ()) \<and>
   quorum_met example_policy (witnessed example_tlog_lib (proof_checkpoint example_proof) (witness_keys example_policy)) \<and>
   index example_proof < cp_tree_size (proof_checkpoint example_proof)"
  using accepted_proof_sound [OF example_policy_parse example_proof_accepted] example_policy_parse example_proof_accepted
  by blast


subsection \<open>Proofs are read back\<close>

definition tlog_proof_wf :: "('v, 's, 'z) tlog_lib_scheme \<Rightarrow> tlog_proof \<Rightarrow> bool" where
  "tlog_proof_wf L proof \<longleftrightarrow>
     (\<forall>hash \<in> set (proof_hashes proof). length hash = 32) \<and> checkpoint_wf L (proof_checkpoint proof)"

lemma read_hashes_plain:
  assumes "tlog_lib_correct L" "\<forall>hash \<in> set hashes. length hash = 32"
  shows "read_hashes L acc (map (b64_encode L) hashes @ [] # ls) = Ok (acc @ hashes, ls)"
  using assms(2)
proof (induction hashes arbitrary: acc)
  case (Cons hash hashes)
  then have "b64_encode L hash \<noteq> []" by (auto simp: b64_Nil [OF assms(1)])
  with Cons show ?case by (simp add: b64_round_trip [OF assms(1)])
qed simp

text \<open>
  C12. A well-formed proof is read back from its text: any index, any number of hashes, and a
  checkpoint with extension lines and signatures.
\<close>

theorem proof_round_trip:
  assumes "tlog_lib_correct L" "tlog_proof_wf L proof"
  shows "tlog_parse L (tlog_serialize L proof) = Ok proof"
proof -
  let ?c = "proof_checkpoint proof" and ?i = "show_nat (unat (index proof))"
  have wf: "checkpoint_wf L ?c" "\<forall>hash \<in> set (proof_hashes proof). length hash = 32"
    using assms(2) by (simp_all add: tlog_proof_wf_def)
  obtain ext where ext: "cp_signed_payload ?c =
       payload_head (cp_origin ?c) (show_nat (unat (cp_tree_size ?c))) (b64_encode L (cp_root_hash ?c)) @
       concat (map (\<lambda>l. l @ [NL]) ext)" "\<forall>l \<in> set ext. plain_line l \<and> l \<noteq> []"
    using wf(1) by (auto simp: checkpoint_wf_def)
  note s = checkpoint_serialize_lines [OF assms(1) wf(1) ext(2,1)]
  let ?head = "[''c2sp.org/tlog-proof@v1'', ''index '' @ ?i] @ map (b64_encode L) (proof_hashes proof) @ [[]]"
  have plain: "\<forall>l \<in> set (?head @ checkpoint_lines L ext ?c). plain_line l"
  proof -
    have "plain_line (''index '' @ ?i)" by (rule plain_prefix [OF plain_show show_nat_nonempty]) (simp add: NL_def)
    moreover have "plain_line ''c2sp.org/tlog-proof@v1''" "plain_line []" by (simp_all add: plain_line_def NL_def CR_def)
    ultimately show ?thesis using s(2) plain_b64 [OF assms(1)] by auto
  qed
  have "tlog_serialize L proof = concat (map (\<lambda>l. l @ [NL]) (?head @ checkpoint_lines L ext ?c))"
    by (simp add: tlog_serialize_def s(1) comp_def)
  then have lines: "lines (tlog_serialize L proof) = ?head @ checkpoint_lines L ext ?c"
    using lines_of_plain [OF plain, of "[]"] by simp
  have "checkpoint_parse L (join [NL] (checkpoint_lines L ext ?c)) = Ok ?c"
  proof (rule checkpoint_parse_lines [OF assms(1) wf(1) ext(2,1)])
    show "lines (join [NL] (checkpoint_lines L ext ?c)) = checkpoint_lines L ext ?c \<or>
      cp_signatures ?c = [] \<and> lines (join [NL] (checkpoint_lines L ext ?c)) @ [[]] = checkpoint_lines L ext ?c"
    proof (cases "cp_signatures ?c = []")
      case True
      let ?ls = "[cp_origin ?c, show_nat (unat (cp_tree_size ?c)), b64_encode L (cp_root_hash ?c)] @ ext"
      have e: "checkpoint_lines L ext ?c = ?ls @ [[]]" using True by (simp add: checkpoint_lines_def)
      have "\<forall>l \<in> set ?ls. plain_line l" using s(2) e by simp
      from join_lines_empty_last [OF this] True e show ?thesis by simp
    next
      case False
      then have "last (checkpoint_lines L ext ?c) = to_signature_line L (last (cp_signatures ?c))"
        by (simp add: checkpoint_lines_def last_map)
      then have "last (checkpoint_lines L ext ?c) \<noteq> []" by (simp add: to_signature_line_def SIGNATURE_PREFIX_def)
      then show ?thesis using join_lines [OF s(2)] by (simp add: checkpoint_lines_def)
    qed
  qed
  moreover have "unat (index proof) < 2 ^ 64" using unsigned_less [of "index proof"] by simp
  moreover have "\<not> starts_with ''extra '' (''index '' @ ?i)" by (simp add: starts_with_def)
  ultimately show ?thesis
    by (simp add: tlog_parse_def lines read_hashes_plain [OF assms(1) wf(2)] strip_prefix_append [of "''index ''", simplified])
qed

theorem proof_round_trip_witness:
  "tlog_lib_correct example_tlog_lib \<and> tlog_proof_wf example_tlog_lib example_proof \<and>
   tlog_parse example_tlog_lib (tlog_serialize example_tlog_lib example_proof) = Ok example_proof"
proof -
  have "checkpoint_wf example_tlog_lib example_checkpoint"
    unfolding checkpoint_wf_def
  proof (intro conjI exI [of _ "[]"])
    show "length (cp_root_hash example_checkpoint) = 32"
      by (simp add: example_checkpoint_def leaf_hash_def sha256_from_contents_def example_tlog_lib_def)
  qed (simp_all add: example_checkpoint_def example_payload_def note_signature_wf_def example_vkeys NL_def SP_def CR_def
      plain_line_def)
  then have "tlog_proof_wf example_tlog_lib example_proof" by (simp add: tlog_proof_wf_def example_proof_def)
  with proof_round_trip [OF example_tlog_lib_correct this] example_tlog_lib_correct show ?thesis by blast
qed

end
