(* ===== verification/Release_Keys.thy ===== *)
theory Release_Keys
  imports TLog_Proof
begin

section \<open>Endorsements: messages, libraries and keys\<close>

text \<open>
  The messages of \<^verbatim>\<open>proto/attestation/{endorsement,reference_value}.proto\<close> and the structures of
  \<^verbatim>\<open>tr/intoto/statement.rs\<close>, \<^verbatim>\<open>tr/rekor/log_entry.rs\<close> and \<^verbatim>\<open>tr/pes/json.rs\<close>, then
  \<^verbatim>\<open>tr/key_util/lib.rs\<close>: which key of a set verifies a signature. The parsers that \<^verbatim>\<open>serde\<close> derives for
  these structures, PEM and DER, ECDSA, RSA and X.509 are functions of \<open>release_lib\<close>. The \<open>r#type()\<close>
  of a message, which reads an unknown number as the undefined type, is its field.
\<close>

subsection \<open>Keys, signatures and reference values\<close>

datatype key_type = KeyUndefined | EcdsaP256Sha256 | RsaSha2256

record verifying_key_msg =
  vk_type :: key_type
  vk_key_id :: u32
  vk_raw :: bytes

record signature_msg =
  sg_key_id :: u32
  sg_raw :: bytes

record timestamp_reference_value =
  not_before_absolute :: "seconds_nanos option"
  not_before_relative :: "seconds_nanos option"

record verifying_key_set =
  ks_keys :: "verifying_key_msg list"
  ks_signed_timestamp :: "timestamp_reference_value option"

datatype verifying_key_reference_value = KeySkip | KeyVerify verifying_key_set

record pes_reference_value =
  pes_key_set :: "verifying_key_set option"

datatype tlog_strategy = StrategySkip | StrategyAll | StrategyAny

record tlog_reference_values =
  tl_strategy :: "tlog_strategy option"
  tl_rekor :: "verifying_key_set option"
  tl_c2sp :: "c2sp_reference_value option"
  tl_pes :: "pes_reference_value option"

text \<open>
  \<open>EndorsementReferenceValue\<close>; the message \<open>VerifyingKeyReferenceValue\<close> of the deprecated field is
  the option of its \<open>type\<close>.
\<close>

record endorsement_reference_value =
  erv_endorser :: "verifying_key_set option"
  erv_required_claims :: "string list option"
  erv_rekor :: "verifying_key_reference_value option option"
  erv_tlog :: "tlog_reference_values option"

datatype endorsement_format = FormatUndefined | FormatJsonIntoto

record endorsement =
  en_format :: endorsement_format
  en_serialized :: bytes
  en_subject :: bytes

record signed_endorsement =
  se_endorsement :: "endorsement option"
  se_signature :: "signature_msg option"
  se_rekor_log_entry :: bytes
  se_c2sp_tlog_proof :: bytes
  se_pes_confirmation :: bytes


subsection \<open>Statements\<close>

record subject =
  su_name :: string
  su_digest :: digest_set

record validity =
  not_before :: instant
  not_after :: instant

record claim =
  claim_type :: string

record default_predicate =
  issued_on :: instant
  pr_validity :: "validity option"
  pr_claims :: "claim list"

record statement =
  st_type :: string
  st_predicate_type :: string
  st_subject :: "subject list"
  st_predicate :: default_predicate


subsection \<open>Entries of Rekor\<close>

record log_entry =
  le_body :: string
  le_integrated_time :: u64
  le_log_id :: string
  le_log_index :: u64
  le_verification :: "string option"

record body =
  bd_api_version :: string
  bd_kind :: string
  bd_hash_algorithm :: string
  bd_hash_value :: string
  bd_signature_content :: string
  bd_public_key_content :: string


subsection \<open>Confirmations of the public endorsement service\<close>

datatype verification_material = X509Certificate bytes | EcdsaP256PublicKey bytes

record json_verification_material =
  jv_x509_certificate :: "bytes option"
  jv_ecdsa_p256_sha256 :: "bytes option"

record json_signature =
  js_signature :: bytes
  js_verification_material :: "json_verification_material option"

record json_statement =
  jt_format :: "string option"
  jt_serialized :: bytes

record json_tlog_receipt =
  jr_entry_id :: "string option"

record json_public_endorsement =
  je_name :: "string option"
  je_statement :: "json_statement option"
  je_statement_signature :: "json_signature option"
  je_endorsement_signatures :: "json_signature list option"
  je_tlog_receipt :: "json_tlog_receipt option"

datatype statement_format = StatementUnspecified | JsonIntoto

text \<open>
  The messages; \<open>VerificationMaterial\<close> is the option of its only field, and \<open>Signature\<close> has an
  optional one.
\<close>

record pes_signature =
  ps_signature :: bytes
  ps_verification_material :: "verification_material option option"

record pes_statement =
  pt_format :: statement_format
  pt_serialized :: bytes

record pes_tlog_receipt =
  pr_entry_id :: string

record public_endorsement =
  pe_name :: string
  pe_statement :: "pes_statement option"
  pe_statement_signature :: "pes_signature option"
  pe_endorsement_signatures :: "pes_signature list"
  pe_tlog_receipt :: "pes_tlog_receipt option"


subsection \<open>Libraries\<close>

text \<open>
  A P-256 key is its encoded point, by which \<^verbatim>\<open>p256\<close> compares keys, and a signature its two
  numbers; the certificate parser gives the encoded \<open>subject_public_key_info\<close>, which may fail on its own.
\<close>

record ('v, 's) release_lib = "('v, 's) tlog_lib" +
  pem_decode :: "string \<Rightarrow> (string \<times> bytes) option"
  pem_encode :: "string \<Rightarrow> bytes \<Rightarrow> string option"
  der_document :: "bytes \<Rightarrow> bytes option"
  p256_from_der :: "bytes \<Rightarrow> bytes option"
  ecdsa_signature_from_der :: "bytes \<Rightarrow> bytes option"
  p256_verify :: "bytes \<Rightarrow> bytes \<Rightarrow> bytes \<Rightarrow> bool"
  rsa_from_der :: "bytes \<Rightarrow> bytes option"
  rsa_verify :: "bytes \<Rightarrow> bytes \<Rightarrow> bytes \<Rightarrow> bool"
  x509_subject_key :: "bytes \<Rightarrow> bytes option option"
  json_statement_from :: "bytes \<Rightarrow> statement option"
  json_statement_to :: "statement \<Rightarrow> bytes option"
  json_log_entries_from :: "bytes \<Rightarrow> log_entry btree_map option"
  json_log_entries_to :: "log_entry btree_map \<Rightarrow> bytes option"
  json_body_from :: "bytes \<Rightarrow> body option"
  json_pes_from :: "bytes \<Rightarrow> json_public_endorsement option"
  datetime_rfc3339 :: "int \<Rightarrow> int \<Rightarrow> string option"


subsection \<open>Printed instants\<close>

text \<open>
  \<open>datetime_rfc3339\<close> is \<open>DateTime::from_timestamp\<close> of \<^verbatim>\<open>chrono\<close>, nothing when the date is out of its
  range, printed with milliseconds. Printing an instant, also with \<open>{}\<close> in the message of an error,
  panics when it is not such a date.
\<close>

definition serialize_instant :: "('v, 's, 'z) release_lib_scheme \<Rightarrow> instant \<Rightarrow> (string, 'e) result" where
  "serialize_instant L instant =
     bind_result (into_second_nanos instant) (\<lambda>(seconds, nanos). expect (datetime_rfc3339 L seconds nanos))"

definition printable :: "('v, 's, 'z) release_lib_scheme \<Rightarrow> instant \<Rightarrow> bool" where
  "printable L t \<longleftrightarrow> is_i64 (nanoseconds t sdiv SECONDS_TO_NANOS) \<and>
     datetime_rfc3339 L (i64 (nanoseconds t div SECONDS_TO_NANOS)) (nanoseconds t mod SECONDS_TO_NANOS) \<noteq> None"

lemma serialize_instant_eq:
  "serialize_instant L t =
     (if printable L t
      then Ok (the (datetime_rfc3339 L (i64 (nanoseconds t div SECONDS_TO_NANOS)) (nanoseconds t mod SECONDS_TO_NANOS)))
      else Panic)"
proof -
  have "i64 (nanoseconds t div SECONDS_TO_NANOS) = nanoseconds t div SECONDS_TO_NANOS"
    if "is_i64 (nanoseconds t sdiv SECONDS_TO_NANOS)" "\<not> nanoseconds t smod SECONDS_TO_NANOS < 0"
    using that trunc_floor [of SECONDS_TO_NANOS "nanoseconds t"] by (simp add: SECONDS_TO_NANOS_def)
  then show ?thesis by (auto simp: serialize_instant_def printable_def into_second_nanos_eq)
qed

lemma serialize_instant_Panic [simp]: "serialize_instant L t = Panic \<longleftrightarrow> \<not> printable L t"
  by (simp add: serialize_instant_eq)

lemma serialize_instant_not_Err [simp]: "serialize_instant L t \<noteq> Err e"
  by (simp add: serialize_instant_eq)


subsection \<open>Keys\<close>

definition PUBLIC_KEY_PEM_LABEL :: string where "PUBLIC_KEY_PEM_LABEL = ''PUBLIC KEY''"

definition convert_raw_to_pem :: "('v, 's, 'z) release_lib_scheme \<Rightarrow> bytes \<Rightarrow> (string, 'e) result" where
  "convert_raw_to_pem L asn1_der_public_key_bytes =
     bind_result (expect (der_document L asn1_der_public_key_bytes)) (\<lambda>doc.
     expect (pem_encode L PUBLIC_KEY_PEM_LABEL doc))"

definition convert_pem_to_raw :: "('v, 's, 'z) release_lib_scheme \<Rightarrow> string \<Rightarrow> (bytes, string anyhow) result" where
  "convert_pem_to_raw L public_key_pem =
     bind_result (ok_or (Msg ''Couldn't interpret PEM'') (pem_decode L public_key_pem)) (\<lambda>(label, document).
     if label \<noteq> PUBLIC_KEY_PEM_LABEL then Err (MsgWith ''PEM label is not PUBLIC KEY'' label)
     else Ok document)"

definition convert_raw_to_verifying_key ::
  "('v, 's, 'z) release_lib_scheme \<Rightarrow> bytes \<Rightarrow> (bytes, string anyhow) result" where
  "convert_raw_to_verifying_key L public_key =
     bind_result (ok_or (Msg ''Could not interpret bytes as ASN.1 DER'') (der_document L public_key)) (\<lambda>doc.
     ok_or (Msg ''couldn't convert der to verifying key'') (p256_from_der L doc))"

definition equal_keys ::
  "('v, 's, 'z) release_lib_scheme \<Rightarrow> bytes \<Rightarrow> bytes \<Rightarrow> (bool, string anyhow) result" where
  "equal_keys L public_key_a public_key_b =
     bind_result (convert_raw_to_verifying_key L public_key_a) (\<lambda>key_a.
     bind_result (convert_raw_to_verifying_key L public_key_b) (\<lambda>key_b.
     Ok (key_a = key_b)))"

definition verify_signature_ecdsa ::
  "('v, 's, 'z) release_lib_scheme \<Rightarrow> bytes \<Rightarrow> bytes \<Rightarrow> bytes \<Rightarrow> (unit, string anyhow) result" where
  "verify_signature_ecdsa L signature_der contents public_key_der =
     bind_result (ok_or (Msg ''invalid ASN.1 signature'') (ecdsa_signature_from_der L signature_der)) (\<lambda>sig.
     bind_result (map_err (\<lambda>_. Msg ''couldn't convert public key'') (convert_raw_to_verifying_key L public_key_der)) (\<lambda>key.
     if p256_verify L key contents sig then Ok () else bail ''couldn't verify signature''))"

definition verify_signature_rsa ::
  "('v, 's, 'z) release_lib_scheme \<Rightarrow> bytes \<Rightarrow> bytes \<Rightarrow> bytes \<Rightarrow> (unit, string anyhow) result" where
  "verify_signature_rsa L signature_raw contents public_key_der =
     bind_result (ok_or (Msg ''couldn't parse RSA public key'') (rsa_from_der L public_key_der)) (\<lambda>public_key.
     if rsa_verify L public_key (sha256 L contents) signature_raw then Ok ()
     else bail ''couldn't verify RSA signature'')"

definition verify_signature ::
  "('v, 's, 'z) release_lib_scheme \<Rightarrow> signature_msg \<Rightarrow> bytes \<Rightarrow> verifying_key_set \<Rightarrow> (unit, string anyhow) result" where
  "verify_signature L signature contents key_set =
     bind_result (ok_or (Msg ''could not find key id in key set'')
       (find (\<lambda>k. vk_key_id k = sg_key_id signature) (ks_keys key_set))) (\<lambda>key.
     case vk_type key of
       KeyUndefined \<Rightarrow> bail ''Undefined key type''
     | EcdsaP256Sha256 \<Rightarrow> verify_signature_ecdsa L (sg_raw signature) contents (vk_raw key)
     | RsaSha2256 \<Rightarrow> verify_signature_rsa L (sg_raw signature) contents (vk_raw key))"


subsection \<open>What an accepted signature is\<close>

text \<open>The P-256 key of an encoded one, and the signatures of the two algorithms.\<close>

definition p256_key :: "('v, 's, 'z) release_lib_scheme \<Rightarrow> bytes \<Rightarrow> bytes option" where
  "p256_key L raw = Option.bind (der_document L raw) (p256_from_der L)"

definition ecdsa_signed :: "('v, 's, 'z) release_lib_scheme \<Rightarrow> bytes \<Rightarrow> bytes \<Rightarrow> bytes \<Rightarrow> bool" where
  "ecdsa_signed L raw contents sig \<longleftrightarrow>
     (\<exists>key s. p256_key L raw = Some key \<and> ecdsa_signature_from_der L sig = Some s \<and> p256_verify L key contents s)"

definition rsa_signed :: "('v, 's, 'z) release_lib_scheme \<Rightarrow> bytes \<Rightarrow> bytes \<Rightarrow> bytes \<Rightarrow> bool" where
  "rsa_signed L raw contents sig \<longleftrightarrow> (\<exists>key. rsa_from_der L raw = Some key \<and> rsa_verify L key (sha256 L contents) sig)"

fun key_signed :: "('v, 's, 'z) release_lib_scheme \<Rightarrow> key_type \<Rightarrow> bytes \<Rightarrow> bytes \<Rightarrow> bytes \<Rightarrow> bool" where
  "key_signed L KeyUndefined raw contents sig = False"
| "key_signed L EcdsaP256Sha256 raw contents sig = ecdsa_signed L raw contents sig"
| "key_signed L RsaSha2256 raw contents sig = rsa_signed L raw contents sig"

text \<open>The key that an ID names is the first one with it.\<close>

definition key_of :: "verifying_key_set \<Rightarrow> u32 \<Rightarrow> verifying_key_msg option" where
  "key_of ks i = find (\<lambda>k. vk_key_id k = i) (ks_keys ks)"

lemma key_of_Some: "key_of ks i = Some k \<Longrightarrow> k \<in> set (ks_keys ks) \<and> vk_key_id k = i"
  by (auto simp: key_of_def find_Some_iff)

lemma verifying_key_Ok [simp]: "convert_raw_to_verifying_key L raw = Ok k \<longleftrightarrow> p256_key L raw = Some k"
  by (auto simp: convert_raw_to_verifying_key_def p256_key_def result_simps bind_eq_Some_conv)

lemma equal_keys_Ok: "equal_keys L a b = Ok True \<longleftrightarrow> (\<exists>k. p256_key L a = Some k \<and> p256_key L b = Some k)"
  by (auto simp: equal_keys_def result_simps)

lemma verify_ecdsa_Ok [simp]: "verify_signature_ecdsa L sig contents raw = Ok () \<longleftrightarrow> ecdsa_signed L raw contents sig"
  by (auto simp: verify_signature_ecdsa_def ecdsa_signed_def result_simps bail_def)

lemma verify_rsa_Ok [simp]: "verify_signature_rsa L sig contents raw = Ok () \<longleftrightarrow> rsa_signed L raw contents sig"
  by (auto simp: verify_signature_rsa_def rsa_signed_def result_simps bail_def)

lemma verify_signature_Ok:
  "verify_signature L sig contents ks = Ok () \<longleftrightarrow>
     (\<exists>k. key_of ks (sg_key_id sig) = Some k \<and> key_signed L (vk_type k) (vk_raw k) contents (sg_raw sig))"
proof (cases "key_of ks (sg_key_id sig)")
  case (Some k)
  then show ?thesis by (cases "vk_type k") (simp_all add: verify_signature_def key_of_def bail_def)
qed (simp add: verify_signature_def key_of_def)

text \<open>None of these calls panics.\<close>

lemma convert_pem_no_panic [simp]: "convert_pem_to_raw L pem \<noteq> Panic"
  by (auto simp: convert_pem_to_raw_def result_simps split: if_splits)

lemma convert_raw_no_panic [simp]: "convert_raw_to_verifying_key L raw \<noteq> Panic"
  by (auto simp: convert_raw_to_verifying_key_def result_simps)

lemma equal_keys_no_panic [simp]: "equal_keys L a b \<noteq> Panic"
  by (auto simp: equal_keys_def result_simps)

lemma verify_signature_no_panic [simp]:
  "verify_signature_ecdsa L s c raw \<noteq> Panic" "verify_signature_rsa L s c raw \<noteq> Panic" "verify_signature L sig c ks \<noteq> Panic"
proof -
  show e: "verify_signature_ecdsa L s c raw \<noteq> Panic" for s c raw
    by (auto simp: verify_signature_ecdsa_def result_simps bail_def split: if_splits)
  show r: "verify_signature_rsa L s c raw \<noteq> Panic" for s c raw
    by (auto simp: verify_signature_rsa_def result_simps bail_def split: if_splits)
  show "verify_signature L sig c ks \<noteq> Panic"
    using e r by (auto simp: verify_signature_def result_simps bail_def split: key_type.splits)
qed

end
