(* ===== verification/Release_Statement.thy ===== *)
theory Release_Statement
  imports Release_Keys
begin

section \<open>Endorsement statements and entries of Rekor\<close>

text \<open>
  \<^verbatim>\<open>tr/intoto/statement.rs\<close>: making and validating an endorsement statement, and
  \<^verbatim>\<open>tr/rekor/{log_entry,util}.rs\<close>: entries of the transparency log Rekor, the bytes that Rekor signs and
  their verification.
\<close>

definition STATEMENT_TYPE :: string where "STATEMENT_TYPE = ''https://in-toto.io/Statement/v1''"

definition PREDICATE_TYPE_V1 :: string where
  "PREDICATE_TYPE_V1 = ''https://project-oak.github.io/oak/tr/endorsement/v1''"

subsection \<open>Statements\<close>

text \<open>The message \<open>Validity\<close>, with optional timestamps.\<close>

record validity_msg =
  vm_not_before :: "seconds_nanos option"
  vm_not_after :: "seconds_nanos option"

record endorsement_details =
  ed_subject_digest :: "raw_digest option"
  ed_valid :: "validity_msg option"
  ed_claim_types :: "string list"

definition validity_to_proto :: "validity \<Rightarrow> (validity_msg, 'e) result" where
  "validity_to_proto value =
     bind_result (into_timestamp (not_before value)) (\<lambda>nb.
     bind_result (into_timestamp (not_after value)) (\<lambda>na.
     Ok \<lparr>vm_not_before = Some nb, vm_not_after = Some na\<rparr>))"

definition validity_try_from :: "validity_msg \<Rightarrow> (validity, string) result" where
  "validity_try_from value =
     bind_result (ok_or ''not_before missing'' (vm_not_before value)) (\<lambda>nb.
     bind_result (ok_or ''not_after missing'' (vm_not_after value)) (\<lambda>na.
     Ok \<lparr>not_before = instant_of_proto nb, not_after = instant_of_proto na\<rparr>))"

definition parse_statement :: "('v, 's, 'z) release_lib_scheme \<Rightarrow> bytes \<Rightarrow> (statement, string anyhow) result" where
  "parse_statement L bytes = ok_or (Msg ''serde_json'') (json_statement_from L bytes)"

definition serialize_statement :: "('v, 's, 'z) release_lib_scheme \<Rightarrow> statement \<Rightarrow> (bytes, string anyhow) result" where
  "serialize_statement L statement =
     bind_result (serialize_instant L (issued_on (st_predicate statement))) (\<lambda>_.
     bind_result
       (case pr_validity (st_predicate statement) of
          Some v \<Rightarrow> bind_result (serialize_instant L (not_before v)) (\<lambda>_. serialize_instant L (not_after v))
        | None \<Rightarrow> Ok []) (\<lambda>_.
     ok_or (Msg ''serde_json'') (json_statement_to L statement)))"

definition make_statement ::
  "string \<Rightarrow> hex_digest \<Rightarrow> instant \<Rightarrow> instant \<Rightarrow> instant \<Rightarrow> string list \<Rightarrow> statement" where
  "make_statement subject_name digest issued nb na claim_types =
     (let digest_set = hex_to_set_digest digest in
      \<lparr>st_type = STATEMENT_TYPE, st_predicate_type = PREDICATE_TYPE_V1,
       st_subject = [\<lparr>su_name = subject_name, su_digest = digest_set\<rparr>],
       st_predicate =
         \<lparr>issued_on = issued, pr_validity = Some \<lparr>not_before = nb, not_after = na\<rparr>,
          pr_claims = map (\<lambda>x. \<lparr>claim_type = x\<rparr>) claim_types\<rparr>\<rparr>)"

definition get_hex_digest_from_statement :: "statement \<Rightarrow> (hex_digest, string anyhow) result" where
  "get_hex_digest_from_statement statement =
     (if length (st_subject statement) \<noteq> 1
      then Err (MsgWith ''expected a single subject, found '' (show_nat (length (st_subject statement))))
      else set_to_hex_digest (su_digest (st_subject statement ! 0)))"

definition validate_subject_digest :: "statement \<Rightarrow> hex_digest \<Rightarrow> (unit, string anyhow) result" where
  "validate_subject_digest statement digest =
     bind_result (get_hex_digest_from_statement statement) (\<lambda>actual.
     context_err ''comparing subject digests'' (is_hex_digest_match digest actual))"

definition validate_subject :: "('v, 's, 'z) release_lib_scheme \<Rightarrow> statement \<Rightarrow> bytes \<Rightarrow> (unit, string anyhow) result" where
  "validate_subject L statement subject =
     (let digest = raw_to_hex_digest L (raw_digest_from_contents L subject) in validate_subject_digest statement digest)"

definition validate_header :: "statement \<Rightarrow> (unit, string anyhow) result" where
  "validate_header statement =
     (if st_type statement \<noteq> STATEMENT_TYPE then bail ''unsupported statement type''
      else if st_predicate_type statement \<noteq> PREDICATE_TYPE_V1 then bail ''unsupported predicate type''
      else Ok ())"

text \<open>The loop over the required claims.\<close>

fun require_claims :: "claim list \<Rightarrow> string list \<Rightarrow> (unit, string anyhow) result" where
  "require_claims cs [] = Ok ()"
| "require_claims cs (ct # cts) =
     bind_result (ok_or (Msg ''required claim type not found'') (find (\<lambda>k. claim_type k = ct) cs)) (\<lambda>_. require_claims cs cts)"

definition predicate_validate :: "default_predicate \<Rightarrow> instant \<Rightarrow> string list \<Rightarrow> (unit, string anyhow) result" where
  "predicate_validate p current_time required_claims =
     bind_result
       (case pr_validity p of
          Some validity \<Rightarrow>
            if before current_time (not_before validity) then bail ''the claim is not yet applicable''
            else if before (not_after validity) current_time then bail ''the claim is no longer applicable''
            else Ok ()
        | None \<Rightarrow> bail ''the validity field is not set'') (\<lambda>_.
     require_claims (pr_claims p) required_claims)"

definition validate :: "statement \<Rightarrow> hex_digest option \<Rightarrow> instant \<Rightarrow> string list \<Rightarrow> (unit, string anyhow) result" where
  "validate statement digest verification_time required_claims =
     bind_result (validate_header statement) (\<lambda>_.
     bind_result (case digest of Some d \<Rightarrow> validate_subject_digest statement d | None \<Rightarrow> Ok ()) (\<lambda>_.
     predicate_validate (st_predicate statement) verification_time required_claims))"

definition get_details ::
  "('v, 's, 'z) release_lib_scheme \<Rightarrow> statement \<Rightarrow> (endorsement_details, string anyhow) result" where
  "get_details L statement =
     bind_result (get_hex_digest_from_statement statement) (\<lambda>hex.
     bind_result (hex_to_raw_digest L hex) (\<lambda>digest.
     bind_result (ok_or (Msg ''missing validity in statement'') (pr_validity (st_predicate statement))) (\<lambda>validity.
     bind_result (validity_to_proto validity) (\<lambda>valid.
     Ok \<lparr>ed_subject_digest = Some digest, ed_valid = Some valid,
         ed_claim_types = map claim_type (pr_claims (st_predicate statement))\<rparr>))))"


subsection \<open>Rekor\<close>

text \<open>
  \<open>key_set.signed_timestamp\<close>: bounds on the time of the signature, absolute or relative to the
  current time.
\<close>

definition verify_timestamp ::
  "('v, 's, 'z) release_lib_scheme \<Rightarrow> instant \<Rightarrow> instant \<Rightarrow> timestamp_reference_value \<Rightarrow> (unit, string anyhow) result" where
  "verify_timestamp L current_time timestamp reference_value =
     bind_result
       (case not_before_absolute reference_value of
          Some nb \<Rightarrow>
            (let not_before_absolute_time = instant_of_proto nb in
             if before timestamp not_before_absolute_time then
               bind_result (serialize_instant L timestamp) (\<lambda>t.
               bind_result (serialize_instant L not_before_absolute_time) (\<lambda>bound.
               Err (MsgWith ''Timestamp is too early: timestamp = '' (t @ '', must not be before = '' @ bound))))
             else Ok ())
        | None \<Rightarrow> Ok ()) (\<lambda>_.
     case not_before_relative reference_value of
       Some nb \<Rightarrow>
         (let offset = duration_of_proto nb in
          if before timestamp (instant_add current_time offset) then
            bind_result (serialize_instant L timestamp) (\<lambda>t.
            bind_result (serialize_instant L (instant_add current_time offset)) (\<lambda>bound.
            bind_result (serialize_instant L current_time) (\<lambda>current.
            Err (MsgWith ''Timestamp is out of range: timestamp = '' (t @ '', range ['' @ bound @ '', '' @ current @ '']'')))))
          else Ok ())
     | None \<Rightarrow> Ok ())"

definition entry_body :: "('v, 's, 'z) release_lib_scheme \<Rightarrow> log_entry \<Rightarrow> (body, string anyhow) result" where
  "entry_body L entry =
     bind_result (ok_or (Msg ''failed to decode log entry body'') (b64_decode L (le_body entry))) (\<lambda>body_bytes.
     ok_or (Msg ''couldn't parse log entry body'') (json_body_from L body_bytes))"

definition body_public_key :: "('v, 's, 'z) release_lib_scheme \<Rightarrow> body \<Rightarrow> (bytes, string anyhow) result" where
  "body_public_key L body =
     bind_result (ok_or (Msg ''failed to base64-decode public key'') (b64_decode L (bd_public_key_content body))) (\<lambda>pem_vec.
     bind_result (ok_or (Msg ''failed to convert public key to string'') (from_utf8 pem_vec)) (\<lambda>public_key_pem.
     convert_pem_to_raw L public_key_pem))"

definition get_public_key :: "('v, 's, 'z) release_lib_scheme \<Rightarrow> log_entry \<Rightarrow> (bytes, string anyhow) result" where
  "get_public_key L entry = bind_result (entry_body L entry) (body_public_key L)"

definition compare_public_key :: "('v, 's, 'z) release_lib_scheme \<Rightarrow> log_entry \<Rightarrow> bytes \<Rightarrow> (unit, string anyhow) result" where
  "compare_public_key L entry public_key =
     bind_result (get_public_key L entry) (\<lambda>self_public_key.
     bind_result (equal_keys L self_public_key public_key) (\<lambda>eq.
     if \<not> eq then bail ''endorser public key mismatch'' else Ok ()))"

definition parse_rekor_log_entry ::
  "('v, 's, 'z) release_lib_scheme \<Rightarrow> bytes \<Rightarrow> (log_entry, string anyhow) result" where
  "parse_rekor_log_entry L serialized_log_entry =
     bind_result (ok_or (Msg ''couldn't parse log entry map'') (json_log_entries_from L serialized_log_entry)) (\<lambda>parsed.
     case entries parsed of [] \<Rightarrow> bail ''unexpected empty map'' | (_, log_entry) # _ \<Rightarrow> Ok log_entry)"

definition serialize_rekor_log_entry ::
  "('v, 's, 'z) release_lib_scheme \<Rightarrow> log_entry \<Rightarrow> (bytes, string anyhow) result" where
  "serialize_rekor_log_entry L log_entry =
     ok_or (Msg ''serde_json'') (json_log_entries_to L (btm_collect [(''unknown_uuid'', log_entry)]))"

definition DQ :: char where "DQ = CHR 0x22"

definition create_canonical_json :: "log_entry \<Rightarrow> (bytes, string anyhow) result" where
  "create_canonical_json log_entry =
     (if DQ \<in> set (le_body log_entry) then bail ''unexpected quotes in log entry body''
      else if DQ \<in> set (le_log_id log_entry) then bail ''unexpected quotes in log entry ID''
      else
        Ok (str_bytes
          (''{'' @ [DQ] @ ''body'' @ [DQ] @ '':'' @ [DQ] @ le_body log_entry @ [DQ] @
           '','' @ [DQ] @ ''integratedTime'' @ [DQ] @ '':'' @ show_nat (unat (le_integrated_time log_entry)) @
           '','' @ [DQ] @ ''logID'' @ [DQ] @ '':'' @ [DQ] @ le_log_id log_entry @ [DQ] @
           '','' @ [DQ] @ ''logIndex'' @ [DQ] @ '':'' @ show_nat (unat (le_log_index log_entry)) @ ''}'')))"

definition parse_rekor_signature :: "('v, 's, 'z) release_lib_scheme \<Rightarrow> log_entry \<Rightarrow> (bytes, string anyhow) result" where
  "parse_rekor_signature L log_entry =
     bind_result (ok_or (Msg ''no verification field in the log entry'') (le_verification log_entry)) (\<lambda>sig_base64.
     ok_or (Msg ''failed to base64-decode Rekor signature'') (b64_decode L sig_base64))"

definition verify_rekor_signature ::
  "('v, 's, 'z) release_lib_scheme \<Rightarrow> log_entry \<Rightarrow> bytes \<Rightarrow> (unit, string anyhow) result" where
  "verify_rekor_signature L log_entry rekor_public_key =
     bind_result (create_canonical_json log_entry) (\<lambda>json.
     bind_result (parse_rekor_signature L log_entry) (\<lambda>signature.
     context_err ''verifying rekor signature'' (verify_signature_ecdsa L signature json rekor_public_key)))"

definition verify_rekor_body :: "('v, 's, 'z) release_lib_scheme \<Rightarrow> body \<Rightarrow> bytes \<Rightarrow> (unit, string anyhow) result" where
  "verify_rekor_body L body artifact_bytes =
     (if bd_kind body \<noteq> ''rekord'' \<and> bd_kind body \<noteq> ''hashedrekord'' then Err (MsgWith ''unsupported Rekor type: '' (bd_kind body))
      else if bd_hash_algorithm body \<noteq> ''sha256''
      then Err (MsgWith ''unsupported hashing algorithm: '' (bd_hash_algorithm body))
      else if to_hex L (Sha256 (sha256_from_contents L artifact_bytes)) \<noteq> bd_hash_value body
      then Err (MsgWith ''hash of artifact does not match hash in Rekor log entry'' (bd_hash_value body))
      else
        bind_result (ok_or (Msg ''failed to base64-decode signature'') (b64_decode L (bd_signature_content body))) (\<lambda>signature.
        bind_result (body_public_key L body) (\<lambda>public_key.
        context_err ''verifying endorsement signature'' (verify_signature_ecdsa L signature artifact_bytes public_key))))"

text \<open>\<open>usize\<close> to \<open>i64\<close>.\<close>

definition try_time :: "u64 \<Rightarrow> (int, string anyhow) result" where
  "try_time t = ok_or (Msg ''out of range integral type conversion attempted'') (try_i64 (uint t))"

definition verify_rekor_log_entry ::
  "('v, 's, 'z) release_lib_scheme \<Rightarrow> bytes \<Rightarrow> verifying_key_set \<Rightarrow> bytes \<Rightarrow> int \<Rightarrow> (log_entry, string anyhow) result" where
  "verify_rekor_log_entry L serialized_log_entry key_set artifact_bytes now_utc_millis =
     bind_result (context_err ''parsing Rekor log entry'' (parse_rekor_log_entry L serialized_log_entry)) (\<lambda>log_entry.
     if \<not> list_ex (\<lambda>k. is_ok (verify_rekor_signature L log_entry (vk_raw k))) (ks_keys key_set)
     then bail ''could not verify rekor signature''
     else
       bind_result
         (case ks_signed_timestamp key_set of
            Some signed_timestamp \<Rightarrow>
              bind_result (try_time (le_integrated_time log_entry)) (\<lambda>time.
              context_err ''verifying rekor integrate timestamp''
                (verify_timestamp L (from_unix_millis now_utc_millis) (from_unix_seconds time) signed_timestamp))
          | None \<Rightarrow> Ok ()) (\<lambda>_.
       bind_result (entry_body L log_entry) (\<lambda>body.
       bind_result (context_err ''verifying Rekor body'' (verify_rekor_body L body artifact_bytes)) (\<lambda>_.
       Ok log_entry))))"

definition verify_rekor_log_entry_ecdsa ::
  "('v, 's, 'z) release_lib_scheme \<Rightarrow> bytes \<Rightarrow> bytes \<Rightarrow> bytes \<Rightarrow> (log_entry, string anyhow) result" where
  "verify_rekor_log_entry_ecdsa L serialized_log_entry rekor_public_key artifact_bytes =
     bind_result (context_err ''parsing Rekor log entry'' (parse_rekor_log_entry L serialized_log_entry)) (\<lambda>log_entry.
     bind_result (context_err ''verifying Rekor signature'' (verify_rekor_signature L log_entry rekor_public_key)) (\<lambda>_.
     bind_result (entry_body L log_entry) (\<lambda>body.
     bind_result (context_err ''verifying Rekor body'' (verify_rekor_body L body artifact_bytes)) (\<lambda>_.
     Ok log_entry))))"


subsection \<open>What a valid statement says\<close>

definition statement_valid :: "statement \<Rightarrow> instant \<Rightarrow> string list \<Rightarrow> bool" where
  "statement_valid st now required \<longleftrightarrow>
     st_type st = STATEMENT_TYPE \<and> st_predicate_type st = PREDICATE_TYPE_V1 \<and>
     (\<exists>v. pr_validity (st_predicate st) = Some v \<and> \<not> before now (not_before v) \<and> \<not> before (not_after v) now) \<and>
     set required \<subseteq> claim_type ` set (pr_claims (st_predicate st))"

definition statement_about :: "statement \<Rightarrow> hex_digest \<Rightarrow> bool" where
  "statement_about st d \<longleftrightarrow>
     (\<exists>s h. st_subject st = [s] \<and> set_to_hex_digest (su_digest s) = Ok h \<and> get_hex_digest_match d h = Same)"

lemma require_claims_Ok: "require_claims cs cts = Ok () \<longleftrightarrow> set cts \<subseteq> claim_type ` set cs"
proof (induction cts)
  case (Cons ct cts)
  have "(\<exists>x. find (\<lambda>k. claim_type k = ct) cs = Some x) \<longleftrightarrow> ct \<in> claim_type ` set cs"
    using find_None_iff [of "\<lambda>k. claim_type k = ct" cs] by (cases "find (\<lambda>k. claim_type k = ct) cs") (auto simp: find_Some_iff)
  with Cons show ?case by (auto simp: result_simps)
qed simp

lemma predicate_validate_Ok:
  "predicate_validate p now cts = Ok () \<longleftrightarrow>
     (\<exists>v. pr_validity p = Some v \<and> \<not> before now (not_before v) \<and> \<not> before (not_after v) now) \<and>
     set cts \<subseteq> claim_type ` set (pr_claims p)"
  by (auto simp: predicate_validate_def result_simps require_claims_Ok bail_def split: option.splits if_splits)

lemma validate_header_Ok:
  "validate_header st = Ok () \<longleftrightarrow> st_type st = STATEMENT_TYPE \<and> st_predicate_type st = PREDICATE_TYPE_V1"
  by (simp add: validate_header_def bail_def)

lemma hex_match_Ok: "is_hex_digest_match a b = Ok () \<longleftrightarrow> get_hex_digest_match a b = Same"
  by (cases "get_hex_digest_match a b") (simp_all add: is_hex_digest_match_def bail_def)

lemma validate_subject_digest_Ok: "validate_subject_digest st d = Ok () \<longleftrightarrow> statement_about st d"
  by (cases "st_subject st")
    (auto simp: validate_subject_digest_def get_hex_digest_from_statement_def statement_about_def result_simps
      context_err_def hex_match_Ok)

lemma validate_Ok:
  "validate st digest now required = Ok () \<longleftrightarrow>
     statement_valid st now required \<and> (case digest of Some d \<Rightarrow> statement_about st d | None \<Rightarrow> True)"
  by (auto simp: validate_def result_simps validate_header_Ok validate_subject_digest_Ok predicate_validate_Ok
      statement_valid_def split: option.splits)

text \<open>A statement that was made is valid in its period, for its claims, and about its digest.\<close>

lemma make_statement_valid:
  "statement_valid (make_statement name digest issued nb na cts) now required \<longleftrightarrow>
     \<not> before now nb \<and> \<not> before na now \<and> set required \<subseteq> set cts"
  by (simp add: statement_valid_def make_statement_def Let_def image_image)

lemma make_statement_about:
  "statement_about (make_statement name digest issued nb na cts) d \<longleftrightarrow> get_hex_digest_match d digest = Same"
  by (simp add: statement_about_def make_statement_def Let_def set_hex_round_trip)

text \<open>The curated view of a statement reads back as its validity.\<close>

lemma validity_proto_round_trip:
  assumes "\<bar>nanoseconds (not_before v)\<bar> < 2 ^ 63 * SECONDS_TO_NANOS" "\<bar>nanoseconds (not_after v)\<bar> < 2 ^ 63 * SECONDS_TO_NANOS"
    "validity_to_proto v = (Ok m :: (validity_msg, string) result)"
  shows "validity_try_from m = Ok v"
  using assms(3) timestamp_round_trip [where 'a = string, OF assms(1)] timestamp_round_trip [where 'a = string, OF assms(2)]
  by (cases v) (auto simp: validity_to_proto_def validity_try_from_def result_simps)


subsection \<open>What Rekor signs\<close>

text \<open>The bytes that Rekor signs determine the four fields of the entry.\<close>

lemma DQ_not_digit: "DQ \<notin> set (show_nat n)" "CHR '','' \<notin> set (show_nat n)" "CHR ''}'' \<notin> set (show_nat n)"
  using show_nat_range [of _ n] by (force simp: DQ_def)+

lemma canonical_json_inject:
  assumes "create_canonical_json e = Ok j" "create_canonical_json e' = Ok j"
  shows "le_body e = le_body e' \<and> le_integrated_time e = le_integrated_time e' \<and> le_log_id e = le_log_id e' \<and>
    le_log_index e = le_log_index e'"
proof -
  have q: "DQ \<notin> set (le_body e)" "DQ \<notin> set (le_body e')" "DQ \<notin> set (le_log_id e)" "DQ \<notin> set (le_log_id e')"
    using assms by (auto simp: create_canonical_json_def bail_def split: if_splits)
  have "j = str_bytes (''{'' @ [DQ] @ ''body'' @ [DQ] @ '':'' @ [DQ] @ le_body x @ [DQ] @
           '','' @ [DQ] @ ''integratedTime'' @ [DQ] @ '':'' @ show_nat (unat (le_integrated_time x)) @
           '','' @ [DQ] @ ''logID'' @ [DQ] @ '':'' @ [DQ] @ le_log_id x @ [DQ] @
           '','' @ [DQ] @ ''logIndex'' @ [DQ] @ '':'' @ show_nat (unat (le_log_index x)) @ ''}'')"
    if "create_canonical_json x = Ok j" for x
    using that by (auto simp: create_canonical_json_def bail_def split: if_splits)
  from this [OF assms(1)] this [OF assms(2)] have "le_body e @ DQ # ('','' @ [DQ] @ ''integratedTime'' @ [DQ] @ '':'' @
       show_nat (unat (le_integrated_time e)) @ '','' @ [DQ] @ ''logID'' @ [DQ] @ '':'' @ [DQ] @ le_log_id e @ [DQ] @
       '','' @ [DQ] @ ''logIndex'' @ [DQ] @ '':'' @ show_nat (unat (le_log_index e)) @ ''}'') =
     le_body e' @ DQ # ('','' @ [DQ] @ ''integratedTime'' @ [DQ] @ '':'' @
       show_nat (unat (le_integrated_time e')) @ '','' @ [DQ] @ ''logID'' @ [DQ] @ '':'' @ [DQ] @ le_log_id e' @ [DQ] @
       '','' @ [DQ] @ ''logIndex'' @ [DQ] @ '':'' @ show_nat (unat (le_log_index e')) @ ''}'')"
    by simp
  from append_separator_inject [OF q(1,2) this]
  have b: "le_body e = le_body e'" and r: "show_nat (unat (le_integrated_time e)) @ CHR '','' # ([DQ] @ ''logID'' @ [DQ] @ '':'' @
       [DQ] @ le_log_id e @ [DQ] @ '','' @ [DQ] @ ''logIndex'' @ [DQ] @ '':'' @ show_nat (unat (le_log_index e)) @ ''}'') =
     show_nat (unat (le_integrated_time e')) @ CHR '','' # ([DQ] @ ''logID'' @ [DQ] @ '':'' @
       [DQ] @ le_log_id e' @ [DQ] @ '','' @ [DQ] @ ''logIndex'' @ [DQ] @ '':'' @ show_nat (unat (le_log_index e')) @ ''}'')"
    by simp_all
  from append_separator_inject [OF DQ_not_digit(2,2) r]
  have t: "show_nat (unat (le_integrated_time e)) = show_nat (unat (le_integrated_time e'))" and
    r: "le_log_id e @ DQ # ('','' @ [DQ] @ ''logIndex'' @ [DQ] @ '':'' @ show_nat (unat (le_log_index e)) @ ''}'') =
     le_log_id e' @ DQ # ('','' @ [DQ] @ ''logIndex'' @ [DQ] @ '':'' @ show_nat (unat (le_log_index e')) @ ''}'')"
    by simp_all
  from append_separator_inject [OF q(3,4) r] have "le_log_id e = le_log_id e'"
    "show_nat (unat (le_log_index e)) = show_nat (unat (le_log_index e'))" by simp_all
  with b t show ?thesis by (simp add: show_nat_inject word_unat_eq_iff)
qed


subsection \<open>What a verified entry guarantees\<close>

text \<open>The endorser's signature in the body of an entry, for the artifact, and Rekor's signature on the entry.\<close>

definition entry_signed_by :: "('v, 's, 'z) release_lib_scheme \<Rightarrow> log_entry \<Rightarrow> bytes \<Rightarrow> bytes \<Rightarrow> bool" where
  "entry_signed_by L e artifact pk \<longleftrightarrow>
     (\<exists>b sig. entry_body L e = Ok b \<and> bd_kind b \<in> {''rekord'', ''hashedrekord''} \<and> bd_hash_algorithm b = ''sha256'' \<and>
        bd_hash_value b = hex_encode L (sha256 L artifact) \<and> body_public_key L b = Ok pk \<and>
        b64_decode L (bd_signature_content b) = Some sig \<and> ecdsa_signed L pk artifact sig)"

definition entry_logged_by :: "('v, 's, 'z) release_lib_scheme \<Rightarrow> log_entry \<Rightarrow> bytes \<Rightarrow> bool" where
  "entry_logged_by L e raw \<longleftrightarrow>
     (\<exists>j v sig. create_canonical_json e = Ok j \<and> le_verification e = Some v \<and> b64_decode L v = Some sig \<and>
        ecdsa_signed L raw j sig)"

definition timestamp_in_range :: "instant \<Rightarrow> instant \<Rightarrow> timestamp_reference_value \<Rightarrow> bool" where
  "timestamp_in_range now t rv \<longleftrightarrow>
     (\<forall>nb. not_before_absolute rv = Some nb \<longrightarrow> \<not> before t (instant_of_proto nb)) \<and>
     (\<forall>nb. not_before_relative rv = Some nb \<longrightarrow> \<not> before t (instant_add now (duration_of_proto nb)))"

lemma verify_timestamp_Ok: "verify_timestamp L now t rv = Ok () \<longleftrightarrow> timestamp_in_range now t rv"
  by (auto simp: verify_timestamp_def timestamp_in_range_def Let_def result_simps split: option.splits if_splits)

text \<open>
  The check panics when a bound is violated and the message about it has an instant that cannot be
  printed.
\<close>

definition timestamp_panics ::
  "('v, 's, 'z) release_lib_scheme \<Rightarrow> instant \<Rightarrow> instant \<Rightarrow> timestamp_reference_value \<Rightarrow> bool" where
  "timestamp_panics L now t rv \<longleftrightarrow>
     (case not_before_absolute rv of
        Some nb \<Rightarrow> before t (instant_of_proto nb) \<and> \<not> (printable L t \<and> printable L (instant_of_proto nb))
      | None \<Rightarrow> False) \<or>
     (\<forall>nb. not_before_absolute rv = Some nb \<longrightarrow> \<not> before t (instant_of_proto nb)) \<and>
     (case not_before_relative rv of
        Some nb \<Rightarrow>
          (let bound = instant_add now (duration_of_proto nb) in
           before t bound \<and> \<not> (printable L t \<and> printable L bound \<and> printable L now))
      | None \<Rightarrow> False)"

lemma verify_timestamp_Panic: "verify_timestamp L now t rv = Panic \<longleftrightarrow> timestamp_panics L now t rv"
  by (auto simp: verify_timestamp_def timestamp_panics_def Let_def serialize_instant_eq split: option.splits)

text \<open>The entry whose time cannot be checked: one that Rekor did log.\<close>

definition rekor_panics :: "('v, 's, 'z) release_lib_scheme \<Rightarrow> bytes \<Rightarrow> verifying_key_set \<Rightarrow> int \<Rightarrow> bool" where
  "rekor_panics L s ks now \<longleftrightarrow>
     (\<exists>e ts. parse_rekor_log_entry L s = Ok e \<and> (\<exists>k \<in> set (ks_keys ks). entry_logged_by L e (vk_raw k)) \<and>
        ks_signed_timestamp ks = Some ts \<and> uint (le_integrated_time e) < 2 ^ 63 \<and>
        timestamp_panics L (from_unix_millis now) (from_unix_seconds (uint (le_integrated_time e))) ts)"

lemma verify_rekor_body_Ok:
  assumes "entry_body L e = Ok b"
  shows "verify_rekor_body L b artifact = Ok () \<longleftrightarrow> (\<exists>pk. entry_signed_by L e artifact pk)"
  using assms by (auto simp: verify_rekor_body_def entry_signed_by_def result_simps context_err_def to_hex_def
      sha256_from_contents_def)

lemma verify_rekor_signature_Ok: "verify_rekor_signature L e raw = Ok () \<longleftrightarrow> entry_logged_by L e raw"
  by (auto simp: verify_rekor_signature_def parse_rekor_signature_def entry_logged_by_def result_simps context_err_def)

lemma is_ok_unit: "is_ok r \<longleftrightarrow> r = Ok ()"
  by (cases r) simp_all

lemma verify_rekor_log_entry_Ok:
  "verify_rekor_log_entry L s ks artifact now = Ok e \<longleftrightarrow>
     parse_rekor_log_entry L s = Ok e \<and> (\<exists>k \<in> set (ks_keys ks). entry_logged_by L e (vk_raw k)) \<and>
     (\<forall>ts. ks_signed_timestamp ks = Some ts \<longrightarrow> uint (le_integrated_time e) < 2 ^ 63 \<and>
        timestamp_in_range (from_unix_millis now) (from_unix_seconds (uint (le_integrated_time e))) ts) \<and>
     (\<exists>pk. entry_signed_by L e artifact pk)"
proof -
  have t: "(case ks_signed_timestamp ks of
        Some ts \<Rightarrow> bind_result (try_time (le_integrated_time e)) (\<lambda>time. context_err msg
          (verify_timestamp L (from_unix_millis now) (from_unix_seconds time) ts))
      | None \<Rightarrow> Ok ()) = Ok () \<longleftrightarrow>
     (\<forall>ts. ks_signed_timestamp ks = Some ts \<longrightarrow> uint (le_integrated_time e) < 2 ^ 63 \<and>
        timestamp_in_range (from_unix_millis now) (from_unix_seconds (uint (le_integrated_time e))) ts)" for e msg
  proof -
    have "- (2 ^ 63) \<le> uint (le_integrated_time e)" by (rule order_trans [OF _ uint_ge_0]) simp
    then show ?thesis
      by (auto simp: result_simps context_err_def verify_timestamp_Ok try_time_def try_i64_def is_i64_def
          split: option.splits if_splits)
  qed
  have b: "(\<exists>b. entry_body L e = Ok b \<and> verify_rekor_body L b artifact = Ok ()) \<longleftrightarrow> (\<exists>pk. entry_signed_by L e artifact pk)" for e
    using verify_rekor_body_Ok [of L e] by (auto simp: entry_signed_by_def)
  show ?thesis
    unfolding verify_rekor_log_entry_def b [symmetric] t [symmetric, of _ "''verifying rekor integrate timestamp''"]
    by (auto simp: bind_result_Ok_iff context_err_def bail_def list_ex_iff is_ok_unit verify_rekor_signature_Ok simp del: split_paired_Ex
        split: if_splits)
qed

lemma compare_public_key_Ok:
  "compare_public_key L e raw = Ok () \<longleftrightarrow>
     (\<exists>pk k. get_public_key L e = Ok pk \<and> p256_key L pk = Some k \<and> p256_key L raw = Some k)"
  by (auto simp: compare_public_key_def result_simps bail_def equal_keys_Ok split: if_splits)

lemma get_public_key_signed: "entry_signed_by L e artifact pk \<Longrightarrow> get_public_key L e = Ok pk' \<longleftrightarrow> pk' = pk"
  by (auto simp: entry_signed_by_def get_public_key_def)

text \<open>None of these calls panics.\<close>

lemma fill_no_panic [simp]: "fill f u d k x \<noteq> Panic"
  by (simp add: fill_def)

lemma set_field_no_panic [simp]: "set_digest_field_from_map_entry d k x \<noteq> Panic"
  unfolding set_digest_field_from_map_entry_def by (intro if_no_panic fill_no_panic) simp_all

lemma set_to_hex_digest_no_panic [simp]: "set_to_hex_digest s \<noteq> Panic"
proof -
  have "set_fields d es \<noteq> Panic" for d es by (induction d es rule: set_fields.induct) (auto simp: result_simps)
  then show ?thesis by (simp add: set_to_hex_digest_def)
qed

lemma hex_match_no_panic [simp]: "is_hex_digest_match a b \<noteq> Panic"
  by (cases "get_hex_digest_match a b") (simp_all add: is_hex_digest_match_def bail_def)

lemma require_claims_no_panic [simp]: "require_claims cs cts \<noteq> Panic"
  by (induction cts) (auto simp: result_simps)

lemma validate_no_panic [simp]: "validate st digest now required \<noteq> Panic"
  by (auto simp: validate_def validate_header_def validate_subject_digest_def get_hex_digest_from_statement_def
      predicate_validate_def result_simps context_err_def bail_def split: option.splits if_splits)

lemma body_public_key_no_panic [simp]: "body_public_key L b \<noteq> Panic"
  by (auto simp: body_public_key_def result_simps)

lemma entry_body_no_panic [simp]: "entry_body L e \<noteq> Panic"
  by (auto simp: entry_body_def result_simps)

lemma compare_public_key_no_panic [simp]: "compare_public_key L e raw \<noteq> Panic"
  by (auto simp: compare_public_key_def get_public_key_def result_simps bail_def split: if_splits)

lemma parse_rekor_no_panic [simp]: "parse_rekor_log_entry L s \<noteq> Panic"
  by (auto simp: parse_rekor_log_entry_def result_simps bail_def split: list.splits)

lemma verify_rekor_body_no_panic [simp]: "verify_rekor_body L b artifact \<noteq> Panic"
  unfolding verify_rekor_body_def by (intro if_no_panic) (auto simp: result_simps context_err_def)

text \<open>The time check is the only one that does.\<close>

lemma try_time_eq:
  "try_time t = (if uint t < 2 ^ 63 then Ok (uint t) else Err (Msg ''out of range integral type conversion attempted''))"
proof -
  have "- (2 ^ 63) \<le> uint t" by (rule order_trans [OF _ uint_ge_0]) simp
  then show ?thesis by (simp add: try_time_def try_i64_def is_i64_def)
qed

lemma context_Panic [simp]: "context_err s m = Panic \<longleftrightarrow> m = Panic"
  by (simp add: context_err_def)

lemma verify_rekor_log_entry_Panic:
  "verify_rekor_log_entry L s ks artifact now = Panic \<longleftrightarrow> rekor_panics L s ks now"
  unfolding verify_rekor_log_entry_def rekor_panics_def
  by (auto simp: result_simps bail_def try_time_eq verify_timestamp_Panic list_ex_iff is_ok_unit verify_rekor_signature_Ok
      split: option.splits if_splits)

text \<open>An entry is read back from its serialized form.\<close>

lemma rekor_log_entry_round_trip:
  assumes "\<And>m b. json_log_entries_to L m = Some b \<Longrightarrow> json_log_entries_from L b = Some m"
    "serialize_rekor_log_entry L e = Ok b"
  shows "parse_rekor_log_entry L b = Ok e"
  using assms(2) by (auto simp: serialize_rekor_log_entry_def parse_rekor_log_entry_def dest: assms(1))

end
