(* ===== verification/Release_Endorsement.thy ===== *)
theory Release_Endorsement
  imports Release_Statement
begin

section \<open>Verification of endorsements\<close>

text \<open>
  \<^verbatim>\<open>tr/pes/{lib,json,pae}.rs\<close>: confirmations of the public endorsement service, and
  \<^verbatim>\<open>tr/verify_endorsement/lib.rs\<close>: an endorsement is accepted when a trusted endorser signed it, its
  statement is valid, and the transparency logs that the reference values ask for contain it. The
  quorum check of a log proof needs fuel, the number \<open>n\<close>; running out of it is \<open>None\<close>.
\<close>

subsection \<open>Confirmations of the public endorsement service\<close>

definition material_of_json :: "json_verification_material \<Rightarrow> verification_material option" where
  "material_of_json value =
     (case jv_x509_certificate value of
        Some x509 \<Rightarrow> Some (X509Certificate x509)
      | None \<Rightarrow> map_option EcdsaP256PublicKey (jv_ecdsa_p256_sha256 value))"

definition signature_of_json :: "json_signature \<Rightarrow> pes_signature" where
  "signature_of_json value =
     \<lparr>ps_signature = js_signature value,
      ps_verification_material = map_option material_of_json (js_verification_material value)\<rparr>"

definition statement_of_json :: "json_statement \<Rightarrow> pes_statement" where
  "statement_of_json value =
     \<lparr>pt_format = (if jt_format value = Some ''JSON_INTOTO'' then JsonIntoto else StatementUnspecified),
      pt_serialized = jt_serialized value\<rparr>"

definition receipt_of_json :: "json_tlog_receipt \<Rightarrow> pes_tlog_receipt" where
  "receipt_of_json value = \<lparr>pr_entry_id = (case jr_entry_id value of Some i \<Rightarrow> i | None \<Rightarrow> [])\<rparr>"

definition public_endorsement_of_json :: "json_public_endorsement \<Rightarrow> public_endorsement" where
  "public_endorsement_of_json value =
     \<lparr>pe_name = (case je_name value of Some s \<Rightarrow> s | None \<Rightarrow> []),
      pe_statement = map_option statement_of_json (je_statement value),
      pe_statement_signature = map_option signature_of_json (je_statement_signature value),
      pe_endorsement_signatures =
        map signature_of_json (case je_endorsement_signatures value of Some l \<Rightarrow> l | None \<Rightarrow> []),
      pe_tlog_receipt = map_option receipt_of_json (je_tlog_receipt value)\<rparr>"

definition parse_pes_confirmation ::
  "('v, 's, 'z) release_lib_scheme \<Rightarrow> bytes \<Rightarrow> (public_endorsement, string anyhow) result" where
  "parse_pes_confirmation L pes_confirmation_bytes =
     bind_result (context_err ''failed to parse PES confirmation JSON''
       (ok_or (Msg ''serde_json'') (json_pes_from L pes_confirmation_bytes))) (\<lambda>json_val.
     if je_statement json_val = None \<and> je_name json_val = None then bail ''JSON does not look like a PES confirmation''
     else Ok (public_endorsement_of_json json_val))"

text \<open>The pre-authentication encoding: every field is preceded by its length.\<close>

definition pae_encode :: "bytes \<Rightarrow> bytes" where
  "pae_encode obj = str_bytes [SP] @ str_bytes (show_nat (length obj)) @ str_bytes [SP] @ obj"

definition pae_calculate :: "bytes \<Rightarrow> bytes \<Rightarrow> bytes \<Rightarrow> string \<Rightarrow> bytes" where
  "pae_calculate endorsement_bytes endorser_key_der endorser_signature entry_id =
     str_bytes ''PES'' @ pae_encode endorsement_bytes @ pae_encode endorser_key_der @
     pae_encode endorser_signature @ pae_encode (str_bytes entry_id)"

definition extract_raw_vm_bytes :: "verification_material option \<Rightarrow> (bytes, string anyhow) result" where
  "extract_raw_vm_bytes vm =
     bind_result (ok_or (Msg ''missing verification_material oneof'') vm) (\<lambda>vm_oneof.
     case vm_oneof of
       X509Certificate der_bytes \<Rightarrow> Ok der_bytes
     | EcdsaP256PublicKey der_bytes \<Rightarrow> Ok der_bytes)"

definition extract_public_key_der ::
  "('v, 's, 'z) release_lib_scheme \<Rightarrow> verification_material option \<Rightarrow> (bytes, string anyhow) result" where
  "extract_public_key_der L vm =
     bind_result (ok_or (Msg ''missing verification_material oneof'') vm) (\<lambda>vm_oneof.
     case vm_oneof of
       X509Certificate der_bytes \<Rightarrow>
         bind_result (ok_or (Msg ''failed to parse PES X.509 cert'') (x509_subject_key L der_bytes)) (\<lambda>spki.
         ok_or (Msg ''failed to serialize SPKI'') spki)
     | EcdsaP256PublicKey der_bytes \<Rightarrow> Ok der_bytes)"

definition verify_pes_confirmation ::
  "('v, 's, 'z) release_lib_scheme \<Rightarrow> bytes \<Rightarrow> verifying_key_set \<Rightarrow> bytes \<Rightarrow> verifying_key_msg \<Rightarrow> (unit, string anyhow) result" where
  "verify_pes_confirmation L pes_confirmation_bytes key_set expected_endorsement_bytes trusted_endorser_key =
     bind_result (parse_pes_confirmation L pes_confirmation_bytes) (\<lambda>public_endorsement.
     bind_result (ok_or (Msg ''missing endorsement in PublicEndorsement'') (pe_statement public_endorsement)) (\<lambda>endorsement.
     bind_result (ok_or (Msg ''missing endorser_signature in PublicEndorsement'') (pe_statement_signature public_endorsement))
       (\<lambda>endorser_signature.
     bind_result (ok_or (Msg ''missing tlog_receipt in PublicEndorsement'') (pe_tlog_receipt public_endorsement)) (\<lambda>tlog_receipt.
     bind_result (ok_or (Msg ''missing verification_material'') (ps_verification_material endorser_signature)) (\<lambda>endorser_vm.
     bind_result (extract_raw_vm_bytes endorser_vm) (\<lambda>endorser_raw_vm_bytes.
     bind_result (context_err ''extracting endorser public key DER'' (extract_public_key_der L endorser_vm))
       (\<lambda>endorser_public_key_der.
     bind_result (context_err ''comparing endorser keys'' (equal_keys L endorser_public_key_der (vk_raw trusted_endorser_key)))
       (\<lambda>eq.
     if \<not> eq then bail ''endorser public key in PES confirmation does not match trusted endorser key''
     else
       let pae_bytes = pae_calculate (pt_serialized endorsement) endorser_raw_vm_bytes (ps_signature endorser_signature)
         (pr_entry_id tlog_receipt) in
       bind_result (ok_or (Msg ''no endorsement signatures found'')
         (case pe_endorsement_signatures public_endorsement of [] \<Rightarrow> None | s # _ \<Rightarrow> Some s)) (\<lambda>signature.
       bind_result (ok_or (Msg ''missing PES verification_material'') (ps_verification_material signature)) (\<lambda>pes_vm.
       bind_result (extract_public_key_der L pes_vm) (\<lambda>pes_public_key_der.
       bind_result (ok_or (Msg ''PES public key not found in trusted key set'')
         (find (\<lambda>k. vk_raw k = pes_public_key_der) (ks_keys key_set))) (\<lambda>trusted_key.
       bind_result
         (case vk_type trusted_key of
            KeyUndefined \<Rightarrow> bail ''Undefined key type''
          | EcdsaP256Sha256 \<Rightarrow>
              context_err ''failed to verify ECDSA signature''
                (verify_signature_ecdsa L (ps_signature signature) pae_bytes pes_public_key_der)
          | RsaSha2256 \<Rightarrow>
              context_err ''failed to verify RSA signature''
                (verify_signature_rsa L (ps_signature signature) pae_bytes pes_public_key_der)) (\<lambda>_.
       if sha256_from_contents L (pt_serialized endorsement) \<noteq> sha256_from_contents L expected_endorsement_bytes
       then bail ''endorsement digest mismatch'' else Ok ())))))))))))))"


subsection \<open>Making endorsements and reference values\<close>

definition FIRMWARE_CLAIM_TYPE :: string where
  "FIRMWARE_CLAIM_TYPE = ''https://github.com/project-oak/oak/blob/main/docs/tr/claim/10271.md''"

definition KERNEL_CLAIM_TYPE :: string where
  "KERNEL_CLAIM_TYPE = ''https://github.com/project-oak/oak/blob/main/docs/tr/claim/98982.md''"

definition MPM_CLAIM_TYPE :: string where
  "MPM_CLAIM_TYPE = ''https://github.com/project-oak/oak/blob/main/docs/tr/claim/31543.md''"

definition create_signed_endorsement ::
  "bytes \<Rightarrow> bytes \<Rightarrow> u32 \<Rightarrow> bytes \<Rightarrow> bytes \<Rightarrow> bytes \<Rightarrow> signed_endorsement" where
  "create_signed_endorsement serialized_endorsement signature key_id subject log_entry pes_confirmation =
     \<lparr>se_endorsement =
        Some \<lparr>en_format = FormatJsonIntoto, en_serialized = serialized_endorsement, en_subject = subject\<rparr>,
      se_signature = Some \<lparr>sg_key_id = key_id, sg_raw = signature\<rparr>,
      se_rekor_log_entry = log_entry, se_c2sp_tlog_proof = [], se_pes_confirmation = pes_confirmation\<rparr>"

definition create_endorsement_reference_value ::
  "verifying_key_msg \<Rightarrow> string list \<Rightarrow> tlog_reference_values \<Rightarrow> endorsement_reference_value" where
  "create_endorsement_reference_value endorser_key claim_types tlog =
     \<lparr>erv_endorser = Some \<lparr>ks_keys = [endorser_key], ks_signed_timestamp = None\<rparr>,
      erv_required_claims = Some claim_types, erv_rekor = None, erv_tlog = Some tlog\<rparr>"

definition create_verifying_key_from_pem ::
  "('v, 's, 'z) release_lib_scheme \<Rightarrow> string \<Rightarrow> u32 \<Rightarrow> (verifying_key_msg, 'e) result" where
  "create_verifying_key_from_pem L public_key_pem key_id =
     (case convert_pem_to_raw L public_key_pem of
        Ok public_key_raw \<Rightarrow> Ok \<lparr>vk_type = EcdsaP256Sha256, vk_key_id = key_id, vk_raw = public_key_raw\<rparr>
      | _ \<Rightarrow> Panic)"

definition create_verifying_key_from_raw :: "bytes \<Rightarrow> u32 \<Rightarrow> verifying_key_msg" where
  "create_verifying_key_from_raw public_key_raw key_id =
     \<lparr>vk_type = EcdsaP256Sha256, vk_key_id = key_id, vk_raw = public_key_raw\<rparr>"

definition create_verifying_key_reference_value ::
  "verifying_key_set option \<Rightarrow> verifying_key_reference_value option" where
  "create_verifying_key_reference_value key_set =
     (case key_set of Some ks \<Rightarrow> Some (KeyVerify ks) | None \<Rightarrow> Some KeySkip)"

definition create_tlog_reference_values ::
  "tlog_strategy \<Rightarrow> verifying_key_msg option \<Rightarrow> string option \<Rightarrow> tlog_reference_values" where
  "create_tlog_reference_values strategy rekor_key c2sp_policy =
     \<lparr>tl_strategy = Some strategy,
      tl_rekor = map_option (\<lambda>k. \<lparr>ks_keys = [k], ks_signed_timestamp = None\<rparr>) rekor_key,
      tl_c2sp = map_option (\<lambda>p. \<lparr>rv_policy = p\<rparr>) c2sp_policy, tl_pes = None\<rparr>"

definition create_tlog_reference_values_skip :: tlog_reference_values where
  "create_tlog_reference_values_skip = create_tlog_reference_values StrategySkip None None"

definition create_tlog_reference_values_all :: "verifying_key_msg option \<Rightarrow> string option \<Rightarrow> tlog_reference_values" where
  "create_tlog_reference_values_all rekor_key c2sp_policy = create_tlog_reference_values StrategyAll rekor_key c2sp_policy"

definition has_claim :: "string \<Rightarrow> statement \<Rightarrow> bool" where
  "has_claim ct statement \<longleftrightarrow> list_ex (\<lambda>x. claim_type x = ct) (pr_claims (st_predicate statement))"

definition is_firmware_type :: "statement \<Rightarrow> bool" where "is_firmware_type statement = has_claim FIRMWARE_CLAIM_TYPE statement"

definition is_kernel_type :: "statement \<Rightarrow> bool" where "is_kernel_type statement = has_claim KERNEL_CLAIM_TYPE statement"

definition is_mpm_type :: "statement \<Rightarrow> bool" where "is_mpm_type statement = has_claim MPM_CLAIM_TYPE statement"


subsection \<open>Verification\<close>

text \<open>The text of the errors of the other crates, which \<open>?\<close> turns into an \<open>anyhow::Error\<close>.\<close>

fun note_error_text :: "note_error \<Rightarrow> string" where
  "note_error_text MalformedSignature = ''malformed signature''"
| "note_error_text MalformedVerifyingKey = ''malformed verifying key''"
| "note_error_text (MalformedCheckpoint _) = ''malformed checkpoint''"
| "note_error_text SignatureVerificationFailed = ''signature verification failed''"
| "note_error_text OpaqueDataTooLong = ''opaque data exceeds 255 bytes''"

fun tlog_error_text :: "tlog_proof_error \<Rightarrow> string" where
  "tlog_error_text InvalidHeader = ''invalid proof header''"
| "tlog_error_text InvalidIndex = ''invalid index format''"
| "tlog_error_text (MalformedProofCheckpoint _) = ''malformed checkpoint''"
| "tlog_error_text MalformedProof = ''malformed proof''"
| "tlog_error_text SignatureMismatch = ''mismatch between signatures and verifying keys''"
| "tlog_error_text RootMismatch = ''root hash mismatch''"
| "tlog_error_text InvalidMerkleChain = ''invalid Merkle chain''"
| "tlog_error_text InsufficientWitnesses = ''witness quorum not satisfied''"
| "tlog_error_text (NoteErr e) = note_error_text e"
| "tlog_error_text Format = ''malformed data''"

fun policy_error_text :: "policy_error \<Rightarrow> string" where
  "policy_error_text (ParseError line reason) = ''line '' @ show_nat line @ '': '' @ reason"

definition verify_c2sp_tlog_proof ::
  "nat \<Rightarrow> ('v, 's, 'z) release_lib_scheme \<Rightarrow> bytes \<Rightarrow> endorsement \<Rightarrow> c2sp_reference_value \<Rightarrow> (unit, string anyhow) result option" where
  "verify_c2sp_tlog_proof n L c2sp_tlog_proof endorsement c2sp_ref =
     bind_out (Some (map_err (\<lambda>e. Msg (tlog_error_text e)) (tlog_try_from L c2sp_tlog_proof))) (\<lambda>proof.
     bind_out (Some (map_err (\<lambda>e. Msg (policy_error_text e)) (policy_try_from L c2sp_ref))) (\<lambda>policy.
     map_option (map_err (\<lambda>e. Msg (tlog_error_text e))) (tlog_verify n L proof policy (en_serialized endorsement))))"

definition compare_endorser_public_key ::
  "('v, 's, 'z) release_lib_scheme \<Rightarrow> log_entry \<Rightarrow> verifying_key_msg \<Rightarrow> (unit, string anyhow) result" where
  "compare_endorser_public_key L log_entry key =
     (case vk_type key of
        KeyUndefined \<Rightarrow> bail ''Undefined key type''
      | EcdsaP256Sha256 \<Rightarrow> compare_public_key L log_entry (vk_raw key)
      | RsaSha2256 \<Rightarrow> bail ''RSA keys are not supported yet'')"

text \<open>Rekor's part of both strategies, and the next verification after one that failed.\<close>

definition verify_rekor_part ::
  "('v, 's, 'z) release_lib_scheme \<Rightarrow> bytes \<Rightarrow> verifying_key_set \<Rightarrow> bytes \<Rightarrow> verifying_key_msg \<Rightarrow> int \<Rightarrow> (unit, string anyhow) result" where
  "verify_rekor_part L entry rekor artifact trusted_endorser_key now_utc_millis =
     bind_result (context_err ''verifying Rekor log entry'' (verify_rekor_log_entry L entry rekor artifact now_utc_millis))
       (\<lambda>log_entry. compare_endorser_public_key L log_entry trusted_endorser_key)"

fun try_next :: "(unit, 'e) result option \<Rightarrow> (unit, 'e) result option \<Rightarrow> (unit, 'e) result option" where
  "try_next None k = None"
| "try_next (Some (Ok _)) k = Some (Ok ())"
| "try_next (Some (Err _)) k = k"
| "try_next (Some Panic) k = Some Panic"

definition verify_tlog ::
  "nat \<Rightarrow> ('v, 's, 'z) release_lib_scheme \<Rightarrow> tlog_reference_values \<Rightarrow> signed_endorsement \<Rightarrow> verifying_key_msg \<Rightarrow> int \<Rightarrow>
   (unit, string anyhow) result option" where
  "verify_tlog n L tlog signed_endorsement trusted_endorser_key now_utc_millis =
     bind_out (Some (ok_or (Msg ''no endorsement in signed endorsement'') (se_endorsement signed_endorsement))) (\<lambda>endorsement.
     bind_out (Some (ok_or (Msg ''missing t-log verification strategy'') (tl_strategy tlog))) (\<lambda>strategy.
     case strategy of
       StrategySkip \<Rightarrow> Some (Ok ())
     | StrategyAll \<Rightarrow>
         bind_out
           (case tl_rekor tlog of
              Some rekor \<Rightarrow>
                Some (verify_rekor_part L (se_rekor_log_entry signed_endorsement) rekor (en_serialized endorsement)
                  trusted_endorser_key now_utc_millis)
            | None \<Rightarrow> Some (Ok ())) (\<lambda>_.
         bind_out
           (case tl_c2sp tlog of
              Some c2sp \<Rightarrow>
                map_option (context_err ''verifying C2SP tlog proof'')
                  (verify_c2sp_tlog_proof n L (se_c2sp_tlog_proof signed_endorsement) endorsement c2sp)
            | None \<Rightarrow> Some (Ok ())) (\<lambda>_.
         case tl_pes tlog of
           Some pes \<Rightarrow>
             bind_out (Some (ok_or (Msg ''missing PES key set'') (pes_key_set pes))) (\<lambda>key_set.
             Some (context_err ''verifying PES confirmation''
               (verify_pes_confirmation L (se_pes_confirmation signed_endorsement) key_set (en_serialized endorsement)
                 trusted_endorser_key)))
         | None \<Rightarrow> Some (Ok ())))
     | StrategyAny \<Rightarrow>
         (let failed = Some (bail ''t-log verifications failed'');
            rest =
              (case tl_pes tlog of
                 Some pes \<Rightarrow>
                   bind_out (Some (ok_or (Msg ''missing PES key set'') (pes_key_set pes))) (\<lambda>key_set.
                   try_next
                     (Some (verify_pes_confirmation L (se_pes_confirmation signed_endorsement) key_set
                       (en_serialized endorsement) trusted_endorser_key)) failed)
               | None \<Rightarrow> failed);
            rest =
              (case tl_c2sp tlog of
                 Some c2sp \<Rightarrow>
                   try_next (verify_c2sp_tlog_proof n L (se_c2sp_tlog_proof signed_endorsement) endorsement c2sp) rest
               | None \<Rightarrow> rest)
          in
            (case tl_rekor tlog of
               Some rekor \<Rightarrow>
                 try_next
                   (Some (verify_rekor_part L (se_rekor_log_entry signed_endorsement) rekor (en_serialized endorsement)
                     trusted_endorser_key now_utc_millis)) rest
             | None \<Rightarrow> rest))))"

text \<open>The deprecated reference value, which counts when there is none for transparency logs.\<close>

definition verify_deprecated_rekor ::
  "('v, 's, 'z) release_lib_scheme \<Rightarrow> verifying_key_reference_value option option \<Rightarrow> bytes \<Rightarrow> bytes \<Rightarrow> verifying_key_msg \<Rightarrow> int \<Rightarrow>
   (unit, string anyhow) result" where
  "verify_deprecated_rekor L rekor log_entry artifact trusted_endorser_key now_utc_millis =
     bind_result (ok_or (Msg ''no rekor key set in signed endorsement'') rekor) (\<lambda>rekor_ref_value.
     case rekor_ref_value of
       Some KeySkip \<Rightarrow> Ok ()
     | Some (KeyVerify key_set) \<Rightarrow>
         if log_entry = [] then bail ''log entry unavailable but verification was requested''
         else verify_rekor_part L log_entry key_set artifact trusted_endorser_key now_utc_millis
     | None \<Rightarrow> bail ''empty Rekor verifying key set reference value'')"

text \<open>The transparency logs, or the deprecated reference value.\<close>

definition verify_logs ::
  "nat \<Rightarrow> ('v, 's, 'z) release_lib_scheme \<Rightarrow> endorsement_reference_value \<Rightarrow> signed_endorsement \<Rightarrow> endorsement \<Rightarrow>
   verifying_key_msg \<Rightarrow> int \<Rightarrow> (unit, string anyhow) result option" where
  "verify_logs n L ref_value signed_endorsement endorsement trusted_endorser_key now_utc_millis =
     (case erv_tlog ref_value of
        Some tlog \<Rightarrow>
          map_option (context_err ''verifying t-log'')
            (verify_tlog n L tlog signed_endorsement trusted_endorser_key now_utc_millis)
      | None \<Rightarrow>
          Some (verify_deprecated_rekor L (erv_rekor ref_value) (se_rekor_log_entry signed_endorsement)
            (en_serialized endorsement) trusted_endorser_key now_utc_millis))"

definition verify_endorsement ::
  "nat \<Rightarrow> ('v, 's, 'z) release_lib_scheme \<Rightarrow> int \<Rightarrow> signed_endorsement \<Rightarrow> endorsement_reference_value \<Rightarrow>
   (statement, string anyhow) result option" where
  "verify_endorsement n L now_utc_millis signed_endorsement ref_value =
     bind_out (Some (ok_or (Msg ''no endorsement in signed endorsement'') (se_endorsement signed_endorsement))) (\<lambda>endorsement.
     bind_out (Some (ok_or (Msg ''no signature in signed endorsement'') (se_signature signed_endorsement))) (\<lambda>signature.
     bind_out (Some (ok_or (Msg ''no endorser key set in signed endorsement'') (erv_endorser ref_value))) (\<lambda>endorser_key_set.
     bind_out (Some (ok_or (Msg ''required claims missing'') (erv_required_claims ref_value))) (\<lambda>required_claims.
     bind_out (Some (ok_or (MsgWith ''could not find endorser key id in key set'' (show_nat (unat (sg_key_id signature))))
       (find (\<lambda>k. vk_key_id k = sg_key_id signature) (ks_keys endorser_key_set)))) (\<lambda>trusted_endorser_key.
     bind_out (Some (context_err ''verifying signature'' (verify_signature L signature (en_serialized endorsement) endorser_key_set)))
       (\<lambda>_.
     bind_out (Some (context_err ''parsing endorsement statement'' (parse_statement L (en_serialized endorsement)))) (\<lambda>statement.
     let current_time = from_unix_millis now_utc_millis;
       subject_digest =
         (if en_subject endorsement = [] then None
          else Some (raw_to_hex_digest L (raw_digest_from_contents L (en_subject endorsement)))) in
     bind_out (Some (context_err ''validating endorsement statement''
       (validate statement subject_digest current_time required_claims))) (\<lambda>_.
     bind_out (verify_logs n L ref_value signed_endorsement endorsement trusted_endorser_key now_utc_millis) (\<lambda>_.
     Some (Ok statement))))))))))"


subsection \<open>The encoding determines its fields\<close>

lemma separator_inject: "c \<notin> set a \<Longrightarrow> c \<notin> set b \<Longrightarrow> a @ c # x = b @ c # y \<Longrightarrow> a = b \<and> x = y"
proof (induction a arbitrary: b)
  case (Cons d a)
  then show ?case by (cases b) auto
qed (auto simp: Cons_eq_append_conv)

lemma space_not_digit: "of_char SP \<notin> set (str_bytes (show_nat n))"
proof
  assume "of_char SP \<in> set (str_bytes (show_nat n))"
  then obtain c where c: "c \<in> set (show_nat n)" "str_bytes [SP] = str_bytes [c]" by (auto simp: str_bytes_def)
  then have "c = SP" by simp
  with show_nat_range [OF c(1)] show False by (simp add: SP_def)
qed

lemma pae_encode_inject: "pae_encode a @ x = pae_encode b @ y \<Longrightarrow> a = b \<and> x = y"
proof -
  assume "pae_encode a @ x = pae_encode b @ y"
  then have "str_bytes (show_nat (length a)) @ of_char SP # (a @ x) = str_bytes (show_nat (length b)) @ of_char SP # (b @ y)"
    by (simp add: pae_encode_def str_bytes_def)
  from separator_inject [OF space_not_digit space_not_digit this] have "length a = length b" "a @ x = b @ y"
    by (auto simp: show_nat_inject)
  then show "a = b \<and> x = y" by simp
qed

lemma pae_inject:
  assumes "pae_calculate e k s i = pae_calculate e' k' s' i'"
  shows "e = e' \<and> k = k' \<and> s = s' \<and> i = i'"
proof -
  have "pae_encode e @ pae_encode k @ pae_encode s @ pae_encode (str_bytes i) @ [] =
      pae_encode e' @ pae_encode k' @ pae_encode s' @ pae_encode (str_bytes i') @ []"
    using assms by (simp add: pae_calculate_def)
  then have "e = e' \<and> k = k' \<and> s = s' \<and> pae_encode (str_bytes i) @ [] = pae_encode (str_bytes i') @ []"
    by (auto dest!: pae_encode_inject)
  then show ?thesis using pae_encode_inject [of "str_bytes i" "[]" "str_bytes i'" "[]"] by simp
qed


subsection \<open>The verification always returns\<close>

lemma signature_timestamp_secs: "epoch_secs (signature_timestamp sig) \<noteq> Panic"
proof -
  have "is_i64 (i64 x)" for x
    using signed_take_bit_int_greater_eq_minus_exp [of 63 x] signed_take_bit_int_less_exp [of 63 x]
    by (simp add: is_i64_def i64_def)
  then show ?thesis by (simp add: epoch_secs_def signature_timestamp_def)
qed

lemma signature_parse_no_panic [simp]: "note_signature_parse L s \<noteq> Panic"
  by (auto simp: note_signature_parse_def result_simps split: if_splits)

lemma checkpoint_parse_no_panic [simp]: "checkpoint_parse L s \<noteq> Panic"
proof -
  have "read_signatures L sigs ls \<noteq> Panic" for sigs ls
    by (induction L sigs ls rule: read_signatures.induct) (auto simp: result_simps)
  then show ?thesis by (auto simp: checkpoint_parse_def result_simps Let_def split: if_splits prod.splits)
qed

lemma push_opaque_no_panic [simp]: "push_opaque_u8 b d \<noteq> Panic"
  by (simp add: push_opaque_u8_def)

lemma note_verify_no_panic [simp]: "note_verify L k text sig \<noteq> Panic"
proof (cases "nvk_verifying_key k")
  case (VkMlDsa44SubtreeV1 vk)
  then show ?thesis using signature_timestamp_secs [of "sig_bytes sig"]
    by (auto simp: note_verify_def result_simps verify_ml_dsa_44_def ml_signature_try_from_def split: if_splits)
qed (use signature_timestamp_secs [of "sig_bytes sig"] in
  \<open>auto simp: note_verify_def result_simps verify_ed25519_def split: if_splits\<close>)

lemma tlog_parse_no_panic [simp]: "tlog_parse L s \<noteq> Panic"
proof -
  have "read_hashes L hs ls \<noteq> Panic" for hs ls
    by (induction L hs ls rule: read_hashes.induct) (auto simp: result_simps)
  then show ?thesis by (auto simp: tlog_parse_def result_simps Let_def split: if_splits prod.splits)
qed

lemma verify_log_keys_no_panic [simp]: "verify_log_keys L cp n keys \<noteq> Panic"
proof -
  have "verify_log_signatures L payload k n sigs \<noteq> Panic" for payload k n sigs
    by (induction L payload k n sigs rule: verify_log_signatures.induct) (auto simp: result_simps)
  then show ?thesis by (induction L cp n keys rule: verify_log_keys.induct) (auto simp: result_simps)
qed

lemma verify_witnesses_no_panic [simp]: "verify_witnesses L payload keys verified sigs \<noteq> Panic"
proof -
  have "find_witness L payload sig keys \<noteq> Panic" for payload sig keys
    by (induction L payload sig keys rule: find_witness.induct) (auto split: result.splits)
  then show ?thesis
    by (induction L payload keys verified sigs rule: verify_witnesses.induct) (auto simp: result_simps)
qed

text \<open>
  The calls that may run out of fuel: \<open>returns m\<close> says that the call returns, without a panic, and
  \<open>extends m m'\<close> that the answer of the first call, if there is one, is that of the second.
\<close>

definition returns :: "('a, 'e) result option \<Rightarrow> bool" where
  "returns m \<longleftrightarrow> (\<exists>r. m = Some r \<and> r \<noteq> Panic)"

lemma returns_Some [simp]: "returns (Some r) \<longleftrightarrow> r \<noteq> Panic"
  by (simp add: returns_def)

lemma returns_bind_out: "returns m \<Longrightarrow> (\<And>x. m = Some (Ok x) \<Longrightarrow> returns (f x)) \<Longrightarrow> returns (bind_out m f)"
  by (auto simp: returns_def bind_out_def split: option.splits result.splits)

lemma returns_map_err [simp]: "returns (map_option (map_err f) m) \<longleftrightarrow> returns m"
  by (cases m) (simp_all add: returns_def [of None])

lemma returns_context [simp]: "returns (map_option (context_err s) m) \<longleftrightarrow> returns m"
  by (simp add: context_err_def)

lemma returns_try_next: "returns m \<Longrightarrow> returns k \<Longrightarrow> returns (try_next m k)"
  by (induction m k rule: try_next.induct) (simp_all add: returns_def [of None])

lemma tlog_verify_returns:
  assumes "policy_parse L data = Ok policy" "length (entries (quorums policy)) < n"
  shows "returns (tlog_verify n L proof policy entry)"
proof -
  have q: "returns (infallible (check_quorum n policy ks) :: (bool, tlog_proof_error) result option)" for ks
    by (simp add: check_quorum_eq [OF policy_parse_wf [OF assms(1)] assms(2)])
  have "compute_root_hash L proof entry \<noteq> Panic" by (simp add: compute_root_hash_def Let_def)
  with q show ?thesis unfolding tlog_verify_def Let_def by (auto intro!: returns_bind_out)
qed

definition extends :: "('a, 'e) result option \<Rightarrow> ('a, 'e) result option \<Rightarrow> bool" where
  "extends m m' \<longleftrightarrow> m = None \<or> m' = m"

lemma extends_refl [simp]: "extends m m"
  by (simp add: extends_def)

lemma extends_bind_out: "extends m m' \<Longrightarrow> (\<And>x. extends (f x) (f' x)) \<Longrightarrow> extends (bind_out m f) (bind_out m' f')"
  by (auto simp: extends_def bind_out_def split: option.splits result.splits)

lemma tlog_verify_fuel:
  assumes "n \<le> m"
  shows "extends (tlog_verify n L pr policy entry) (tlog_verify m L pr policy entry)"
proof -
  have "extends (infallible (check_quorum n policy ks)) (infallible (check_quorum m policy ks) :: (bool, tlog_proof_error) result option)"
    for ks
    using check_quorum_fuel [OF _ assms, of policy ks] by (cases "check_quorum n policy ks") (auto simp: extends_def)
  then show ?thesis unfolding tlog_verify_def Let_def by (auto intro!: extends_bind_out)
qed

definition policy_fuel :: "('v, 's, 'z) release_lib_scheme \<Rightarrow> c2sp_reference_value \<Rightarrow> nat" where
  "policy_fuel L rv = (case policy_try_from L rv of Ok p \<Rightarrow> Suc (length (entries (quorums p))) | _ \<Rightarrow> 0)"

lemma verify_c2sp_returns:
  assumes "policy_fuel L rv \<le> n"
  shows "returns (verify_c2sp_tlog_proof n L b e rv)"
proof -
  have "policy_try_from L rv \<noteq> Panic" by (simp add: policy_try_from_def policy_parse_no_panic)
  moreover have "tlog_try_from L b \<noteq> Panic" by (auto simp: tlog_try_from_def result_simps)
  moreover have "returns (tlog_verify n L pr policy x)" if "policy_try_from L rv = Ok policy" for pr policy x
    by (rule tlog_verify_returns [of _ "rv_policy rv"]) (use that assms in \<open>simp_all add: policy_try_from_def policy_fuel_def\<close>)
  ultimately show ?thesis unfolding verify_c2sp_tlog_proof_def by (auto intro!: returns_bind_out)
qed

lemma pes_key_match_Ok:
  "(case t of
      KeyUndefined \<Rightarrow> bail a
    | EcdsaP256Sha256 \<Rightarrow> context_err b (verify_signature_ecdsa L sig contents raw)
    | RsaSha2256 \<Rightarrow> context_err c (verify_signature_rsa L sig contents raw)) = Ok u \<longleftrightarrow> key_signed L t raw contents sig"
  by (cases t) (simp_all add: bail_def context_err_def)

lemma extract_no_panic [simp]: "extract_raw_vm_bytes vm \<noteq> Panic" "extract_public_key_der L vm \<noteq> Panic"
  by (auto simp: extract_raw_vm_bytes_def extract_public_key_der_def result_simps split: verification_material.splits)

lemma parse_pes_no_panic [simp]: "parse_pes_confirmation L b \<noteq> Panic"
  by (auto simp: parse_pes_confirmation_def result_simps context_err_def bail_def split: if_splits)

lemma bind_no_panic: "m \<noteq> Panic \<Longrightarrow> (\<And>x. f x \<noteq> Panic) \<Longrightarrow> bind_result m f \<noteq> Panic"
  by (cases m) auto

lemma bind_Ok_elim: "bind_result m f = Ok y \<Longrightarrow> (\<And>x. m = Ok x \<Longrightarrow> f x = Ok y \<Longrightarrow> P) \<Longrightarrow> P"
  by (cases m) auto

lemma verify_pes_no_panic [simp]: "verify_pes_confirmation L b ks artifact key \<noteq> Panic"
  unfolding verify_pes_confirmation_def Let_def
  by (intro bind_no_panic if_no_panic) (simp_all add: context_err_def bail_def split: key_type.splits)

lemma verify_rekor_part_Panic: "verify_rekor_part L e ks artifact key now = Panic \<longleftrightarrow> rekor_panics L e ks now"
proof -
  have "compare_endorser_public_key L x key \<noteq> Panic" for x
    by (cases "vk_type key") (simp_all add: compare_endorser_public_key_def bail_def)
  then show ?thesis by (auto simp: verify_rekor_part_def result_simps verify_rekor_log_entry_Panic)
qed


subsection \<open>What an accepted endorsement guarantees\<close>

text \<open>The confirmation names the trusted endorser, and the service signed it with a trusted key.\<close>

definition pes_confirms ::
  "('v, 's, 'z) release_lib_scheme \<Rightarrow> bytes \<Rightarrow> verifying_key_set \<Rightarrow> bytes \<Rightarrow> verifying_key_msg \<Rightarrow> bool" where
  "pes_confirms L confirmation ks artifact key \<longleftrightarrow>
     (\<exists>pe st sig receipt vm raw pk k s rest svm spk tk.
        parse_pes_confirmation L confirmation = Ok pe \<and>
        pe_statement pe = Some st \<and> sha256 L (pt_serialized st) = sha256 L artifact \<and>
        pe_statement_signature pe = Some sig \<and> pe_tlog_receipt pe = Some receipt \<and>
        ps_verification_material sig = Some vm \<and> extract_raw_vm_bytes vm = Ok raw \<and>
        extract_public_key_der L vm = Ok pk \<and> p256_key L pk = Some k \<and> p256_key L (vk_raw key) = Some k \<and>
        pe_endorsement_signatures pe = s # rest \<and> ps_verification_material s = Some svm \<and>
        extract_public_key_der L svm = Ok spk \<and> find (\<lambda>k. vk_raw k = spk) (ks_keys ks) = Some tk \<and>
        key_signed L (vk_type tk) spk
          (pae_calculate (pt_serialized st) raw (ps_signature sig) (pr_entry_id receipt)) (ps_signature s))"

lemma context_Ok [simp]: "context_err s (Ok x) = Ok x" "context_err s m = Ok x \<longleftrightarrow> m = Ok x"
  by (simp_all add: context_err_def)

lemma if_bail_elim: "(if c then bail s else y) = Ok d \<Longrightarrow> (\<not> c \<Longrightarrow> y = Ok d \<Longrightarrow> P) \<Longrightarrow> P"
  by (cases c) (simp_all add: bail_def)

lemma verify_pes_Ok: "verify_pes_confirmation L b ks artifact key = Ok () \<longleftrightarrow> pes_confirms L b ks artifact key"
proof
  assume "verify_pes_confirmation L b ks artifact key = Ok ()"
  then show "pes_confirms L b ks artifact key"
    unfolding verify_pes_confirmation_def Let_def
  proof (elim bind_Ok_elim if_bail_elim, goal_cases)
    case (1 pe st sig receipt vm raw pk eq s svm spk tk u)
    then obtain k where "p256_key L pk = Some k" "p256_key L (vk_raw key) = Some k" by (auto simp: equal_keys_Ok)
    moreover obtain rest where "pe_endorsement_signatures pe = s # rest"
      using 1 by (auto split: list.splits)
    ultimately show ?case using 1 unfolding pes_confirms_def pes_key_match_Ok ok_or_Ok_iff context_Ok sha256_from_contents_def by blast
  qed
next
  assume "pes_confirms L b ks artifact key"
  then show "verify_pes_confirmation L b ks artifact key = Ok ()"
    unfolding pes_confirms_def
    by (elim exE conjE)
      (simp add: verify_pes_confirmation_def Let_def equal_keys_Ok [THEN iffD2] bind_result_Ok_iff pes_key_match_Ok
        sha256_from_contents_def)
qed

text \<open>
  Rekor logged, within the bounds on time, an entry in which the endorser signed the artifact.
\<close>

definition rekor_confirms ::
  "('v, 's, 'z) release_lib_scheme \<Rightarrow> bytes \<Rightarrow> verifying_key_set \<Rightarrow> bytes \<Rightarrow> verifying_key_msg \<Rightarrow> int \<Rightarrow> bool" where
  "rekor_confirms L entry ks artifact key now \<longleftrightarrow>
     (\<exists>e pk k. parse_rekor_log_entry L entry = Ok e \<and> (\<exists>rk \<in> set (ks_keys ks). entry_logged_by L e (vk_raw rk)) \<and>
        (\<forall>ts. ks_signed_timestamp ks = Some ts \<longrightarrow> uint (le_integrated_time e) < 2 ^ 63 \<and>
           timestamp_in_range (from_unix_millis now) (from_unix_seconds (uint (le_integrated_time e))) ts) \<and>
        entry_signed_by L e artifact pk \<and>
        vk_type key = EcdsaP256Sha256 \<and> p256_key L pk = Some k \<and> p256_key L (vk_raw key) = Some k)"

lemma compare_endorser_Ok:
  "compare_endorser_public_key L e key = Ok () \<longleftrightarrow> vk_type key = EcdsaP256Sha256 \<and> compare_public_key L e (vk_raw key) = Ok ()"
  by (cases "vk_type key") (simp_all add: compare_endorser_public_key_def bail_def)

lemma verify_rekor_part_Ok:
  "verify_rekor_part L entry ks artifact key now = Ok () \<longleftrightarrow> rekor_confirms L entry ks artifact key now"
proof -
  have "(\<exists>pk. entry_signed_by L e artifact pk) \<and> (\<exists>pk k. get_public_key L e = Ok pk \<and> Q pk k) \<longleftrightarrow>
      (\<exists>pk k. entry_signed_by L e artifact pk \<and> Q pk k)" for e Q
    by (metis get_public_key_signed)
  from this [of _ "\<lambda>pk k. p256_key L pk = Some k \<and> p256_key L (vk_raw key) = Some k"] show ?thesis
    unfolding verify_rekor_part_def rekor_confirms_def bind_result_Ok_iff context_Ok verify_rekor_log_entry_Ok
      compare_endorser_Ok compare_public_key_Ok
    by (intro ex_cong1) (simp only: conj_ac ex_simps, blast)
qed

text \<open>The proof is accepted by a policy with the guarantees of \<open>TLog_Proof\<close>.\<close>

definition c2sp_confirms :: "('v, 's, 'z) release_lib_scheme \<Rightarrow> bytes \<Rightarrow> bytes \<Rightarrow> c2sp_reference_value \<Rightarrow> bool" where
  "c2sp_confirms L b artifact rv \<longleftrightarrow>
     (\<exists>pr policy n. tlog_try_from L b = Ok pr \<and> policy_try_from L rv = Ok policy \<and>
        tlog_verify n L pr policy artifact = Some (Ok ()))"

lemma verify_c2sp_Ok:
  assumes "policy_fuel L rv \<le> n"
  shows "verify_c2sp_tlog_proof n L b e rv = Some (Ok ()) \<longleftrightarrow> c2sp_confirms L b (en_serialized e) rv"
proof -
  have eq: "tlog_verify n L pr policy x = Some (Ok ())"
    if "policy_try_from L rv = Ok policy" "tlog_verify m L pr policy x = Some (Ok ())" for pr policy x m
  proof -
    have "returns (tlog_verify n L pr policy x)"
      by (rule tlog_verify_returns [of _ "rv_policy rv"])
        (use that assms in \<open>simp_all add: policy_try_from_def policy_fuel_def\<close>)
    then show ?thesis using that(2) tlog_verify_fuel [of n m L pr policy x] tlog_verify_fuel [of m n L pr policy x]
      by (cases "n \<le> m") (auto simp: extends_def returns_def)
  qed
  have "map_err f r = Ok () \<longleftrightarrow> r = Ok ()" for f :: "tlog_proof_error \<Rightarrow> string anyhow" and r by simp
  then show ?thesis unfolding verify_c2sp_tlog_proof_def c2sp_confirms_def bind_out_Ok_iff
    by (auto dest: eq)
qed

text \<open>The strategies, and all that makes an endorsement accepted.\<close>

definition tlog_satisfied ::
  "('v, 's, 'z) release_lib_scheme \<Rightarrow> tlog_reference_values \<Rightarrow> signed_endorsement \<Rightarrow> bytes \<Rightarrow> verifying_key_msg \<Rightarrow> int \<Rightarrow> bool" where
  "tlog_satisfied L tlog se artifact key now \<longleftrightarrow>
     (case tl_strategy tlog of
        None \<Rightarrow> False
      | Some StrategySkip \<Rightarrow> True
      | Some StrategyAll \<Rightarrow>
          (\<forall>ks. tl_rekor tlog = Some ks \<longrightarrow> rekor_confirms L (se_rekor_log_entry se) ks artifact key now) \<and>
          (\<forall>rv. tl_c2sp tlog = Some rv \<longrightarrow> c2sp_confirms L (se_c2sp_tlog_proof se) artifact rv) \<and>
          (\<forall>pes. tl_pes tlog = Some pes \<longrightarrow>
             (\<exists>ks. pes_key_set pes = Some ks \<and> pes_confirms L (se_pes_confirmation se) ks artifact key))
      | Some StrategyAny \<Rightarrow>
          (\<exists>ks. tl_rekor tlog = Some ks \<and> rekor_confirms L (se_rekor_log_entry se) ks artifact key now) \<or>
          \<not> (\<exists>ks. tl_rekor tlog = Some ks \<and> rekor_panics L (se_rekor_log_entry se) ks now) \<and>
          ((\<exists>rv. tl_c2sp tlog = Some rv \<and> c2sp_confirms L (se_c2sp_tlog_proof se) artifact rv) \<or>
           (\<exists>pes ks. tl_pes tlog = Some pes \<and> pes_key_set pes = Some ks \<and>
              pes_confirms L (se_pes_confirmation se) ks artifact key)))"

text \<open>Rekor is asked first by both strategies, so its panic is a panic of the whole verification.\<close>

definition tlog_panics ::
  "('v, 's, 'z) release_lib_scheme \<Rightarrow> tlog_reference_values \<Rightarrow> signed_endorsement \<Rightarrow> int \<Rightarrow> bool" where
  "tlog_panics L tlog se now \<longleftrightarrow>
     tl_strategy tlog \<in> {Some StrategyAll, Some StrategyAny} \<and>
     (\<exists>ks. tl_rekor tlog = Some ks \<and> rekor_panics L (se_rekor_log_entry se) ks now)"

definition deprecated_satisfied ::
  "('v, 's, 'z) release_lib_scheme \<Rightarrow> verifying_key_reference_value option option \<Rightarrow> bytes \<Rightarrow> bytes \<Rightarrow> verifying_key_msg \<Rightarrow> int \<Rightarrow> bool" where
  "deprecated_satisfied L rekor entry artifact key now \<longleftrightarrow>
     rekor = Some (Some KeySkip) \<or>
     (\<exists>ks. rekor = Some (Some (KeyVerify ks)) \<and> entry \<noteq> [] \<and> rekor_confirms L entry ks artifact key now)"

lemma verify_deprecated_Ok:
  "verify_deprecated_rekor L rekor entry artifact key now = Ok () \<longleftrightarrow> deprecated_satisfied L rekor entry artifact key now"
proof (cases "\<exists>v. rekor = Some (Some v)")
  case True
  then obtain v where "rekor = Some (Some v)" by blast
  then show ?thesis
    by (cases v) (simp_all add: verify_deprecated_rekor_def deprecated_satisfied_def bail_def verify_rekor_part_Ok)
next
  case False
  then show ?thesis
    by (auto simp: verify_deprecated_rekor_def deprecated_satisfied_def bail_def bind_result_Ok_iff split: option.splits)
qed

lemma verify_deprecated_Panic:
  "verify_deprecated_rekor L rekor entry artifact key now = Panic \<longleftrightarrow>
     entry \<noteq> [] \<and> (\<exists>ks. rekor = Some (Some (KeyVerify ks)) \<and> rekor_panics L entry ks now)"
proof (cases "\<exists>v. rekor = Some (Some v)")
  case True
  then obtain v where "rekor = Some (Some v)" by blast
  then show ?thesis by (cases v) (simp_all add: verify_deprecated_rekor_def bail_def verify_rekor_part_Panic)
qed (auto simp: verify_deprecated_rekor_def result_simps bail_def split: option.splits)

text \<open>All that is checked before the logs, all that makes an endorsement accepted, and what makes the verification panic.\<close>

definition endorsement_checked ::
  "('v, 's, 'z) release_lib_scheme \<Rightarrow> int \<Rightarrow> signed_endorsement \<Rightarrow> endorsement_reference_value \<Rightarrow> endorsement \<Rightarrow>
   verifying_key_msg \<Rightarrow> statement \<Rightarrow> bool" where
  "endorsement_checked L now se rv e key st \<longleftrightarrow>
     (\<exists>sig ks required.
        se_endorsement se = Some e \<and> se_signature se = Some sig \<and> erv_endorser rv = Some ks \<and>
        erv_required_claims rv = Some required \<and>
        key_of ks (sg_key_id sig) = Some key \<and> key_signed L (vk_type key) (vk_raw key) (en_serialized e) (sg_raw sig) \<and>
        json_statement_from L (en_serialized e) = Some st \<and> statement_valid st (from_unix_millis now) required \<and>
        (en_subject e \<noteq> [] \<longrightarrow> statement_about st (raw_to_hex_digest L (raw_digest_from_contents L (en_subject e)))))"


definition endorsement_panics ::
  "('v, 's, 'z) release_lib_scheme \<Rightarrow> int \<Rightarrow> signed_endorsement \<Rightarrow> endorsement_reference_value \<Rightarrow> bool" where
  "endorsement_panics L now se rv \<longleftrightarrow>
     (\<exists>e key st. endorsement_checked L now se rv e key st) \<and>
     (case erv_tlog rv of
        Some tlog \<Rightarrow> tlog_panics L tlog se now
      | None \<Rightarrow>
          se_rekor_log_entry se \<noteq> [] \<and>
          (\<exists>ks. erv_rekor rv = Some (Some (KeyVerify ks)) \<and> rekor_panics L (se_rekor_log_entry se) ks now))"

definition endorsement_fuel :: "('v, 's, 'z) release_lib_scheme \<Rightarrow> endorsement_reference_value \<Rightarrow> nat" where
  "endorsement_fuel L rv =
     (case Option.bind (erv_tlog rv) tl_c2sp of Some c2sp \<Rightarrow> policy_fuel L c2sp | None \<Rightarrow> 0)"

lemma try_next_Ok:
  "m \<noteq> None \<Longrightarrow> try_next m k = Some (Ok ()) \<longleftrightarrow> m = Some (Ok ()) \<or> m \<noteq> Some Panic \<and> k = Some (Ok ())"
  by (induction m k rule: try_next.induct) auto

lemma returns_not [simp]: "returns m \<Longrightarrow> m \<noteq> None" "returns m \<Longrightarrow> m \<noteq> Some Panic"
  by (auto simp: returns_def)

lemma map_context_Panic [simp]: "map_option (context_err s) m = Some Panic \<longleftrightarrow> m = Some Panic"
  by (cases m) simp_all

lemma map_context_Ok [simp]: "map_option (context_err s) m = Some (Ok x) \<longleftrightarrow> m = Some (Ok x)"
  by (cases m) simp_all

lemma verify_tlog_Ok:
  assumes "se_endorsement se = Some e" "\<And>rv. tl_c2sp tlog = Some rv \<Longrightarrow> policy_fuel L rv \<le> n"
  shows "verify_tlog n L tlog se key now = Some (Ok ()) \<longleftrightarrow> tlog_satisfied L tlog se (en_serialized e) key now"
proof (cases "tl_strategy tlog")
  case (Some strategy)
  note c2sp = verify_c2sp_Ok [OF assms(2)] verify_c2sp_returns [OF assms(2)]
  show ?thesis
  proof (cases strategy)
    case StrategyAll
    with Some assms(1) show ?thesis
      by (cases "tl_rekor tlog"; cases "tl_c2sp tlog"; cases "tl_pes tlog")
        (auto simp: verify_tlog_def tlog_satisfied_def bind_out_Ok_iff verify_rekor_part_Ok verify_pes_Ok c2sp)
  next
    case StrategyAny
    with Some assms(1) show ?thesis
      by (cases "tl_rekor tlog"; cases "tl_c2sp tlog"; cases "tl_pes tlog")
        (auto simp: verify_tlog_def tlog_satisfied_def bind_out_Ok_iff verify_rekor_part_Ok verify_rekor_part_Panic verify_pes_Ok c2sp
          try_next_Ok bail_def)
  qed (use Some assms(1) in \<open>simp add: verify_tlog_def tlog_satisfied_def\<close>)
qed (use assms(1) in \<open>simp add: verify_tlog_def tlog_satisfied_def\<close>)

lemma returns_strategy:
  "returns a \<Longrightarrow> (strategy = StrategyAll \<Longrightarrow> returns b) \<Longrightarrow> (strategy = StrategyAny \<Longrightarrow> returns c) \<Longrightarrow>
     returns (case strategy of StrategySkip \<Rightarrow> a | StrategyAll \<Rightarrow> b | StrategyAny \<Rightarrow> c)"
  by (cases strategy) simp_all

lemma verify_tlog_panics:
  assumes "se_endorsement se = Some e" "tlog_panics L tlog se now"
  shows "verify_tlog n L tlog se key now = Some Panic"
  using assms by (auto simp: verify_tlog_def tlog_panics_def verify_rekor_part_Panic [THEN iffD2])

lemma verify_tlog_returns:
  assumes "\<And>rv. tl_c2sp tlog = Some rv \<Longrightarrow> policy_fuel L rv \<le> n" "\<not> tlog_panics L tlog se now"
  shows "returns (verify_tlog n L tlog se key now)"
  using assms(2) unfolding verify_tlog_def tlog_panics_def Let_def
  by (cases "tl_rekor tlog"; cases "tl_c2sp tlog"; cases "tl_pes tlog")
    (auto intro!: returns_bind_out returns_try_next returns_strategy simp: verify_c2sp_returns [OF assms(1)] verify_rekor_part_Panic
      bail_def context_err_def)

lemma endorsement_fuel_tlog:
  "endorsement_fuel L rv \<le> n \<Longrightarrow> erv_tlog rv = Some tlog \<Longrightarrow> tl_c2sp tlog = Some c2sp \<Longrightarrow> policy_fuel L c2sp \<le> n"
  by (simp add: endorsement_fuel_def)

lemma verify_endorsement_checked:
  assumes "endorsement_checked L now se rv e key st"
  shows "verify_endorsement n L now se rv = bind_out (verify_logs n L rv se e key now) (\<lambda>_. Some (Ok st))"
  using assms unfolding endorsement_checked_def
  by (elim exE conjE) (simp add: verify_endorsement_def key_of_def [symmetric] parse_statement_def
      verify_signature_Ok [THEN iffD2] validate_Ok [THEN iffD2])

lemma bind_out_fails:
  "m \<noteq> Panic \<Longrightarrow> (\<And>x. m = Ok x \<Longrightarrow> \<exists>err. f x = Some (Err err)) \<Longrightarrow> \<exists>err. bind_out (Some m) f = Some (Err err)"
  by (cases m) simp_all

lemma verify_endorsement_unchecked:
  assumes "\<And>e key st. \<not> endorsement_checked L now se rv e key st"
  shows "\<exists>err. verify_endorsement n L now se rv = Some (Err err)"
  unfolding verify_endorsement_def Let_def key_of_def [symmetric]
proof (intro bind_out_fails, goal_cases)
  case (9 e sig ks required key u st u')
  with assms [of e key st] show ?case
    by (auto simp: endorsement_checked_def verify_signature_Ok validate_Ok parse_statement_def split: if_splits)
qed (simp_all add: parse_statement_def)

text \<open>The logs decide about an endorsement that passed the other checks.\<close>

lemma verify_logs_outcome:
  assumes "endorsement_fuel L rv \<le> n" "endorsement_checked L now se rv e key st"
  shows "verify_logs n L rv se e key now \<noteq> None"
    "verify_logs n L rv se e key now = Some (Ok ()) \<longleftrightarrow>
       (case erv_tlog rv of
          Some tlog \<Rightarrow> tlog_satisfied L tlog se (en_serialized e) key now
        | None \<Rightarrow> deprecated_satisfied L (erv_rekor rv) (se_rekor_log_entry se) (en_serialized e) key now)"
    "verify_logs n L rv se e key now = Some Panic \<longleftrightarrow> endorsement_panics L now se rv"
proof -
  have e: "se_endorsement se = Some e" using assms(2) by (auto simp: endorsement_checked_def)
  have t: "if tlog_panics L tlog se now then verify_tlog n L tlog se key now = Some Panic else returns (verify_tlog n L tlog se key now)"
    if "erv_tlog rv = Some tlog" for tlog
    by (cases "tlog_panics L tlog se now")
      (simp_all add: verify_tlog_panics [OF e] verify_tlog_returns [OF endorsement_fuel_tlog [OF assms(1) that]])
  show "verify_logs n L rv se e key now \<noteq> None"
    using t by (auto simp: verify_logs_def returns_def split: option.splits if_splits)
  show "verify_logs n L rv se e key now = Some (Ok ()) \<longleftrightarrow>
       (case erv_tlog rv of
          Some tlog \<Rightarrow> tlog_satisfied L tlog se (en_serialized e) key now
        | None \<Rightarrow> deprecated_satisfied L (erv_rekor rv) (se_rekor_log_entry se) (en_serialized e) key now)"
    using verify_tlog_Ok [OF e endorsement_fuel_tlog [OF assms(1)]]
    by (auto simp: verify_logs_def verify_deprecated_Ok split: option.splits)
  show "verify_logs n L rv se e key now = Some Panic \<longleftrightarrow> endorsement_panics L now se rv"
    using t assms(2) by (auto simp: verify_logs_def endorsement_panics_def verify_deprecated_Panic split: option.splits if_splits)
qed

text \<open>
  An example of the libraries, in which the encodings of keys and signatures are trivial and every
  key accepts one signature, and an endorsement that is logged in Rekor.
\<close>

definition example_statement :: statement where
  "example_statement =
     make_statement ''app'' hex_default (from_unix_millis 0) (from_unix_millis 0) (from_unix_millis 10) [''c'']"

definition example_body :: body where
  "example_body =
     \<lparr>bd_api_version = ''0.0.1'', bd_kind = ''hashedrekord'', bd_hash_algorithm = ''sha256'',
      bd_hash_value = hex_encode example_tlog_lib (sha256 example_tlog_lib [1, 2]),
      bd_signature_content = ''09'', bd_public_key_content = ''05''\<rparr>"

definition example_log_entry :: log_entry where
  "example_log_entry =
     \<lparr>le_body = [], le_integrated_time = 0, le_log_id = ''id'', le_log_index = 1, le_verification = Some ''09''\<rparr>"

definition example_release_lib :: "(bool, bool) release_lib" where
  "example_release_lib = tlog_lib.extend example_tlog_lib
     (release_lib.fields (\<lambda>s. Some (''PUBLIC KEY'', str_bytes s)) (\<lambda>l b. Some []) Some Some Some (\<lambda>k c s. s = [9]) Some
        (\<lambda>k c s. s = [9]) (\<lambda>b. Some (Some b)) (\<lambda>b. Some example_statement) (\<lambda>s. Some [1, 2])
        (\<lambda>b. Some (btm_insert ''uuid'' example_log_entry btm_empty)) (\<lambda>m. Some []) (\<lambda>b. Some example_body) (\<lambda>b. None)
        (\<lambda>s n. if \<bar>s\<bar> < 8000000000000 then Some ''date'' else None))"

definition example_endorser :: verifying_key_msg where
  "example_endorser = create_verifying_key_from_raw [5] 7"

definition example_endorsement :: signed_endorsement where
  "example_endorsement = create_signed_endorsement [1, 2] [9] 7 [] [3] []"

definition example_reference_value :: endorsement_reference_value where
  "example_reference_value =
     create_endorsement_reference_value example_endorser [''c''] (create_tlog_reference_values_all (Some example_endorser) None)"

lemma example_release_lib_simps:
  "pem_decode example_release_lib = (\<lambda>s. Some (''PUBLIC KEY'', str_bytes s))" "der_document example_release_lib = Some"
  "p256_from_der example_release_lib = Some" "ecdsa_signature_from_der example_release_lib = Some"
  "p256_verify example_release_lib = (\<lambda>k c s. s = [9])" "json_statement_from example_release_lib = (\<lambda>b. Some example_statement)"
  "json_log_entries_from example_release_lib = (\<lambda>b. Some (btm_insert ''uuid'' example_log_entry btm_empty))"
  "json_body_from example_release_lib = (\<lambda>b. Some example_body)"
  "hex_encode example_release_lib = hex_encode example_tlog_lib" "sha256 example_release_lib = sha256 example_tlog_lib"
  "b64_decode example_release_lib = example_unhex"
  "datetime_rfc3339 example_release_lib = (\<lambda>s n. if \<bar>s\<bar> < 8000000000000 then Some ''date'' else None)"
  by (simp_all add: example_release_lib_def tlog_lib.defs release_lib.defs example_tlog_lib_def)

declare example_unhex.simps [simp del]

lemma example_decodings: "example_unhex ''09'' = Some [9]" "example_unhex ''05'' = Some [5]" "example_unhex [] = Some []"
  "from_utf8 [5] = Some [CHR 0x05]" "str_bytes [CHR 0x05] = [5]"
  by code_simp+

lemma example_rekor_signature: "verify_rekor_signature example_release_lib example_log_entry raw = Ok ()"
  by (simp add: verify_rekor_signature_def create_canonical_json_def example_log_entry_def DQ_def parse_rekor_signature_def
      verify_signature_ecdsa_def convert_raw_to_verifying_key_def example_release_lib_simps example_decodings)

lemma example_rekor_entry: "parse_rekor_log_entry example_release_lib [3] = Ok example_log_entry"
  by (simp add: parse_rekor_log_entry_def example_release_lib_simps)

lemma example_endorsement_verified:
  "verify_endorsement 0 example_release_lib 5 example_endorsement example_reference_value = Some (Ok example_statement)"
proof -
  let ?L = example_release_lib
  have b: "body_public_key ?L example_body = Ok [5]"
    by (simp add: body_public_key_def convert_pem_to_raw_def PUBLIC_KEY_PEM_LABEL_def example_body_def example_release_lib_simps
        example_decodings)
  moreover have "entry_body ?L example_log_entry = Ok example_body"
    by (simp add: entry_body_def example_log_entry_def example_release_lib_simps example_decodings)
  moreover from b have "verify_rekor_body ?L example_body [1, 2] = Ok ()"
    by (simp add: verify_rekor_body_def to_hex_def sha256_from_contents_def verify_signature_ecdsa_def
        convert_raw_to_verifying_key_def example_release_lib_simps example_decodings example_body_def)
  ultimately have "verify_rekor_part ?L [3] \<lparr>ks_keys = [example_endorser], ks_signed_timestamp = None\<rparr> [1, 2] example_endorser 5 = Ok ()"
    by (simp add: verify_rekor_part_def verify_rekor_log_entry_def compare_endorser_public_key_def compare_public_key_def
        get_public_key_def equal_keys_def convert_raw_to_verifying_key_def example_release_lib_simps example_endorser_def
        create_verifying_key_from_raw_def example_rekor_signature example_rekor_entry)
  moreover have "validate example_statement None (from_unix_millis 5) [''c''] = Ok ()"
    by (simp add: validate_Ok example_statement_def make_statement_valid before_def from_unix_millis_def MILLIS_TO_NANOS_def)
  ultimately show ?thesis
    by (simp add: verify_endorsement_def verify_logs_def verify_tlog_def example_endorsement_def create_signed_endorsement_def
        example_reference_value_def create_endorsement_reference_value_def create_tlog_reference_values_all_def
        create_tlog_reference_values_def verify_signature_def verify_signature_ecdsa_def convert_raw_to_verifying_key_def
        example_release_lib_simps parse_statement_def)
      (simp add: example_endorser_def create_verifying_key_from_raw_def verify_signature_ecdsa_def
        convert_raw_to_verifying_key_def example_release_lib_simps)
qed


text \<open>Reference values with a bound on the time of Rekor's entry.\<close>

definition example_bounded :: "seconds_nanos option \<Rightarrow> endorsement_reference_value" where
  "example_bounded bound =
     create_endorsement_reference_value example_endorser [''c'']
       \<lparr>tl_strategy = Some StrategyAny,
        tl_rekor = Some \<lparr>ks_keys = [example_endorser],
          ks_signed_timestamp = Some \<lparr>not_before_absolute = bound, not_before_relative = None\<rparr>\<rparr>,
        tl_c2sp = None, tl_pes = None\<rparr>"

lemma example_bounded_fuel: "endorsement_fuel example_release_lib (example_bounded bound) = 0"
  by (simp add: endorsement_fuel_def example_bounded_def create_endorsement_reference_value_def)

lemma example_bounded_panics:
  "endorsement_panics example_release_lib 5 example_endorsement (example_bounded bound) \<longleftrightarrow>
     (case bound of
        Some nb \<Rightarrow> before UNIX_EPOCH (instant_of_proto nb) \<and> \<not> printable example_release_lib (instant_of_proto nb)
      | None \<Rightarrow> False)"
proof -
  have "\<exists>e key st. endorsement_checked example_release_lib 5 example_endorsement example_reference_value e key st"
    using verify_endorsement_unchecked [of example_release_lib 5 example_endorsement example_reference_value 0]
      example_endorsement_verified by auto
  then have "\<exists>e key st. endorsement_checked example_release_lib 5 example_endorsement (example_bounded bound) e key st"
    by (simp add: endorsement_checked_def example_reference_value_def example_bounded_def create_endorsement_reference_value_def)
  moreover have "entry_logged_by example_release_lib example_log_entry raw" for raw
    using example_rekor_signature verify_rekor_signature_Ok by blast
  moreover have "from_unix_seconds 0 = UNIX_EPOCH" by (simp add: from_unix_seconds_def UNIX_EPOCH_def)
  moreover have "printable example_release_lib UNIX_EPOCH"
    by (simp add: printable_def UNIX_EPOCH_def example_release_lib_simps is_i64_def)
  ultimately show ?thesis
    by (auto simp: endorsement_panics_def tlog_panics_def rekor_panics_def timestamp_panics_def example_bounded_def
        create_endorsement_reference_value_def example_rekor_entry example_endorsement_def create_signed_endorsement_def
        example_log_entry_def split: option.splits)
qed

lemma example_bound_too_late:
  "before UNIX_EPOCH (instant_of_proto \<lparr>sn_seconds = 9223372036854775807, sn_nanos = 0\<rparr>)"
  "\<not> printable example_release_lib (instant_of_proto \<lparr>sn_seconds = 9223372036854775807, sn_nanos = 0\<rparr>)"
  by (simp_all add: before_def UNIX_EPOCH_def instant_of_proto_def printable_def example_release_lib_simps SECONDS_TO_NANOS_def
      i64_def is_i64_def)

text \<open>
  C7. Verifying an endorsement always returns, whatever the endorsement and the reference values
  are: the recursion of the quorum check is bounded by the policy in the reference values. It
  panics, instead of returning an error, in exactly one case. The endorsement passed all checks
  before the logs, Rekor logged the entry, the time of the entry is before the bound that the key
  set of Rekor gives, and one of the times in the message about it is not a date that can be printed.
\<close>

theorem endorsement_verification_returns:
  assumes "endorsement_fuel L ref_value \<le> n"
  shows "\<exists>r. verify_endorsement n L now signed_endorsement ref_value = Some r \<and>
    (r = Panic \<longleftrightarrow> endorsement_panics L now signed_endorsement ref_value)"
proof (cases "\<exists>e key st. endorsement_checked L now signed_endorsement ref_value e key st")
  case True
  then obtain e key st where c: "endorsement_checked L now signed_endorsement ref_value e key st" by blast
  then show ?thesis
    using verify_logs_outcome(1,3) [OF assms c] by (auto simp: verify_endorsement_checked [OF c] bind_out_def split: result.splits)
next
  case False
  then show ?thesis
    using verify_endorsement_unchecked [of L now signed_endorsement ref_value n] by (auto simp: endorsement_panics_def)
qed

text \<open>
  The bound of the witness is the largest number of seconds of a protocol buffer timestamp.
\<close>

theorem endorsement_verification_returns_witness:
  "endorsement_fuel example_release_lib (example_bounded None) \<le> 0 \<and>
   verify_endorsement 0 example_release_lib 5 example_endorsement (example_bounded None) \<noteq> Some Panic \<and>
   verify_endorsement 0 example_release_lib 5 example_endorsement
     (example_bounded (Some \<lparr>sn_seconds = 9223372036854775807, sn_nanos = 0\<rparr>)) = Some Panic"
  using endorsement_verification_returns [of example_release_lib "example_bounded None" 0 5 example_endorsement]
    endorsement_verification_returns [of example_release_lib
      "example_bounded (Some \<lparr>sn_seconds = 9223372036854775807, sn_nanos = 0\<rparr>)" 0 5 example_endorsement]
  by (auto simp: example_bounded_fuel example_bounded_panics example_bound_too_late)

text \<open>Bounds on time in the key sets of the endorser and of the service have no effect.\<close>

lemma bounds_without_effect:
  "verify_signature L sig contents (ks\<lparr>ks_signed_timestamp := ts\<rparr>) = verify_signature L sig contents ks"
  "verify_pes_confirmation L b (ks\<lparr>ks_signed_timestamp := ts\<rparr>) artifact key = verify_pes_confirmation L b ks artifact key"
proof -
  have k: "ks_keys (ks\<lparr>ks_signed_timestamp := ts\<rparr>) = ks_keys ks" by simp
  show "verify_signature L sig contents (ks\<lparr>ks_signed_timestamp := ts\<rparr>) = verify_signature L sig contents ks"
    unfolding verify_signature_def k by (rule refl)
  show "verify_pes_confirmation L b (ks\<lparr>ks_signed_timestamp := ts\<rparr>) artifact key = verify_pes_confirmation L b ks artifact key"
    unfolding verify_pes_confirmation_def k by (rule refl)
qed



text \<open>
  C8. The bytes that the public endorsement service signs determine the endorsement, the key
  and the signature of the endorser and the log entry ID, and the bytes that Rekor signs determine
  the body, the time, the log and the index of its entry: no signature on one set of
  fields can be presented for another.
\<close>

theorem signed_bytes_determine_fields:
  "(pae_calculate e k s i = pae_calculate e' k' s' i' \<longleftrightarrow> e = e' \<and> k = k' \<and> s = s' \<and> i = i') \<and>
   (create_canonical_json a = Ok j \<and> create_canonical_json b = Ok j \<longrightarrow>
      le_body a = le_body b \<and> le_integrated_time a = le_integrated_time b \<and> le_log_id a = le_log_id b \<and>
      le_log_index a = le_log_index b)"
  using pae_inject canonical_json_inject by blast

theorem signed_bytes_determine_fields_witness:
  "\<exists>j. create_canonical_json example_log_entry = Ok j \<and>
     create_canonical_json (example_log_entry\<lparr>le_log_index := 2\<rparr>) \<noteq> Ok j"
proof -
  obtain j where j: "create_canonical_json example_log_entry = Ok j"
    by (simp add: create_canonical_json_def example_log_entry_def DQ_def)
  then have "create_canonical_json (example_log_entry\<lparr>le_log_index := 2\<rparr>) \<noteq> Ok j"
    using signed_bytes_determine_fields [of "[]" "[]" "[]" "[]" "[]" "[]" "[]" "[]" example_log_entry j
        "example_log_entry\<lparr>le_log_index := 2\<rparr>"]
    by (auto simp: example_log_entry_def)
  with j show ?thesis by blast
qed

end
