(* ===== verification/Spec2Isabelle.thy ===== *)
theory Spec2Isabelle
  imports Session_Channel Channel_Frames Lookup_Data Kernel_Memory Release_Endorsement
begin

text \<open>
  A verification of parts of Oak, a platform for confidential computing: sessions between a client
  and an attested enclave, the channel between a host and its enclave, the lookup data of Oak
  Functions, the physical memory of the restricted kernel, and the endorsements of transparent
  release with their transparency logs. All paths below are relative to \<^verbatim>\<open>src/\<close>.

  \<^bold>\<open>Parts of the program and how they interact.\<close> A session (\<^verbatim>\<open>oak_session\<close>) runs three steps:
  both sides exchange evidence and assertions and judge them with the configured verifiers and
  aggregators; they run a Noise handshake (\<^verbatim>\<open>oak_crypto/src/noise_handshake\<close>) and bind what they
  sent to its hash; then messages are encrypted with the keys of the handshake. Below it, the
  Oak channel (\<^verbatim>\<open>oak_channel\<close>) frames messages between host and enclave, an Oak Functions enclave
  serves a table of lookup data that the host fills while the old table is in use
  (\<^verbatim>\<open>oak_functions_service\<close>), and the restricted kernel (\<^verbatim>\<open>oak_restricted_kernel/src/mm\<close>) hands
  out the frames the enclave runs in. What a binary may be is said by signed endorsements
  (\<^verbatim>\<open>tr/verify_endorsement\<close>), which are published in transparency logs: Rekor, the public endorsement
  service, and logs whose proofs are checked against a policy of trusted logs and witnesses
  (\<^verbatim>\<open>tr/c2sp\<close>).

  \<^bold>\<open>Theories.\<close>
  \<^item> \<open>Oak_Prelude\<close>: Rust's \<open>Result\<close> with panics as a third outcome (\<open>bind_result\<close> is the question
    mark), state passing (\<open>bind_st\<close>), outcomes of loops with fuel (\<open>bind_out\<close>), \<open>anyhow\<close>
    errors, bytes and words. \<open>Ordered_Map\<close>: \<open>BTreeMap<String, V>\<close>; the locale \<open>ordered_map\<close> is its
    interface. \<open>Rust_Text\<close>: the operations of \<open>str\<close> that parsers use.
  \<^item> \<open>Noise_Crypter\<close>, \<open>Noise_Handshake\<close>: \<^verbatim>\<open>noise_handshake/{mod,crypto_wrapper,noise,client}.rs\<close> and
    \<^verbatim>\<open>identity_key.rs\<close>. \<open>ordered_encrypt\<close>, \<open>unordered_decrypt\<close> etc. are the methods of the crypters,
    \<open>initiator_new_kk\<close>, \<open>respond_nk\<close> etc. the handshake patterns. Messages round trip in order, in
    any order within the window, never twice; nonces do not repeat; both sides of a handshake agree.
  \<^item> \<open>Session_Types\<close>, \<open>Session_Encryptor\<close>, \<open>Session_Binding\<close>, \<open>Session_Aggregators\<close>,
    \<open>Session_Attestation\<close>, \<open>Session_Handshake\<close>, \<open>Session_Config\<close>, \<open>Session_Machine\<close>: the files of
    \<^verbatim>\<open>oak_session/src\<close> of the same names and the messages of \<^verbatim>\<open>proto/session\<close>; \<open>Session_Machine\<close>
    is \<^verbatim>\<open>session.rs\<close>, with \<open>step_next\<close> and one definition per method of the two sessions. The
    lemmas give the exact conditions of the aggregators, that verdicts are those of the configured
    verifiers, that built configurations are consistent, and the invariant of reachable sessions.
  \<^item> \<open>Session_Run\<close>, \<open>Session_Channel\<close>: two sessions that talk to each other, and the methods of
    \<^verbatim>\<open>channel.rs\<close>: honest sessions open, and messages arrive in order for every interleaving.
  \<^item> \<open>Channel_Frames\<close>: \<^verbatim>\<open>oak_channel/src\<close>; messages are read back from their frames.
  \<^item> \<open>Lookup_Table\<close>, \<open>Lookup_Data\<close>: \<^verbatim>\<open>oak_functions_service/src/{lookup_htbl,lookup}.rs\<close>; the hash
    table and the manager refine finite maps (locale \<open>map_interface\<close>, interpreted on both).
  \<^item> \<open>Kernel_Memory\<close>: \<^verbatim>\<open>oak_restricted_kernel/src/mm\<close>; frames in use never overlap and are usable RAM.
  \<^item> \<open>Oak_Time\<close>, \<open>Oak_Digest\<close>: \<^verbatim>\<open>oak_time/src\<close> and \<^verbatim>\<open>util/digest\<close>; conversions round trip, digests
    have the length of their algorithm, and the comparison of digests is characterised.
  \<^item> \<open>TLog_Note\<close>, \<open>TLog_Policy\<close>, \<open>TLog_Proof\<close>: \<^verbatim>\<open>tr/c2sp/{note,policy,lib}.rs\<close> and
    \<^verbatim>\<open>oak_crypto/src/tink/ml_dsa_44.rs\<close>: notes, keys and proofs are read back from their text, parsed
    policies are well formed, the quorum is decided, and accepted proofs are sound.
  \<^item> \<open>Release_Keys\<close>, \<open>Release_Statement\<close>, \<open>Release_Endorsement\<close>: \<^verbatim>\<open>tr/{key_util,intoto,rekor,pes,verify_endorsement}\<close>
    with their messages: an endorsement is accepted exactly when a trusted endorser signed it, its
    statement is valid and the logs confirm it as the reference values ask; the verification
    returns on every input and panics only on a time that cannot be printed, and the bytes that logs
    sign determine their fields.

  This theory holds the properties that span the components of a session.

  \<^bold>\<open>Code that is not part of the repository\<close> is a record of functions that the definitions take
  as an argument: AEAD, key derivation, curves, signatures and random bytes (\<open>crypto\<close> libraries),
  Base64, hex and hashes, PEM, DER, X.509 and the JSON parsers that serde derives, bit vectors,
  Merkle proofs and printed dates. What the theorems need of them are the predicates named \<open>*_correct\<close>; an example library satisfies each of them, and witnesses use it.
  Text is a list of bytes; messages of errors keep their literal and their arguments, not the
  debug print of whole structures.

  \<^bold>\<open>Bounds and fuel.\<close> \<open>lookup_loop\<close> is a partial function whose value is \<open>None\<close> when it does
  not return; it always returns, because one entry of the table is free (\<open>lookup_terminates\<close>). The
  theorems on the table hold for pairs whose length with its header is below the smallest chunk
  (\<open>pair_fits\<close>), for tables reserved for at most \<open>2 ^ 29\<close> entries and for a total cost of pairs up to
  \<open>MAX_COST\<close>, where the 40-bit indices and the arithmetic of the code do not wrap. The memory theorems hold for bitmaps of less than \<open>2 ^ 25\<close>
  words; the kernel has 4096. A quorum check needs one more level than the policy has
  entries, because members are defined before their group (\<open>quorum_check_decides\<close>); the fuel of
  \<open>verify_endorsement\<close> is that of the policy in its reference values (\<open>endorsement_fuel\<close>). The other
  loops are total recursive functions.

  \<^bold>\<open>Not modelled.\<close> Firmware, page tables, drivers and hypercalls (assembly, port I/O and hardware
  registers); launchers, orchestrators, proxies and services (process, network and file I/O);
  HPKE, TLS and the foreign-language bindings (calls into BoringSSL and Tink); the generation of
  evidence, and its verification against reference values beyond what a session does with the
  verdict, most of which reads certificate chains, CBOR and platform reports with other crates;
  generated protocol buffer code and micro_rpc dispatch; logging (but for the type of a memory map
  entry that a log message unwraps), metrics, timers and memory layout. Implementations of the traits of a session outside of the repository, such as another
  \<open>Encryptor\<close>, are not modelled. The locks of the lookup data manager are not modelled: its operations are
  atomic steps.
\<close>


section \<open>Guarantees of a session\<close>

text \<open>
  C1. An open client session is attested and bound: in every state a client session can
  reach, whatever the peer sends, an open session has a passed verdict that the configured
  verifiers and aggregators justify, and every verified piece of evidence or assertion of the
  peer came with a binding that verifies over the handshake of this very session.
\<close>

theorem open_client_session_attested_and_bound:
  assumes "merge_join_correct L" "client_reachable L config c" "step c = StepOpen enc ast hs"
  shows "attestation_state_ok (config_attestation config) ast \<and> bindings_verified L ast hs"
  using client_reachable_inv [OF assms(1,2)] assms(3) by (simp add: session_inv_def step_inv_def)

theorem open_client_session_attested_and_bound_witness:
  "\<exists>c enc ast hs. client_reachable example_lib example_config c \<and> step c = StepOpen enc ast hs \<and>
     attestation_state_ok example_handler_config ast \<and> bindings_verified example_lib ast hs"
proof -
  obtain c :: client_session and s :: server_session and k1 k2 ast hs where "client_reachable example_lib example_config c"
    "step c = StepOpen (OrderedChannelEncryptor (ordered_new k1 k2)) ast hs"
    by (rule example_open)
  with open_client_session_attested_and_bound [OF example_lib_correct(3)] show ?thesis
    by (metis example_config_ready(1))
qed

text \<open>
  C2. The same holds for an open server session.
\<close>

theorem open_server_session_attested_and_bound:
  assumes "merge_join_correct L" "server_reachable L config s" "step s = StepOpen enc ast hs"
  shows "attestation_state_ok (config_attestation config) ast \<and> bindings_verified L ast hs"
  using server_reachable_inv [OF assms(1,2)] assms(3) by (simp add: session_inv_def step_inv_def)

theorem open_server_session_attested_and_bound_witness:
  "\<exists>s enc ast hs. server_reachable example_lib example_config s \<and> step s = StepOpen enc ast hs \<and>
     attestation_state_ok example_handler_config ast \<and> bindings_verified example_lib ast hs"
proof -
  obtain c :: client_session and s :: server_session where s: "server_reachable example_lib example_config s"
    "sessions_paired example_lib c s"
    by (rule example_open)
  then obtain enc ast hs where "step s = StepOpen enc ast hs" by (auto simp: sessions_paired_def)
  with s(1) open_server_session_attested_and_bound [OF example_lib_correct(3) s(1)] show ?thesis
    by (metis example_config_ready(1))
qed

text \<open>
  C13. A session only moves forward: no call takes a session back to an earlier step, and a
  session that is open or has failed stays so; in particular an open session is never opened
  again with other keys.
\<close>

theorem session_steps_only_forward:
  assumes "merge_join_correct L"
  shows "(client_reachable L config c \<and> client_step L c c' \<longrightarrow>
      rank (step c) \<le> rank (step c') \<and> (2 \<le> rank (step c) \<longrightarrow> rank (step c') = rank (step c))) \<and>
    (server_reachable L config s \<and> server_step L s s' \<longrightarrow>
      rank (step s) \<le> rank (step s') \<and> (2 \<le> rank (step s) \<longrightarrow> rank (step s') = rank (step s)))"
  using client_step_inv [OF assms client_reachable_inv [OF assms]] server_step_inv [OF assms server_reachable_inv [OF assms]]
    client_late_steps server_late_steps by blast

theorem session_steps_only_forward_witness:
  "\<exists>c c'. client_reachable example_lib example_config c \<and> client_step example_lib c c' \<and>
     rank (step c) = 2 \<and> rank (step c') = 2"
proof -
  obtain c :: client_session and s :: server_session and k1 k2 ast hs where c: "client_reachable example_lib example_config c"
    "step c = StepOpen (OrderedChannelEncryptor (ordered_new k1 k2)) ast hs"
    by (rule example_open)
  let ?c = "fst (client_read example_lib c)"
  have "client_step example_lib c ?c" by (rule client_reads) (rule surjective_pairing)
  with c session_steps_only_forward [OF example_lib_correct(3), of example_config c ?c] show ?thesis by force
qed

text \<open>
  C28. A session buffers at most the documented number of messages in each direction, and
  only encrypted ones, however many the peer sends.
\<close>

theorem session_queues_bounded:
  assumes "merge_join_correct L"
  shows "(client_reachable L config c \<longrightarrow>
      length (outgoing c) \<le> 1000 \<and> length (incoming c) \<le> 1000 \<and>
      (\<forall>m \<in> set (outgoing c) \<union> set (incoming c). \<exists>em. m = Some (Encrypted em))) \<and>
    (server_reachable L config s \<longrightarrow>
      length (outgoing s) \<le> 1000 \<and> length (incoming s) \<le> 1000 \<and>
      (\<forall>m \<in> set (outgoing s) \<union> set (incoming s). \<exists>em. m = Some (Encrypted em)))"
  using client_reachable_inv [OF assms] server_reachable_inv [OF assms]
  by (auto simp: session_inv_def DEFAULT_MAX_MESSAGE_QUEUE_LEN_def)

theorem session_queues_bounded_witness:
  "\<exists>c s. client_reachable example_lib example_config c \<and> server_reachable example_lib example_config s \<and>
     length (incoming c) \<le> 1000 \<and> length (incoming s) \<le> 1000"
proof -
  obtain c :: client_session and s :: server_session where "client_reachable example_lib example_config c"
    "server_reachable example_lib example_config s"
    by (rule example_open)
  with session_queues_bounded [OF example_lib_correct(3)] show ?thesis by blast
qed

text \<open>
  C29. A publisher receives the peer's evidence once: a session publishes at most one record,
  and an open session has published exactly the evidence that
  \<open>get_peer_attestation_evidence\<close> returns if it has a publisher, and nothing otherwise.
\<close>

theorem evidence_published_once:
  assumes "merge_join_correct L"
  shows "(client_reachable L config c \<longrightarrow> length (published c) \<le> 1 \<and> (is_open c \<longrightarrow>
      (if config_publisher config
       then \<exists>ev. published c = [ev] \<and> session_get_peer_attestation_evidence c = Ok ev else published c = []))) \<and>
    (server_reachable L config s \<longrightarrow> length (published s) \<le> 1 \<and> (is_open s \<longrightarrow>
      (if config_publisher config
       then \<exists>ev. published s = [ev] \<and> session_get_peer_attestation_evidence s = Ok ev else published s = [])))"
  using client_reachable_inv [OF assms, of config c] server_reachable_inv [OF assms, of config s]
  by (auto simp: session_inv_def step_inv_def is_open_def session_get_peer_attestation_evidence_def
      step_get_peer_attestation_evidence_def split: step.splits if_splits)

theorem evidence_published_once_witness:
  "\<exists>c ev. client_reachable example_lib example_config c \<and> published c = [ev] \<and>
     session_get_peer_attestation_evidence c = Ok ev"
proof -
  obtain c :: client_session and s :: server_session and k1 k2 ast hs where c: "client_reachable example_lib example_config c"
    "step c = StepOpen (OrderedChannelEncryptor (ordered_new k1 k2)) ast hs"
    by (rule example_open)
  moreover from c(2) have "is_open c" by (simp add: is_open_def)
  moreover have "config_publisher example_config" by (simp add: example_config_def)
  ultimately show ?thesis using evidence_published_once [OF example_lib_correct(3), of example_config c] by auto
qed


text \<open>
  C3. From the builder to the open session: if a configuration was accepted by \<open>build\<close> with
  one of the aggregators \<open>Any\<close>, \<open>All\<close> or \<open>Empty\<close> and has assertion verifiers, then an open
  session, of the client or of the server, holds an assertion that the verifier configured for
  it accepted, together with a binding of that assertion to this session that verified.
\<close>

theorem open_session_has_bound_assertion:
  assumes "merge_join_correct L" "build b = Ok config"
    and "assertion_attestation_aggregator (config_attestation config) \<in> {Any, All, Empty}"
    and "\<not> btm_is_empty (peer_assertion_verifiers (config_attestation config))"
    and "client_reachable L config c \<and> step c = StepOpen enc ast hs \<or> server_reachable L config s \<and> step s = StepOpen enc ast hs"
  shows "\<exists>k v verifier a bnd. btm_get (peer_assertion_verifiers (config_attestation config)) k = Some verifier \<and>
    verifier a = Ok v \<and> btm_get (peer_assertion_bindings hs) k = Some bnd \<and>
    vba_verify_binding v (create_session_binding_token L (attestation_binding_token ast) (handshake_binding_token hs)) bnd = Ok ()"
proof -
  let ?config = "config_attestation config" and ?a = "get_assertion_verification_results (peer_attestation_verdict ast)"
  have ok: "attestation_state_ok ?config ast" and bound: "bindings_verified L ast hs"
    using assms(5) client_reachable_inv [OF assms(1), of config c] server_reachable_inv [OF assms(1), of config s]
    by (auto simp: session_inv_def step_inv_def)
  from ok have "verdict_sound ?config (peer_attestation_verdict ast)"
    and "process_assertion_results (assertion_attestation_aggregator ?config) ?a = Ok ()"
    and cover: "results_cover (peer_assertion_verifiers ?config) ?a"
    by (auto simp: attestation_state_ok_def verdict_sound_def)
  moreover have "is_compatible_with_configuration (assertion_attestation_aggregator ?config) (peer_assertion_verifiers ?config)"
    using assms(2) by (auto simp: build_def Let_def split: if_splits)
  ultimately obtain k v where v: "btm_get ?a k = Some (BoundSuccess v)"
    using assms(3,4) any.accepts_verified [OF _ cover] all.accepts_verified [OF _ cover] empty.accepts_verified [OF _ cover]
    by (auto simp: Any_def All_def Empty_def)
  moreover from v ok obtain verifier a where "btm_get (peer_assertion_verifiers ?config) k = Some verifier" "verifier a = Ok v"
    unfolding attestation_state_ok_def verdict_sound_def by blast
  ultimately show ?thesis using bound unfolding bindings_verified_def by blast
qed

theorem open_session_has_bound_assertion_witness:
  "\<exists>c enc ast hs k v verifier a. build (SessionConfigBuilder example_config) = Ok example_config \<and>
     client_reachable example_lib example_config c \<and> step c = StepOpen enc ast hs \<and>
     btm_get (peer_assertion_verifiers example_handler_config) k = Some verifier \<and> verifier a = Ok v"
proof -
  obtain c :: client_session and s :: server_session and k1 k2 ast hs where c: "client_reachable example_lib example_config c"
    "step c = StepOpen (OrderedChannelEncryptor (ordered_new k1 k2)) ast hs"
    by (rule example_open)
  have b: "build (SessionConfigBuilder example_config) = Ok example_config"
    by (simp add: build_def example_config_def example_handler_config_def All_def All_compatible_def)
  have a: "assertion_attestation_aggregator (config_attestation example_config) \<in> {Any, All, Empty}"
    "\<not> btm_is_empty (peer_assertion_verifiers (config_attestation example_config))"
    by (simp_all add: example_config_def example_handler_config_def)
  from open_session_has_bound_assertion [OF example_lib_correct(3) b a, of c _ ast hs] b c
  show ?thesis by (fastforce simp: example_config_ready(1))
qed

end
